(* ===== verification/Prelude.thy ===== *)
theory Prelude
  imports Main "HOL-Library.Word" "HOL-Library.AList" "HOL-Library.Monad_Syntax"
    "HOL-Library.Product_Lexorder" "HOL-Library.Multiset" "HOL-Library.Sublist"
begin

text \<open>
  The vocabulary the components share: machine integers at their width, socket addresses,
  hash maps as association lists with distinct keys, iterator adaptors of the Rust standard
  library, a fold that stops at the first panic, and decimal rendering.  The two collections
  \<^verbatim>\<open>hmap_simps\<close> and \<^verbatim>\<open>no_panic\<close> carry most of the component proofs: the first holds the
  equations of the map operations, the second the lemmas that say an operation returns.
\<close>

named_theorems hmap_simps \<open>equations of the map operations\<close>
named_theorems no_panic \<open>an operation returns instead of panicking\<close>
named_theorems keeps \<open>an operation keeps an invariant\<close>

section \<open>Machine integers and addresses\<close>

type_synonym u8 = "8 word"
type_synonym u16 = "16 word"
type_synonym u32 = "32 word"
type_synonym u64 = "64 word"

text \<open>\<^verbatim>\<open>std::net::IpAddr\<close>: the derived order puts every IPv4 address before every IPv6 one.\<close>

datatype ip_addr = V4 u32 | V6 "128 word"

instantiation ip_addr :: linorder
begin

fun less_eq_ip_addr :: "ip_addr \<Rightarrow> ip_addr \<Rightarrow> bool" where
  "less_eq_ip_addr (V4 a) (V4 b) = (a \<le> b)"
| "less_eq_ip_addr (V4 a) (V6 b) = True"
| "less_eq_ip_addr (V6 a) (V4 b) = False"
| "less_eq_ip_addr (V6 a) (V6 b) = (a \<le> b)"

definition less_ip_addr :: "ip_addr \<Rightarrow> ip_addr \<Rightarrow> bool" where
  "less_ip_addr x y = (x \<le> y \<and> \<not> y \<le> x)"

instance
proof
  fix x y z :: ip_addr
  show "(x < y) = (x \<le> y \<and> \<not> y \<le> x)" by (simp add: less_ip_addr_def)
  show "x \<le> x" by (cases x) auto
  show "x \<le> y \<Longrightarrow> y \<le> z \<Longrightarrow> x \<le> z" by (cases x; cases y; cases z) auto
  show "x \<le> y \<Longrightarrow> y \<le> x \<Longrightarrow> x = y" by (cases x; cases y) auto
  show "x \<le> y \<or> y \<le> x" by (cases x; cases y) auto
qed

end

section \<open>Hash maps\<close>

text \<open>
  A \<^verbatim>\<open>HashMap\<close> or \<^verbatim>\<open>BTreeMap\<close> is an association list with distinct keys.  The list order stands
  for the iteration order, which no operation fixes.
\<close>

type_synonym ('k, 'v) hmap = "('k \<times> 'v) list"

definition hm_inv :: "('k, 'v) hmap \<Rightarrow> bool" where
  "hm_inv m = distinct (map fst m)"

definition hm_get :: "('k, 'v) hmap \<Rightarrow> 'k \<Rightarrow> 'v option" where
  "hm_get m k = map_of m k"

definition hm_insert :: "'k \<Rightarrow> 'v \<Rightarrow> ('k, 'v) hmap \<Rightarrow> ('k, 'v) hmap" where
  "hm_insert k v m = AList.update k v m"

definition hm_remove :: "'k \<Rightarrow> ('k, 'v) hmap \<Rightarrow> ('k, 'v) hmap" where
  "hm_remove k m = filter (\<lambda>e. fst e \<noteq> k) m"

text \<open>\<^verbatim>\<open>if let Some(v) = map.get_mut(k) { *v = f(v) }\<close>\<close>

definition hm_modify :: "'k \<Rightarrow> ('v \<Rightarrow> 'v) \<Rightarrow> ('k, 'v) hmap \<Rightarrow> ('k, 'v) hmap" where
  "hm_modify k f m = map (\<lambda>(k', v). if k' = k then (k', f v) else (k', v)) m"

definition hm_retain :: "('k \<Rightarrow> 'v \<Rightarrow> bool) \<Rightarrow> ('k, 'v) hmap \<Rightarrow> ('k, 'v) hmap" where
  "hm_retain p m = filter (\<lambda>(k, v). p k v) m"

abbreviation hm_keys :: "('k, 'v) hmap \<Rightarrow> 'k list" where
  "hm_keys m \<equiv> map fst m"

abbreviation hm_values :: "('k, 'v) hmap \<Rightarrow> 'v list" where
  "hm_values m \<equiv> map snd m"

lemma hm_inv_Nil [simp, keeps]: "hm_inv []"
  by (simp add: hm_inv_def)

lemma hm_get_Nil [simp]: "hm_get [] k = None"
  by (simp add: hm_get_def)

lemma hm_get_insert [simp, hmap_simps]:
  "hm_get (hm_insert k v m) k' = (if k' = k then Some v else hm_get m k')"
  by (simp add: hm_get_def hm_insert_def update_conv')

lemma map_of_filter_key: "map_of (filter (\<lambda>e. fst e \<noteq> k) m) k' = (if k' = k then None else map_of m k')"
  by (induction m) auto

lemma hm_get_without: "hm_get (filter (\<lambda>e. fst e \<notin> S) m) k = (if k \<in> S then None else hm_get m k)"
  unfolding hm_get_def by (induction m) auto

lemma hm_get_remove [simp, hmap_simps]:
  "hm_get (hm_remove k m) k' = (if k' = k then None else hm_get m k')"
  by (simp add: hm_get_def hm_remove_def map_of_filter_key)

lemma hm_get_modify [simp, hmap_simps]:
  "hm_get (hm_modify k f m) k' = (if k' = k then map_option f (hm_get m k) else hm_get m k')"
  unfolding hm_get_def hm_modify_def by (induction m) auto

lemma hm_get_retain [hmap_simps]:
  assumes "hm_inv m"
  shows "hm_get (hm_retain p m) k = (case hm_get m k of None \<Rightarrow> None | Some v \<Rightarrow> if p k v then Some v else None)"
  using assms unfolding hm_inv_def hm_get_def hm_retain_def
proof (induction m)
  case (Cons e m)
  then show ?case
    by (cases e) (auto split: option.splits simp: map_of_eq_None_iff dest: map_of_SomeD)
qed simp

lemma hm_inv_insert [simp, intro, keeps]: "hm_inv m \<Longrightarrow> hm_inv (hm_insert k v m)"
  by (simp add: hm_inv_def hm_insert_def distinct_update)

lemma hm_inv_remove [simp, intro, keeps]: "hm_inv m \<Longrightarrow> hm_inv (hm_remove k m)"
  unfolding hm_inv_def hm_remove_def by (rule distinct_map_filter)

lemma hm_keys_modify [simp]: "hm_keys (hm_modify k f m) = hm_keys m"
  unfolding hm_modify_def by (induction m) auto

lemma hm_inv_modify [simp, keeps]: "hm_inv (hm_modify k f m) = hm_inv m"
  by (simp add: hm_inv_def)

lemma hm_inv_retain [simp, intro, keeps]: "hm_inv m \<Longrightarrow> hm_inv (hm_retain p m)"
  unfolding hm_inv_def hm_retain_def by (rule distinct_map_filter)

lemma hm_get_SomeD: "hm_get m k = Some v \<Longrightarrow> (k, v) \<in> set m"
  by (simp add: hm_get_def map_of_SomeD)

lemma hm_get_in_set: "hm_inv m \<Longrightarrow> hm_get m k = Some v \<longleftrightarrow> (k, v) \<in> set m"
  by (simp add: hm_inv_def hm_get_def)

lemma hm_get_None_iff: "hm_get m k = None \<longleftrightarrow> k \<notin> fst ` set m"
  by (simp add: hm_get_def map_of_eq_None_iff)

lemma hm_insert_set:
  "hm_inv m \<Longrightarrow> set (hm_insert k v m) = {(k, v)} \<union> {e \<in> set m. fst e \<noteq> k}"
proof (rule set_eqI, clarify)
  fix k' v'
  assume "hm_inv m"
  then show "((k', v') \<in> set (hm_insert k v m)) = ((k', v') \<in> {(k, v)} \<union> {e \<in> set m. fst e \<noteq> k})"
    by (auto simp flip: hm_get_in_set split: if_splits)
qed

lemma hm_keys_insert [simp]: "fst ` set (hm_insert k v m) = insert k (fst ` set m)"
  by (simp add: hm_insert_def dom_update)

lemma hm_remove_set [simp]: "set (hm_remove k m) = {e \<in> set m. fst e \<noteq> k}"
  by (auto simp: hm_remove_def)

lemma hm_modify_set:
  "set (hm_modify k f m) = (\<lambda>(k', v). if k' = k then (k', f v) else (k', v)) ` set m"
  by (simp add: hm_modify_def)

lemma hm_retain_set [simp]: "set (hm_retain p m) = {(k, v) \<in> set m. p k v}"
  by (auto simp: hm_retain_def)

lemma hm_insert_Nil [simp]: "hm_insert k v [] = [(k, v)]"
  by (simp add: hm_insert_def)

lemma hm_insert_Cons [simp]:
  "hm_insert k v (e # m) = (if fst e = k then (k, v) # m else e # hm_insert k v m)"
  by (cases e) (simp add: hm_insert_def)

lemma hm_insert_absent: "hm_get m k = None \<Longrightarrow> hm_insert k v m = m @ [(k, v)]"
  by (induction m) (auto simp: hm_get_def hm_insert_def split: if_splits)

lemma hm_modify_absent: "hm_get m k = None \<Longrightarrow> hm_modify k f m = m"
  unfolding hm_modify_def hm_get_def by (induction m) (auto split: if_splits)

lemma hm_remove_absent: "hm_get m k = None \<Longrightarrow> hm_remove k m = m"
  unfolding hm_remove_def hm_get_def by (induction m) (auto split: if_splits)

lemma mset_hm_remove:
  "hm_inv m \<Longrightarrow> hm_get m k = Some v \<Longrightarrow> mset m = add_mset (k, v) (mset (hm_remove k m))"
proof (induction m)
  case (Cons e m)
  then show ?case
  proof (cases "fst e = k")
    case True
    then have "e = (k, v)" "hm_get m k = None"
      using Cons.prems by (auto simp: hm_get_def hm_inv_def map_of_eq_None_iff split: if_splits)
    then show ?thesis using hm_remove_absent [of m k] by (simp add: hm_remove_def)
  next
    case False
    then show ?thesis using Cons by (auto simp: hm_get_def hm_inv_def hm_remove_def)
  qed
qed (simp add: hm_get_def)

lemma mset_hm_insert: "hm_inv m \<Longrightarrow> mset (hm_insert k v m) = add_mset (k, v) (mset (hm_remove k m))"
proof (induction m)
  case (Cons e m)
  then show ?case
  proof (cases "fst e = k")
    case True
    then have "hm_get m k = None"
      using Cons.prems by (auto simp: hm_get_def hm_inv_def map_of_eq_None_iff)
    then show ?thesis using True hm_remove_absent [of m k] by (simp add: hm_remove_def)
  next
    case False
    then show ?thesis using Cons by (auto simp: hm_inv_def hm_remove_def)
  qed
qed (simp add: hm_remove_def)

text \<open>How many entries satisfy a predicate, and how the map operations change that number.\<close>

definition hm_count :: "('k \<Rightarrow> 'v \<Rightarrow> bool) \<Rightarrow> ('k, 'v) hmap \<Rightarrow> nat" where
  "hm_count P m = length (filter (\<lambda>(k, v). P k v) m)"

lemma hm_count_mset: "hm_count P m = size (filter_mset (\<lambda>(k, v). P k v) (mset m))"
  by (simp add: hm_count_def size_mset [symmetric] del: size_mset)

lemma hm_count_Nil [simp]: "hm_count P [] = 0"
  by (simp add: hm_count_def)

lemma hm_count_remove:
  "hm_inv m \<Longrightarrow> hm_get m k = Some v \<Longrightarrow> hm_count P m = hm_count P (hm_remove k m) + (if P k v then 1 else 0)"
  using mset_hm_remove [of m k v] by (simp add: hm_count_mset)

lemma hm_count_insert:
  "hm_inv m \<Longrightarrow> hm_count P (hm_insert k v m) = hm_count P (hm_remove k m) + (if P k v then 1 else 0)"
  by (simp add: hm_count_mset mset_hm_insert)

lemma hm_count_modify:
  "(\<And>v. (k, v) \<in> set m \<Longrightarrow> P k (f v) = P k v) \<Longrightarrow> hm_count P (hm_modify k f m) = hm_count P m"
  unfolding hm_count_def hm_modify_def by (induction m) (auto split: if_splits)

section \<open>The map contract\<close>

text \<open>
  What a client of a map relies on: a lookup after an insertion, a removal or an in-place
  update.  Both \<^verbatim>\<open>HashMap\<close> and \<^verbatim>\<open>BTreeMap\<close> promise it; the association lists above provide it.
\<close>

locale map_contract =
  fixes inv :: "'m \<Rightarrow> bool"
    and empty :: 'm
    and get :: "'m \<Rightarrow> 'k \<Rightarrow> 'v option"
    and put :: "'k \<Rightarrow> 'v \<Rightarrow> 'm \<Rightarrow> 'm"
    and del :: "'k \<Rightarrow> 'm \<Rightarrow> 'm"
  assumes inv_empty: "inv empty"
    and inv_put: "inv m \<Longrightarrow> inv (put k v m)"
    and inv_del: "inv m \<Longrightarrow> inv (del k m)"
    and get_empty: "get empty k = None"
    and get_put: "get (put k v m) k' = (if k' = k then Some v else get m k')"
    and get_del: "get (del k m) k' = (if k' = k then None else get m k')"
begin

lemma put_put: "get (put k v (put k w m)) = get (put k v m)"
  by (rule ext) (simp add: get_put)

lemma del_put: "get m k = None \<Longrightarrow> get (del k (put k v m)) = get m"
  by (rule ext) (simp add: get_put get_del)

lemma put_commute: "k \<noteq> l \<Longrightarrow> get (put k v (put l w m)) = get (put l w (put k v m))"
  by (rule ext) (simp add: get_put)

lemma del_idem: "get (del k (del k m)) = get (del k m)"
  by (rule ext) (simp add: get_del)

end

interpretation hm: map_contract hm_inv "[]" hm_get hm_insert hm_remove
  by unfold_locales auto

section \<open>Reference counts\<close>

text \<open>
  Three places of the server count users of a shared resource in a map: an increment creates
  the entry, a decrement panics on a missing entry and deletes the entry at zero.  The contract
  is the count function; the client lemmas say that balanced use never panics and leaves every
  count where it was.
\<close>

datatype 'k rc_op = Acquire 'k | Release 'k

locale refcount =
  fixes count :: "'m \<Rightarrow> 'k \<Rightarrow> nat"
    and acquire :: "'k \<Rightarrow> 'm \<Rightarrow> 'm"
    and release :: "'k \<Rightarrow> 'm \<Rightarrow> 'm option"
    and ok :: "'m \<Rightarrow> bool"
  assumes ok_acquire: "ok m \<Longrightarrow> ok (acquire k m)"
    and count_acquire: "ok m \<Longrightarrow> count (acquire k m) k' = (if k' = k then Suc (count m k) else count m k')"
    and release_Some: "ok m \<Longrightarrow> 0 < count m k \<Longrightarrow>
      \<exists>m'. release k m = Some m' \<and> ok m' \<and> (\<forall>k'. count m' k' = (if k' = k then count m k - 1 else count m k'))"
    and release_None: "ok m \<Longrightarrow> count m k = 0 \<Longrightarrow> release k m = None"
begin

fun run_ops :: "'k rc_op list \<Rightarrow> 'm \<Rightarrow> 'm option" where
  "run_ops [] m = Some m"
| "run_ops (Acquire k # ops) m = run_ops ops (acquire k m)"
| "run_ops (Release k # ops) m = (case release k m of None \<Rightarrow> None | Some m' \<Rightarrow> run_ops ops m')"

fun covered :: "('k \<Rightarrow> nat) \<Rightarrow> 'k rc_op list \<Rightarrow> bool" where
  "covered c [] = True"
| "covered c (Acquire k # ops) = covered (c(k := Suc (c k))) ops"
| "covered c (Release k # ops) = (0 < c k \<and> covered (c(k := c k - 1)) ops)"

lemma acquire_fun: "ok m \<Longrightarrow> count (acquire k m) = (count m)(k := Suc (count m k))"
  by (rule ext) (simp add: count_acquire)

lemma run_ops_covered: "ok m \<Longrightarrow> run_ops ops m \<noteq> None \<longleftrightarrow> covered (count m) ops"
proof (induction ops m rule: run_ops.induct)
  case (2 k ops m)
  then show ?case by (simp add: ok_acquire acquire_fun fun_upd_def)
next
  case (3 k ops m)
  show ?case
  proof (cases "count m k = 0")
    case True
    then show ?thesis using 3 by (simp add: release_None)
  next
    case False
    then obtain m' where m': "release k m = Some m'" "ok m'"
      "\<forall>k'. count m' k' = (if k' = k then count m k - 1 else count m k')"
      using release_Some 3 by blast
    then have "count m' = (count m)(k := count m k - 1)" by auto
    then show ?thesis using 3 m' False by simp
  qed
qed simp

lemma release_acquire: "ok m \<Longrightarrow> \<exists>m'. release k (acquire k m) = Some m' \<and> ok m' \<and> count m' = count m"
proof -
  assume ok: "ok m"
  then have "0 < count (acquire k m) k" by (simp add: count_acquire)
  from release_Some [OF ok_acquire [OF ok] this] obtain m' where
    "release k (acquire k m) = Some m'" "ok m'"
    "\<forall>k'. count m' k' = (if k' = k then count (acquire k m) k - 1 else count (acquire k m) k')"
    by blast
  then show ?thesis using ok by (auto simp: count_acquire fun_eq_iff)
qed

end

section \<open>Iterators and panics\<close>

text \<open>\<^verbatim>\<open>Iterator::min_by_key\<close>: the first of the elements with the least key.\<close>

fun min_by_key :: "('a \<Rightarrow> 'b::linorder) \<Rightarrow> 'a list \<Rightarrow> 'a option" where
  "min_by_key f [] = None"
| "min_by_key f (x # xs) = (case min_by_key f xs of None \<Rightarrow> Some x | Some y \<Rightarrow> Some (if f y < f x then y else x))"

lemma min_by_key_None [simp]: "min_by_key f xs = None \<longleftrightarrow> xs = []"
  by (cases xs) (auto split: option.splits)

lemma min_by_key_in: "min_by_key f xs = Some x \<Longrightarrow> x \<in> set xs"
  by (induction xs arbitrary: x) (auto split: option.splits if_splits)

lemma min_by_key_least: "min_by_key f xs = Some x \<Longrightarrow> y \<in> set xs \<Longrightarrow> f x \<le> f y"
  by (induction xs arbitrary: x y) (fastforce split: option.splits if_splits)+

lemma min_by_key_ex: "xs \<noteq> [] \<Longrightarrow> \<exists>x. min_by_key f xs = Some x \<and> x \<in> set xs"
  using min_by_key_in [of f xs] min_by_key_None [of f xs] by blast

text \<open>\<^verbatim>\<open>Iterator::min\<close>.\<close>

definition iter_min :: "'a::linorder list \<Rightarrow> 'a option" where
  "iter_min xs = min_by_key (\<lambda>x. x) xs"

lemma iter_min_None [simp]: "iter_min xs = None \<longleftrightarrow> xs = []"
  by (simp add: iter_min_def)

lemma iter_min_Some: "iter_min xs = Some m \<longleftrightarrow> m \<in> set xs \<and> (\<forall>x \<in> set xs. m \<le> x)"
proof
  assume "iter_min xs = Some m"
  then show "m \<in> set xs \<and> (\<forall>x \<in> set xs. m \<le> x)"
    unfolding iter_min_def using min_by_key_in min_by_key_least by fastforce
next
  assume m: "m \<in> set xs \<and> (\<forall>x \<in> set xs. m \<le> x)"
  then have "xs \<noteq> []" by auto
  then obtain y where y: "iter_min xs = Some y" "y \<in> set xs"
    unfolding iter_min_def using min_by_key_ex [of xs "\<lambda>x. x"] by blast
  then have "y \<le> m" using m min_by_key_least [of "\<lambda>x. x" xs y m] by (simp add: iter_min_def)
  then show "iter_min xs = Some m" using y m by force
qed

text \<open>\<^verbatim>\<open>Iterator::find_map\<close>.\<close>

fun find_map :: "('a \<Rightarrow> 'b option) \<Rightarrow> 'a list \<Rightarrow> 'b option" where
  "find_map f [] = None"
| "find_map f (x # xs) = (case f x of Some y \<Rightarrow> Some y | None \<Rightarrow> find_map f xs)"

lemma find_map_None [simp]: "find_map f xs = None \<longleftrightarrow> (\<forall>x \<in> set xs. f x = None)"
  by (induction xs) (auto split: option.splits)

lemma find_map_SomeD: "find_map f xs = Some y \<Longrightarrow> \<exists>x \<in> set xs. f x = Some y"
  by (induction xs) (auto split: option.splits)

lemma find_SomeD: "find p xs = Some x \<Longrightarrow> x \<in> set xs \<and> p x"
  by (induction xs) (auto split: if_splits)

text \<open>A loop whose body may panic: the value \<^const>\<open>None\<close> is the panic.\<close>

fun foldM :: "('a \<Rightarrow> 's \<Rightarrow> 's option) \<Rightarrow> 'a list \<Rightarrow> 's \<Rightarrow> 's option" where
  "foldM f [] s = Some s"
| "foldM f (x # xs) s = (case f x s of None \<Rightarrow> None | Some s' \<Rightarrow> foldM f xs s')"

lemma foldM_append: "foldM f (xs @ ys) s = Option.bind (foldM f xs s) (foldM f ys)"
  by (induction xs arbitrary: s) (auto split: option.splits)

lemma foldM_inv:
  assumes "\<And>x s. x \<in> set xs \<Longrightarrow> P s \<Longrightarrow> \<exists>s'. f x s = Some s' \<and> P s'" "P s"
  shows "\<exists>s'. foldM f xs s = Some s' \<and> P s'"
  using assms
proof (induction xs arbitrary: s)
  case (Cons x xs)
  then obtain s' where "f x s = Some s'" "P s'" by force
  moreover have "\<exists>s''. foldM f xs s' = Some s'' \<and> P s''"
    using Cons.IH [of s'] Cons.prems(1) \<open>P s'\<close> by simp
  ultimately show ?case by simp
qed simp

lemma foldM_rel:
  assumes "\<And>x s s'. x \<in> set xs \<Longrightarrow> f x s = Some s' \<Longrightarrow> R s s'"
    and "\<And>s. R s s" "\<And>a b c. R a b \<Longrightarrow> R b c \<Longrightarrow> R a c"
    and "foldM f xs s = Some s'"
  shows "R s s'"
  using assms(1,4)
proof (induction xs arbitrary: s)
  case Nil
  then show ?case using assms(2) by simp
next
  case (Cons x xs)
  then obtain s1 where "f x s = Some s1" "foldM f xs s1 = Some s'" by (auto split: option.splits)
  moreover have "R s1 s'"
    by (rule Cons.IH) (use Cons.prems(1) \<open>foldM f xs s1 = Some s'\<close> in auto)
  ultimately show ?case using Cons.prems(1) [of x s s1] assms(3) by simp
qed

section \<open>Decimal rendering\<close>

function string_of_nat :: "nat \<Rightarrow> string" where
  "string_of_nat n = (if n < 10 then [char_of (48 + n)] else string_of_nat (n div 10) @ [char_of (48 + n mod 10)])"
  by auto
termination by (relation "measure id") auto

declare string_of_nat.simps [simp del]

definition nat_of_string :: "string \<Rightarrow> nat" where
  "nat_of_string s = foldl (\<lambda>a c. a * 10 + (of_char c - 48)) 0 s"

lemma of_char_digit: "d < 10 \<Longrightarrow> of_char (char_of (48 + d :: nat)) = 48 + d"
  by simp

lemma nat_of_string_of_nat [simp]: "nat_of_string (string_of_nat n) = n"
proof (induction n rule: string_of_nat.induct)
  case (1 n)
  show ?case
  proof (cases "n < 10")
    case True
    then show ?thesis using of_char_digit [of n]
      by (subst string_of_nat.simps) (simp add: nat_of_string_def del: of_char_of)
  next
    case False
    have "n mod 10 < 10" by simp
    note d = of_char_digit [OF this]
    have "nat_of_string (string_of_nat n) = nat_of_string (string_of_nat (n div 10)) * 10 + n mod 10"
      using False d by (subst string_of_nat.simps) (simp add: nat_of_string_def del: of_char_of)
    then show ?thesis using 1 [OF False] by simp
  qed
qed

lemma string_of_nat_inject [simp]: "string_of_nat m = string_of_nat n \<longleftrightarrow> m = n"
  by (metis nat_of_string_of_nat)

lemma string_of_nat_digits: "c \<in> set (string_of_nat n) \<Longrightarrow> 48 \<le> (of_char c :: nat) \<and> (of_char c :: nat) < 58"
proof (induction n rule: string_of_nat.induct)
  case (1 n)
  have "n mod 10 < 10" by simp
  note d = of_char_digit [OF this]
  show ?case
  proof (cases "n < 10")
    case True
    then show ?thesis using 1(2) of_char_digit [of n]
      by (subst (asm) string_of_nat.simps) (simp del: of_char_of)
  next
    case False
    then show ?thesis using 1 d
      by (subst (asm) (2) string_of_nat.simps) (auto simp del: of_char_of)
  qed
qed

end
