(* ===== verification/Net_Id_Pool.thy ===== *)
theory Net_Id_Pool
  imports Prelude
begin

text \<open>
  The pool of VLAN and VXLAN network identifiers (nullnet-server, \<^verbatim>\<open>net_id_pool.rs\<close>): freed
  identifiers are reused oldest first, and fresh ones are handed out up to the bound of the
  network type.  The pool is shown to implement the contract of an identifier allocator whose
  clients never hold the same identifier twice.
\<close>

section \<open>The pool\<close>

datatype net = Vlan | Vxlan

definition MIN_NET_ID :: u32 where
  "MIN_NET_ID = 101"

fun MAX_NET_ID :: "net \<Rightarrow> u32" where
  "MAX_NET_ID Vlan = 4094"
| "MAX_NET_ID Vxlan = 2097151"

definition DEFAULT_VXLAN_DSTPORT :: u16 where
  "DEFAULT_VXLAN_DSTPORT = 47890"

record net_id_pool =
  next_fresh :: u32
  freed :: "u32 list"
  freed_set :: "u32 set"

definition pool_new :: net_id_pool where
  "pool_new = \<lparr>next_fresh = MIN_NET_ID, freed = [], freed_set = {}\<rparr>"

definition allocate :: "net \<Rightarrow> net_id_pool \<Rightarrow> u32 option \<times> net_id_pool" where
  "allocate ty p = (case freed p of
       net_id # rest \<Rightarrow> (Some net_id, p\<lparr>freed := rest, freed_set := freed_set p - {net_id}\<rparr>)
     | [] \<Rightarrow> if next_fresh p \<le> MAX_NET_ID ty
            then (Some (next_fresh p), p\<lparr>next_fresh := next_fresh p + 1\<rparr>)
            else (None, p))"

definition free :: "net \<Rightarrow> u32 \<Rightarrow> net_id_pool \<Rightarrow> net_id_pool" where
  "free ty net_id p =
     (if MIN_NET_ID \<le> net_id \<and> net_id \<le> MAX_NET_ID ty \<and> net_id \<notin> freed_set p
      then p\<lparr>freed := freed p @ [net_id], freed_set := insert net_id (freed_set p)\<rparr>
      else p)"

section \<open>The pool invariant\<close>

definition pool_inv :: "net \<Rightarrow> net_id_pool \<Rightarrow> bool" where
  "pool_inv ty p \<longleftrightarrow>
     MIN_NET_ID \<le> next_fresh p \<and> next_fresh p \<le> MAX_NET_ID ty + 1 \<and>
     distinct (freed p) \<and> freed_set p = set (freed p) \<and>
     (\<forall>net_id \<in> set (freed p). MIN_NET_ID \<le> net_id \<and> net_id < next_fresh p)"

text \<open>The identifiers that are out: handed out by the pool and not freed since.\<close>

definition in_use :: "net_id_pool \<Rightarrow> u32 set" where
  "in_use p = {net_id. MIN_NET_ID \<le> net_id \<and> net_id < next_fresh p} - set (freed p)"

lemma max_bound: "unat (MAX_NET_ID ty) \<le> 2097151"
  by (cases ty) simp_all

lemma unat_succ: "unat x \<le> 2097151 \<Longrightarrow> unat (x + 1 :: u32) = Suc (unat x)"
  by (simp add: unat_word_ariths)

lemma max_succ_unat: "unat (MAX_NET_ID ty + 1) = Suc (unat (MAX_NET_ID ty))"
  by (rule unat_succ [OF max_bound])

lemma le_max_unat: "x \<le> MAX_NET_ID ty \<Longrightarrow> unat x \<le> 2097151"
  using max_bound [of ty] by (simp add: word_le_nat_alt)

lemma max_succ: "x \<le> MAX_NET_ID ty \<Longrightarrow> x < x + 1"
  using unat_succ [OF le_max_unat] by (simp add: word_less_nat_alt)

lemma max_le_iff: "x < MAX_NET_ID ty + 1 \<longleftrightarrow> x \<le> MAX_NET_ID ty"
  by (simp only: word_less_nat_alt word_le_nat_alt max_succ_unat) linarith

lemma max_step: "x \<le> MAX_NET_ID ty \<Longrightarrow> x + 1 \<le> MAX_NET_ID ty + 1"
  by (simp add: word_le_nat_alt max_succ_unat unat_succ [OF le_max_unat])

lemma succ_less_iff: "x \<le> MAX_NET_ID ty \<Longrightarrow> y < x + 1 \<longleftrightarrow> y < x \<or> y = x"
  by (simp only: word_less_nat_alt word_unat_eq_iff unat_succ [OF le_max_unat]) linarith

lemma pool_inv_new [simp, keeps]: "pool_inv ty pool_new"
  by (cases ty) (auto simp: pool_inv_def pool_new_def MIN_NET_ID_def)

lemma in_use_new [simp]: "in_use pool_new = {}"
  by (auto simp: in_use_def pool_new_def)

lemma pool_inv_free [simp, keeps]:
  assumes "pool_inv ty p" "net_id < next_fresh p"
  shows "pool_inv ty (free ty net_id p)"
  using assms by (auto simp: pool_inv_def free_def)

lemma pool_inv_allocate [keeps]:
  assumes "pool_inv ty p"
  shows "pool_inv ty (snd (allocate ty p))"
proof (cases "freed p")
  case Nil
  then show ?thesis
    using assms max_step [of "next_fresh p" ty] max_succ [of "next_fresh p" ty]
    by (auto simp: pool_inv_def allocate_def)
next
  case (Cons ni rest)
  then show ?thesis using assms by (auto simp: pool_inv_def allocate_def)
qed

lemma in_use_range:
  assumes "pool_inv ty p" "net_id \<in> in_use p"
  shows "MIN_NET_ID \<le> net_id \<and> net_id \<le> MAX_NET_ID ty"
  using assms max_le_iff [of net_id ty] by (auto simp: pool_inv_def in_use_def)

lemma allocate_in_use:
  assumes "pool_inv ty p" "allocate ty p = (Some net_id, p')"
  shows "net_id \<notin> in_use p \<and> in_use p' = insert net_id (in_use p) \<and> MIN_NET_ID \<le> net_id \<and> net_id \<le> MAX_NET_ID ty"
proof (cases "freed p")
  case Nil
  then have ni: "net_id = next_fresh p" "p' = p\<lparr>next_fresh := next_fresh p + 1\<rparr>" "next_fresh p \<le> MAX_NET_ID ty"
    using assms(2) by (auto simp: allocate_def split: if_splits)
  have "in_use p' = insert net_id (in_use p)"
    using assms(1) succ_less_iff [OF ni(3)] by (auto simp: in_use_def ni Nil pool_inv_def)
  then show ?thesis using assms(1) ni by (auto simp: in_use_def pool_inv_def)
next
  case (Cons x rest)
  then have ni: "x = net_id" "p' = p\<lparr>freed := rest, freed_set := freed_set p - {net_id}\<rparr>"
    using assms(2) by (auto simp: allocate_def)
  have "distinct (net_id # rest)" "\<forall>i \<in> set (net_id # rest). MIN_NET_ID \<le> i \<and> i < next_fresh p"
    using assms(1) Cons ni by (auto simp: pool_inv_def)
  moreover have "net_id \<le> MAX_NET_ID ty"
    using assms(1) Cons ni max_le_iff [of net_id ty] by (auto simp: pool_inv_def)
  ultimately show ?thesis using Cons ni by (auto simp: in_use_def)
qed

lemma free_in_use:
  assumes "pool_inv ty p" "net_id < next_fresh p"
  shows "in_use (free ty net_id p) = in_use p - {net_id}"
  using assms max_le_iff [of net_id ty] by (auto simp: in_use_def free_def pool_inv_def)

lemma allocate_None:
  assumes "pool_inv ty p" "allocate ty p = (None, p')"
  shows "p' = p \<and> in_use p = {net_id. MIN_NET_ID \<le> net_id \<and> net_id \<le> MAX_NET_ID ty}"
proof -
  from assms have e: "freed p = []" "\<not> next_fresh p \<le> MAX_NET_ID ty" "p' = p"
    by (auto simp: allocate_def split: list.splits if_splits)
  then have "next_fresh p = MAX_NET_ID ty + 1"
    using assms(1) max_le_iff [of "next_fresh p" ty] by (auto simp: pool_inv_def)
  then show ?thesis using e by (auto simp: in_use_def max_le_iff)
qed

section \<open>The allocator contract\<close>

text \<open>
  A client of an allocator sees the set of the identifiers it holds: an allocation adds one
  that was not held, a release takes one away.  The lifecycle lemmas hold for every such
  allocator.
\<close>

locale id_allocator =
  fixes inv :: "'p \<Rightarrow> bool"
    and held :: "'p \<Rightarrow> 'i set"
    and alloc :: "'p \<Rightarrow> 'i option \<times> 'p"
    and release :: "'i \<Rightarrow> 'p \<Rightarrow> 'p"
  assumes inv_alloc: "inv p \<Longrightarrow> inv (snd (alloc p))"
    and inv_release: "inv p \<Longrightarrow> i \<in> held p \<Longrightarrow> inv (release i p)"
    and alloc_Some: "inv p \<Longrightarrow> alloc p = (Some i, p') \<Longrightarrow> i \<notin> held p \<and> held p' = insert i (held p)"
    and alloc_None: "inv p \<Longrightarrow> alloc p = (None, p') \<Longrightarrow> held p' = held p"
    and held_release: "inv p \<Longrightarrow> i \<in> held p \<Longrightarrow> held (release i p) = held p - {i}"
begin

fun alloc_n :: "nat \<Rightarrow> 'p \<Rightarrow> 'i list \<times> 'p" where
  "alloc_n 0 p = ([], p)"
| "alloc_n (Suc n) p = (case alloc p of
     (None, p') \<Rightarrow> ([], p')
   | (Some i, p') \<Rightarrow> (let (is, q) = alloc_n n p' in (i # is, q)))"

lemma alloc_n_fresh:
  "inv p \<Longrightarrow> alloc_n n p = (is, q) \<Longrightarrow> inv q \<and> distinct is \<and> set is \<inter> held p = {} \<and> held q = held p \<union> set is"
proof (induction n p arbitrary: "is" q rule: alloc_n.induct)
  case (2 n p)
  obtain r p' where r: "alloc p = (r, p')" by force
  have inv': "inv p'" using inv_alloc [OF 2(2)] r by simp
  show ?case
  proof (cases r)
    case None
    then show ?thesis using 2(3) r inv' alloc_None [OF 2(2), of p'] by simp
  next
    case (Some i)
    obtain js q' where js: "alloc_n n p' = (js, q')" by force
    have "inv q' \<and> distinct js \<and> set js \<inter> held p' = {} \<and> held q' = held p' \<union> set js"
      using 2(1) [OF r [symmetric] Some inv' js] .
    moreover have "i \<notin> held p" "held p' = insert i (held p)"
      using alloc_Some [OF 2(2)] r Some by simp_all
    moreover have "is = i # js" "q = q'" using 2(3) r Some js by simp_all
    ultimately show ?thesis by auto
  qed
qed simp

end

interpretation netpool: id_allocator "pool_inv ty" in_use "allocate ty" "free ty" for ty
proof unfold_locales
  fix p i p'
  assume inv: "pool_inv ty p"
  show "pool_inv ty (snd (allocate ty p))" by (rule pool_inv_allocate [OF inv])
  show "allocate ty p = (Some i, p') \<Longrightarrow> i \<notin> in_use p \<and> in_use p' = insert i (in_use p)"
    using allocate_in_use [OF inv] by blast
  show "allocate ty p = (None, p') \<Longrightarrow> in_use p' = in_use p"
    using allocate_None [OF inv] by blast
  assume i: "i \<in> in_use p"
  then have "i < next_fresh p" by (simp add: in_use_def)
  then show "pool_inv ty (free ty i p)" "in_use (free ty i p) = in_use p - {i}"
    using inv by (simp_all add: free_in_use)
qed

section \<open>Sequences of pool operations\<close>

text \<open>
  The pool together with the identifiers its clients hold.  A client frees an identifier it
  holds, or one that is already queued; the second is a double free.
\<close>

datatype pool_op = OpAllocate | OpFree u32

fun pool_step :: "net \<Rightarrow> pool_op \<Rightarrow> net_id_pool \<times> u32 list \<Rightarrow> net_id_pool \<times> u32 list" where
  "pool_step ty OpAllocate (p, held) = (case allocate ty p of
     (None, p') \<Rightarrow> (p', held)
   | (Some i, p') \<Rightarrow> (p', held @ [i]))"
| "pool_step ty (OpFree i) (p, held) = (free ty i p, removeAll i held)"

fun disciplined :: "net \<Rightarrow> pool_op list \<Rightarrow> net_id_pool \<times> u32 list \<Rightarrow> bool" where
  "disciplined ty [] s = True"
| "disciplined ty (OpAllocate # ops) s = disciplined ty ops (pool_step ty OpAllocate s)"
| "disciplined ty (OpFree i # ops) s =
     ((i \<in> set (snd s) \<or> i \<in> set (freed (fst s))) \<and> disciplined ty ops (pool_step ty (OpFree i) s))"

definition run_pool :: "net \<Rightarrow> pool_op list \<Rightarrow> net_id_pool \<times> u32 list \<Rightarrow> net_id_pool \<times> u32 list" where
  "run_pool ty ops s = fold (pool_step ty) ops s"

definition held_inv :: "net \<Rightarrow> net_id_pool \<times> u32 list \<Rightarrow> bool" where
  "held_inv ty s \<longleftrightarrow> pool_inv ty (fst s) \<and> distinct (snd s) \<and> set (snd s) = in_use (fst s)"

lemma held_inv_allocate: "held_inv ty s \<Longrightarrow> held_inv ty (pool_step ty OpAllocate s)"
proof -
  assume h: "held_inv ty s"
  obtain p held where s: "s = (p, held)" by force
  obtain r p' where a: "allocate ty p = (r, p')" by force
  have "pool_inv ty p'" using pool_inv_allocate [of ty p] h s a by (simp add: held_inv_def)
  then show ?thesis using h s a allocate_in_use [of ty p] allocate_None [of ty p p']
    by (cases r) (auto simp: held_inv_def)
qed

lemma held_inv_free:
  "held_inv ty s \<Longrightarrow> i \<in> set (snd s) \<or> i \<in> set (freed (fst s)) \<Longrightarrow> held_inv ty (pool_step ty (OpFree i) s)"
proof -
  assume h: "held_inv ty s" and i: "i \<in> set (snd s) \<or> i \<in> set (freed (fst s))"
  obtain p held where s: "s = (p, held)" by force
  then have inv: "pool_inv ty p" "i < next_fresh p"
    using h i by (auto simp: held_inv_def in_use_def pool_inv_def)
  then show ?thesis using h s free_in_use [OF inv] by (auto simp: held_inv_def distinct_removeAll)
qed

lemma held_inv_run: "held_inv ty s \<Longrightarrow> disciplined ty ops s \<Longrightarrow> held_inv ty (run_pool ty ops s)"
  by (induction ty ops s rule: disciplined.induct)
    (auto simp: run_pool_def held_inv_allocate held_inv_free)

text \<open>\<^bold>\<open>C11.\<close> However allocations, frees and double frees are interleaved, the identifiers held are
  always pairwise different, within the bounds of the network type, and none of them is
  queued for reuse.\<close>

theorem pool_exclusive:
  assumes "disciplined ty ops (pool_new, [])" "run_pool ty ops (pool_new, []) = (p, held)"
  shows "distinct held \<and> set held \<inter> set (freed p) = {} \<and>
    (\<forall>i \<in> set held. MIN_NET_ID \<le> i \<and> i \<le> MAX_NET_ID ty)"
proof -
  have "held_inv ty (p, held)" using held_inv_run [OF _ assms(1)] assms(2) by (simp add: held_inv_def)
  then show ?thesis using in_use_range [of ty p] by (auto simp: held_inv_def in_use_def)
qed

theorem pool_exclusive_witness:
  "snd (run_pool Vlan [OpAllocate, OpAllocate, OpFree 101, OpFree 101, OpAllocate, OpAllocate] (pool_new, [])) = [102, 101, 103] \<and>
   distinct (snd (run_pool Vlan [OpAllocate, OpAllocate, OpFree 101, OpFree 101, OpAllocate, OpAllocate] (pool_new, [])))"
  using pool_exclusive [of Vlan "[OpAllocate, OpAllocate, OpFree 101, OpFree 101, OpAllocate, OpAllocate]"
    "fst (run_pool Vlan [OpAllocate, OpAllocate, OpFree 101, OpFree 101, OpAllocate, OpAllocate] (pool_new, []))"
    "snd (run_pool Vlan [OpAllocate, OpAllocate, OpFree 101, OpFree 101, OpAllocate, OpAllocate] (pool_new, []))"]
  by (simp add: run_pool_def pool_new_def allocate_def free_def MIN_NET_ID_def)

text \<open>Freed identifiers come back strictly oldest first: with a queue of freed identifiers,
  that many allocations return exactly the queue, in its order, before any fresh identifier, so
  an identifier freed now is reused only after everything freed before it.\<close>

theorem pool_fifo:
  "run_pool ty (replicate (length (freed p)) OpAllocate) (p, held) =
     (p\<lparr>freed := [], freed_set := freed_set p - set (freed p)\<rparr>, held @ freed p)"
proof (induction "freed p" arbitrary: p held)
  case Nil
  then show ?case by (cases p) (simp add: run_pool_def)
next
  case (Cons i rest)
  let ?p = "p\<lparr>freed := rest, freed_set := freed_set p - {i}\<rparr>"
  have f: "freed p = i # rest" using Cons(2) by simp
  then have "pool_step ty OpAllocate (p, held) = (?p, held @ [i])" by (simp add: allocate_def)
  then have "run_pool ty (replicate (length (freed p)) OpAllocate) (p, held)
      = run_pool ty (replicate (length (freed ?p)) OpAllocate) (?p, held @ [i])"
    by (simp add: run_pool_def f)
  also have "\<dots> = (?p\<lparr>freed := [], freed_set := freed_set ?p - set (freed ?p)\<rparr>, (held @ [i]) @ freed ?p)"
    by (rule Cons(1)) simp
  also have "freed_set ?p - set (freed ?p) = freed_set p - set (freed p)" by (auto simp: f)
  finally show ?case by (simp add: f)
qed

text \<open>The pool refuses an allocation exactly when every identifier of the network type's
  range is in use, and then it is unchanged.\<close>

theorem pool_exhausted_iff:
  assumes "pool_inv ty p"
  shows "(fst (allocate ty p) = None \<longleftrightarrow> in_use p = {i. MIN_NET_ID \<le> i \<and> i \<le> MAX_NET_ID ty}) \<and>
    (fst (allocate ty p) = None \<longrightarrow> snd (allocate ty p) = p)"
proof -
  obtain r p' where a: "allocate ty p = (r, p')" by force
  show ?thesis
  proof (cases r)
    case None
    then show ?thesis using a allocate_None [OF assms] by simp
  next
    case (Some i)
    then show ?thesis using a allocate_in_use [OF assms, of i p'] by auto
  qed
qed

theorem pool_exhausted_iff_witness:
  "pool_inv Vlan \<lparr>next_fresh = 4095, freed = [], freed_set = {}\<rparr> \<and>
   in_use \<lparr>next_fresh = 4095, freed = [], freed_set = {}\<rparr> = {i. MIN_NET_ID \<le> i \<and> i \<le> MAX_NET_ID Vlan}"
proof -
  have inv: "pool_inv Vlan \<lparr>next_fresh = 4095, freed = [], freed_set = {}\<rparr>"
    by (simp add: pool_inv_def MIN_NET_ID_def)
  moreover have "fst (allocate Vlan \<lparr>next_fresh = 4095, freed = [], freed_set = {}\<rparr>) = None"
    by (simp add: allocate_def)
  ultimately show ?thesis using pool_exhausted_iff [OF inv] by blast
qed

end
