(* ===== verification/Net_Messages.thy ===== *)
theory Net_Messages
  imports Net_Id_Pool
begin

text \<open>
  The control messages and the addressing of a tunnel (nullnet-server, \<^verbatim>\<open>net.rs\<close>; message
  shapes from \<^verbatim>\<open>nullnet_grpc.proto\<close>).  Every network identifier owns one block of 10.0.0.0/8: a
  /30 for a VLAN, a /29 for a VXLAN.  A field the code fills with \<^verbatim>\<open>x.to_string()\<close> holds the
  address \<^verbatim>\<open>x\<close> itself; the interface names, which are built from the identifier, are strings.
\<close>

section \<open>Messages\<close>

type_synonym msg_id = nat
type_synonym key = "u8 list"

record host_mapping =
  hm_ip :: u32
  hm_name :: string

record group_transport =
  gt_id :: u32
  gt_encryption_key :: key
  gt_peer_container :: bool
  gt_generation :: u64
  gt_carrier_id :: u64

record vlan_setup_msg =
  vs_msg_id :: msg_id
  vs_vlan_id :: u32
  vs_local_veth :: u32
  vs_remote_veth :: u32
  vs_local_ip :: ip_addr
  vs_remote_ip :: ip_addr
  vs_host_mapping :: "host_mapping option"
  vs_encryption_key :: key
  vs_encrypted :: bool

record vxlan_setup_msg =
  xs_msg_id :: msg_id
  xs_vxlan_id :: u32
  xs_ns_name :: string
  xs_ns_net :: "u32 \<times> nat"
  xs_br_name :: string
  xs_br_net :: "u32 \<times> nat"
  xs_local_ip :: ip_addr
  xs_remote_ip :: ip_addr
  xs_host_mapping :: "host_mapping option"
  xs_docker_container :: "string option"
  xs_dnat_port :: "u32 option"
  xs_encryption_key :: key
  xs_dstport :: u32
  xs_egress_steer :: "bool option"
  xs_egress_intercept :: "bool option"
  xs_encrypted :: bool
  xs_group_transport :: "group_transport option"
  xs_xfrm_transport_id :: "u32 option"

record vxlan_teardown_msg =
  xt_vxlan_id :: u32
  xt_ns_name :: string
  xt_br_name :: string
  xt_docker_container :: "string option"
  xt_local_ip :: ip_addr
  xt_remote_ip :: ip_addr
  xt_dstport :: u32
  xt_msg_id :: msg_id
  xt_group :: bool

datatype net_message =
    VlanSetup vlan_setup_msg
  | VlanTeardown u32 msg_id
  | VxlanSetup vxlan_setup_msg
  | VxlanTeardown vxlan_teardown_msg
  | ContainerSuspend string
  | ContainerResume msg_id string
  | EgressPolicyChanged
  | NetReady msg_id u32
  | PolicyHeartbeat "u8 list"

datatype egress_role = RoleNone | Steer | Intercept

section \<open>Addresses of a network identifier\<close>

text \<open>\<^verbatim>\<open>u32::to_be_bytes\<close> and \<^verbatim>\<open>Ipv4Addr::new\<close>.\<close>

definition to_be_bytes :: "u32 \<Rightarrow> u8 \<times> u8 \<times> u8 \<times> u8" where
  "to_be_bytes w = (ucast (drop_bit 24 w), ucast (drop_bit 16 w), ucast (drop_bit 8 w), ucast w)"

definition ipv4_new :: "u8 \<Rightarrow> u8 \<Rightarrow> u8 \<Rightarrow> u8 \<Rightarrow> u32" where
  "ipv4_new a b c d = ucast a * 2 ^ 24 + ucast b * 2 ^ 16 + ucast c * 2 ^ 8 + ucast d"

definition vlan_addrs :: "u32 \<Rightarrow> u32 \<times> u32" where
  "vlan_addrs vlan_id = (let offset = vlan_id * 4; (_, a, b, c) = to_be_bytes offset
     in (ipv4_new 10 a b (c + 1), ipv4_new 10 a b (c + 2)))"

definition vxlan_addr :: "u32 \<Rightarrow> u8 \<Rightarrow> u32" where
  "vxlan_addr vxlan_id k = (let offset = vxlan_id * 8; (_, a, b, c) = to_be_bytes offset
     in ipv4_new 10 a b (c + k))"

definition ns_name :: "u32 \<Rightarrow> string \<Rightarrow> string" where
  "ns_name net_id side = ''ns_'' @ string_of_nat (unat net_id) @ ''_'' @ side"

definition br_name :: "u32 \<Rightarrow> string \<Rightarrow> string" where
  "br_name net_id side = ''br_'' @ string_of_nat (unat net_id) @ ''_'' @ side"

section \<open>Setup and teardown messages\<close>

definition vlan_setup ::
  "msg_id \<Rightarrow> ip_addr \<Rightarrow> string option \<Rightarrow> u32 \<Rightarrow> ip_addr \<Rightarrow> key \<Rightarrow> bool \<Rightarrow> (u32 \<times> net_message) option" where
  "vlan_setup mid dest remote_server_name vlan_id remote encryption_key encrypted =
     (let (server_veth, client_veth) = vlan_addrs vlan_id;
          (local_veth, remote_veth) =
            (if remote_server_name \<noteq> None then (client_veth, server_veth) else (server_veth, client_veth));
          mapping = map_option (\<lambda>name. \<lparr>hm_ip = server_veth, hm_name = name\<rparr>) remote_server_name
      in Some (local_veth, VlanSetup \<lparr>vs_msg_id = mid, vs_vlan_id = vlan_id,
           vs_local_veth = local_veth, vs_remote_veth = remote_veth,
           vs_local_ip = dest, vs_remote_ip = remote, vs_host_mapping = mapping,
           vs_encryption_key = encryption_key, vs_encrypted = encrypted\<rparr>))"

text \<open>\<^verbatim>\<open>Ipv4Network::new(_, 29)\<close> fails only on a prefix longer than 32, so its error branch is
  unreachable and the function always returns a message.\<close>

definition vxlan_setup ::
  "msg_id \<Rightarrow> ip_addr \<Rightarrow> string option \<Rightarrow> u32 \<Rightarrow> ip_addr \<Rightarrow> string option \<times> string option \<Rightarrow> u32 option
   \<Rightarrow> key \<Rightarrow> u32 option \<Rightarrow> u32 \<Rightarrow> bool \<Rightarrow> egress_role \<Rightarrow> group_transport option
   \<Rightarrow> (u32 \<times> net_message) option" where
  "vxlan_setup mid dest remote_server_name vxlan_id remote docker_containers dnat_port
     encryption_key xfrm_transport_id dstport encrypted egress grp =
     (let (client_docker, server_docker) = docker_containers;
          ns_net_server = vxlan_addr vxlan_id 1; br_net_server = vxlan_addr vxlan_id 2;
          (ns_net, br_net, docker_container, side) =
            (if remote_server_name \<noteq> None
             then (vxlan_addr vxlan_id 3, vxlan_addr vxlan_id 4, client_docker, ''c'')
             else (ns_net_server, br_net_server, server_docker, ''s''));
          server_net_ip = (if server_docker \<noteq> None then ns_net_server else br_net_server);
          local_net_ip = (if docker_container \<noteq> None then ns_net else br_net);
          mapping = map_option (\<lambda>name. \<lparr>hm_ip = server_net_ip, hm_name = name\<rparr>) remote_server_name;
          (egress_steer, egress_intercept) =
            (case egress of RoleNone \<Rightarrow> (None, None) | Steer \<Rightarrow> (Some True, None) | Intercept \<Rightarrow> (None, Some True))
      in Some (local_net_ip, VxlanSetup \<lparr>xs_msg_id = mid, xs_vxlan_id = vxlan_id,
           xs_ns_name = ns_name vxlan_id side, xs_ns_net = (ns_net, 29),
           xs_br_name = br_name vxlan_id side, xs_br_net = (br_net, 29),
           xs_local_ip = dest, xs_remote_ip = remote, xs_host_mapping = mapping,
           xs_docker_container = docker_container, xs_dnat_port = dnat_port,
           xs_encryption_key = encryption_key, xs_dstport = dstport,
           xs_egress_steer = egress_steer, xs_egress_intercept = egress_intercept,
           xs_encrypted = encrypted, xs_group_transport = grp,
           xs_xfrm_transport_id = xfrm_transport_id\<rparr>))"

definition setup_message ::
  "net \<Rightarrow> msg_id \<Rightarrow> ip_addr \<Rightarrow> string option \<Rightarrow> u32 \<Rightarrow> ip_addr \<Rightarrow> string option \<times> string option
   \<Rightarrow> u32 option \<Rightarrow> key \<Rightarrow> u32 option \<Rightarrow> u32 option \<Rightarrow> bool \<Rightarrow> egress_role \<Rightarrow> group_transport option
   \<Rightarrow> (u32 \<times> net_message) option" where
  "setup_message ty mid dest remote_server_name net_id remote docker_containers dnat_port
     encryption_key xfrm_transport_id dstport encrypted egress grp =
     (case ty of
        Vlan \<Rightarrow> vlan_setup mid dest remote_server_name net_id remote encryption_key encrypted
      | Vxlan \<Rightarrow> vxlan_setup mid dest remote_server_name net_id remote docker_containers dnat_port
          encryption_key xfrm_transport_id
          (case dstport of Some p \<Rightarrow> p | None \<Rightarrow> ucast DEFAULT_VXLAN_DSTPORT) encrypted egress grp)"

definition teardown_message ::
  "net \<Rightarrow> u32 \<Rightarrow> string \<Rightarrow> string option \<Rightarrow> ip_addr \<Rightarrow> ip_addr \<Rightarrow> u16 option \<Rightarrow> msg_id \<Rightarrow> bool \<Rightarrow> net_message" where
  "teardown_message ty net_id side docker_container local_ip remote_ip dstport mid grp =
     (case ty of
        Vlan \<Rightarrow> VlanTeardown net_id mid
      | Vxlan \<Rightarrow> VxlanTeardown \<lparr>xt_vxlan_id = net_id, xt_ns_name = ns_name net_id side,
          xt_br_name = br_name net_id side, xt_docker_container = docker_container,
          xt_local_ip = local_ip, xt_remote_ip = remote_ip,
          xt_dstport = ucast (case dstport of Some p \<Rightarrow> p | None \<Rightarrow> DEFAULT_VXLAN_DSTPORT),
          xt_msg_id = mid, xt_group = grp\<rparr>)"

section \<open>Addresses as numbers\<close>

text \<open>
  Read as a number, an address of the block of \<^verbatim>\<open>net_id\<close> is \<^verbatim>\<open>10.0.0.0 + net_id * size + k\<close>: the
  byte arithmetic of the code neither carries nor wraps for an identifier the pool hands out.
\<close>

lemma unat_u8_less: "unat (x :: u8) < 256"
  using unsigned_less [of x, where ?'a = nat] by simp

lemma unat_ucast_u8_u32: "unat (ucast (x :: u8) :: u32) = unat x"
  using unat_u8_less [of x] by (simp add: unsigned_ucast_eq take_bit_eq_mod)

lemma unat_ipv4_new:
  "unat (ipv4_new a b c d) = unat a * 2 ^ 24 + unat b * 2 ^ 16 + unat c * 2 ^ 8 + unat d"
  using unat_u8_less [of a] unat_u8_less [of b] unat_u8_less [of c] unat_u8_less [of d]
  by (simp add: ipv4_new_def unat_word_ariths unat_ucast_u8_u32)

lemma unat_be_bytes:
  assumes "to_be_bytes w = (z, a, b, c)"
  shows "unat a = unat w div 2 ^ 16 mod 256" "unat b = unat w div 2 ^ 8 mod 256" "unat c = unat w mod 256"
  using assms by (auto simp: to_be_bytes_def unsigned_ucast_eq unsigned_drop_bit_eq drop_bit_eq_div take_bit_eq_mod unat_div)

lemma bytes_sum: "(n div 65536) * 65536 + (n div 256 mod 256) * 256 + n mod 256 = (n :: nat)"
proof -
  have "n div 65536 = n div 256 div 256" using div_mult2_eq [of n 256 256] by simp
  then show ?thesis
    using div_mult_mod_eq [of "n div 256" 256] div_mult_mod_eq [of n 256] by linarith
qed

lemma unat_net_block:
  fixes net_id :: u32 and sz :: nat and k :: u8
  assumes "unat net_id * sz < 2 ^ 24" "sz dvd 256" "unat k < sz"
    and "to_be_bytes (net_id * of_nat sz) = (z, a, b, c)"
  shows "unat (ipv4_new 10 a b (c + k)) = 10 * 2 ^ 24 + unat net_id * sz + unat k"
    and "unat (c + k) = unat c + unat k"
proof -
  let ?n = "unat net_id * sz"
  have "sz \<le> 256" using assms(2) by (auto dest: dvd_imp_le)
  then have n: "unat (net_id * of_nat sz) = ?n"
    using assms(1) by (simp add: unat_word_ariths unat_of_nat)
  note be = unat_be_bytes [OF assms(4)]
  have "sz dvd ?n mod 256" using assms(2) by (simp add: dvd_mod)
  then obtain q r where qr: "?n mod 256 = sz * q" "256 = sz * r"
    using assms(2) by (meson dvdE)
  moreover have "sz * q < sz * r" using mod_less_divisor [of 256 ?n] by (simp only: qr [symmetric])
  ultimately have le: "?n mod 256 + sz \<le> 256"
    by (metis Suc_leI mult_Suc_right mult_le_mono2 nat_mult_less_cancel_disj add.commute)
  show "unat (c + k) = unat c + unat k" using le assms(3) be(3) n by (simp add: unat_word_ariths)
  then have "unat (ipv4_new 10 a b (c + k)) = 10 * 2 ^ 24 + (?n div 2 ^ 16 mod 256) * 2 ^ 16 + (?n div 2 ^ 8 mod 256) * 2 ^ 8 + (?n mod 256 + unat k)"
    using be n by (simp add: unat_ipv4_new)
  also have "?n div 2 ^ 16 mod 256 = ?n div 2 ^ 16" using assms(1) by simp
  also have "10 * 2 ^ 24 + (?n div 2 ^ 16) * 2 ^ 16 + (?n div 2 ^ 8 mod 256) * 2 ^ 8 + (?n mod 256 + unat k)
      = 10 * 2 ^ 24 + ?n + unat k"
    using bytes_sum [of ?n] by simp
  finally show "unat (ipv4_new 10 a b (c + k)) = 10 * 2 ^ 24 + unat net_id * sz + unat k" .
qed

lemma unat_vxlan_addr:
  assumes "net_id \<le> MAX_NET_ID Vxlan" "unat k < 8"
  shows "unat (vxlan_addr net_id k) = 10 * 2 ^ 24 + unat net_id * 8 + unat k"
proof -
  obtain z a b c where be: "to_be_bytes (net_id * of_nat 8) = (z, a, b, c)" by (metis prod_cases4)
  have "unat net_id * 8 < 2 ^ 24" using assms(1) by (simp add: word_le_nat_alt)
  from unat_net_block(1) [OF this _ _ be, of k] assms(2) be show ?thesis
    by (simp add: vxlan_addr_def)
qed

lemma unat_vlan_addrs:
  assumes "net_id \<le> MAX_NET_ID Vlan"
  shows "unat (fst (vlan_addrs net_id)) = 10 * 2 ^ 24 + unat net_id * 4 + 1"
    and "unat (snd (vlan_addrs net_id)) = 10 * 2 ^ 24 + unat net_id * 4 + 2"
proof -
  obtain z a b c where be: "to_be_bytes (net_id * of_nat 4) = (z, a, b, c)" by (metis prod_cases4)
  have "unat net_id * 4 < 2 ^ 24" using assms by (simp add: word_le_nat_alt)
  from unat_net_block(1) [OF this _ _ be, of 1] unat_net_block(1) [OF this _ _ be, of 2] be
  show "unat (fst (vlan_addrs net_id)) = 10 * 2 ^ 24 + unat net_id * 4 + 1"
    and "unat (snd (vlan_addrs net_id)) = 10 * 2 ^ 24 + unat net_id * 4 + 2"
    by (simp_all add: vlan_addrs_def)
qed

text \<open>The size of the block an identifier owns, and the address its owner reports.\<close>

fun block_size :: "net \<Rightarrow> nat" where
  "block_size Vlan = 4"
| "block_size Vxlan = 8"

definition in_block :: "net \<Rightarrow> u32 \<Rightarrow> u32 \<Rightarrow> bool" where
  "in_block ty net_id addr \<longleftrightarrow>
     10 * 2 ^ 24 + unat net_id * block_size ty < unat addr \<and>
     unat addr < 10 * 2 ^ 24 + (unat net_id + 1) * block_size ty - 1"

lemma in_block_unique: "in_block ty i addr \<Longrightarrow> in_block ty j addr \<Longrightarrow> i = j"
proof -
  assume b: "in_block ty i addr" "in_block ty j addr"
  have div: "(unat addr - 10 * 2 ^ 24) div block_size ty = unat n" if "in_block ty n addr" for n
    using that by (cases ty) (auto simp: in_block_def)
  show ?thesis using div [OF b(1)] div [OF b(2)] by (simp add: word_unat_eq_iff)
qed

fun side_offset :: "net \<Rightarrow> bool \<Rightarrow> bool \<Rightarrow> nat" where
  "side_offset Vlan client docker = (if client then 2 else 1)"
| "side_offset Vxlan client docker = (if client then 2 else 0) + (if docker then 1 else 2)"

lemma side_offset_bounds: "0 < side_offset ty c d \<and> side_offset ty c d < block_size ty - 1"
  by (cases ty) auto

lemma side_offset_client: "side_offset ty c d = side_offset ty c' d' \<Longrightarrow> c = c'"
  by (cases ty) (auto split: if_splits)

lemma vxlan_setup_addr:
  "map_option fst (vxlan_setup mid dest rsn net_id remote (cd, sd) dnat ekey xid dport enc eg grp) =
     Some (if rsn = None then vxlan_addr net_id (if sd \<noteq> None then 1 else 2)
           else vxlan_addr net_id (if cd \<noteq> None then 3 else 4))"
  by (cases eg; cases rsn; cases cd; cases sd) (simp_all add: vxlan_setup_def Let_def)

lemma vlan_setup_addr:
  "map_option fst (vlan_setup mid dest rsn net_id remote ekey enc) =
     Some (if rsn = None then fst (vlan_addrs net_id) else snd (vlan_addrs net_id))"
  by (cases rsn; cases "vlan_addrs net_id") (simp_all add: vlan_setup_def)

lemma setup_addr_number:
  assumes "net_id \<le> MAX_NET_ID ty"
    and "setup_message ty mid dest rsn net_id remote (cd, sd) dnat ekey xid dport enc eg grp = Some (addr, m)"
  shows "unat addr = 10 * 2 ^ 24 + unat net_id * block_size ty
    + side_offset ty (rsn \<noteq> None) ((if rsn = None then sd else cd) \<noteq> None)"
proof (cases ty)
  case Vlan
  then have "Some addr = map_option fst (vlan_setup mid dest rsn net_id remote ekey enc)"
    using assms(2) by (simp add: setup_message_def)
  then show ?thesis using unat_vlan_addrs [of net_id] assms(1) Vlan by (simp add: vlan_setup_addr)
next
  case Vxlan
  have "Some addr = map_option fst (vxlan_setup mid dest rsn net_id remote (cd, sd) dnat ekey xid
     (case dport of Some p \<Rightarrow> p | None \<Rightarrow> ucast DEFAULT_VXLAN_DSTPORT) enc eg grp)"
    using assms(2) Vxlan by (simp add: setup_message_def)
  then show ?thesis using unat_vxlan_addr [of net_id] assms(1) Vxlan
    by (cases rsn; cases cd; cases sd) (simp_all add: vxlan_setup_addr)
qed

text \<open>\<^bold>\<open>C20.\<close> The tunnel address a setup message reports lies in the block of its own network
  identifier, so endpoints of different networks never share an address, and the two endpoints
  of one network have different ones.\<close>

theorem tunnel_addresses_disjoint:
  assumes "i \<le> MAX_NET_ID ty" "j \<le> MAX_NET_ID ty"
    and "setup_message ty mid1 dest1 rsn1 i remote1 (cd1, sd1) dnat1 key1 xid1 port1 enc1 eg1 g1 = Some (addr1, m1)"
    and "setup_message ty mid2 dest2 rsn2 j remote2 (cd2, sd2) dnat2 key2 xid2 port2 enc2 eg2 g2 = Some (addr2, m2)"
  shows "in_block ty i addr1 \<and> in_block ty j addr2 \<and>
    (addr1 = addr2 \<longrightarrow> i = j \<and> (rsn1 = None \<longleftrightarrow> rsn2 = None))"
proof -
  note n1 = setup_addr_number [OF assms(1,3)] and n2 = setup_addr_number [OF assms(2,4)]
  have b: "in_block ty i addr1" "in_block ty j addr2"
    unfolding in_block_def n1 n2
    using side_offset_bounds [of ty "rsn1 \<noteq> None"] side_offset_bounds [of ty "rsn2 \<noteq> None"]
    by (cases ty; simp)+
  have "i = j \<and> (rsn1 = None \<longleftrightarrow> rsn2 = None)" if "addr1 = addr2"
  proof -
    have ij: "i = j" using in_block_unique b that by blast
    then have "side_offset ty (rsn1 \<noteq> None) ((if rsn1 = None then sd1 else cd1) \<noteq> None)
        = side_offset ty (rsn2 \<noteq> None) ((if rsn2 = None then sd2 else cd2) \<noteq> None)"
      using n1 n2 that by simp
    then show ?thesis using ij side_offset_client by blast
  qed
  then show ?thesis using b by blast
qed

theorem tunnel_addresses_disjoint_witness:
  "\<exists>a1 a2 m1 m2.
     setup_message Vxlan 1 (V4 1) None 101 (V4 2) (None, None) None [] None None False RoleNone None = Some (a1, m1) \<and>
     setup_message Vxlan 2 (V4 2) (Some ''b'') 2097151 (V4 1) (None, None) None [] None None False RoleNone None = Some (a2, m2) \<and>
     in_block Vxlan 101 a1 \<and> in_block Vxlan 2097151 a2 \<and> a1 \<noteq> a2"
proof -
  obtain a1 m1 where 1: "setup_message Vxlan 1 (V4 1) None 101 (V4 2) (None, None) None [] None None False RoleNone None = Some (a1, m1)"
    by (simp add: setup_message_def vxlan_setup_def Let_def)
  obtain a2 m2 where 2: "setup_message Vxlan 2 (V4 2) (Some ''b'') 2097151 (V4 1) (None, None) None [] None None False RoleNone None = Some (a2, m2)"
    by (simp add: setup_message_def vxlan_setup_def Let_def)
  have "in_block Vxlan 101 a1 \<and> in_block Vxlan 2097151 a2 \<and> a1 \<noteq> a2"
    using tunnel_addresses_disjoint [OF _ _ 1 2] by simp
  then show ?thesis using 1 2 by blast
qed

section \<open>The two ends of a tunnel agree\<close>

definition host_mapping_of :: "net_message \<Rightarrow> host_mapping option" where
  "host_mapping_of m = (case m of VlanSetup v \<Rightarrow> vs_host_mapping v | VxlanSetup v \<Rightarrow> xs_host_mapping v | _ \<Rightarrow> None)"

fun endpoint_names :: "net_message \<Rightarrow> (u32 \<times> string \<times> string) option" where
  "endpoint_names (VxlanSetup m) = Some (xs_vxlan_id m, xs_ns_name m, xs_br_name m)"
| "endpoint_names (VxlanTeardown m) = Some (xt_vxlan_id m, xt_ns_name m, xt_br_name m)"
| "endpoint_names _ = None"

text \<open>The name a client end maps for the server resolves to the address the server end of
  the same tunnel reports, whichever of the two endpoints runs in a container; the server end
  maps no name.\<close>

theorem host_mapping_agrees:
  assumes "setup_message ty mid1 server None net_id client (cd, sd) dnat1 ekey xid dport enc eg1 g1 = Some (server_addr, ms)"
    and "setup_message ty mid2 client (Some name) net_id server (cd, sd) dnat2 ekey xid dport enc eg2 g2 = Some (client_addr, mc)"
  shows "host_mapping_of mc = Some \<lparr>hm_ip = server_addr, hm_name = name\<rparr> \<and> host_mapping_of ms = None"
proof (cases ty)
  case Vlan
  then show ?thesis using assms
    by (cases "vlan_addrs net_id") (auto simp: setup_message_def vlan_setup_def host_mapping_of_def)
next
  case Vxlan
  then show ?thesis using assms
    by (cases eg1; cases eg2; cases cd; cases sd)
      (auto simp: setup_message_def vxlan_setup_def host_mapping_of_def Let_def)
qed

theorem host_mapping_agrees_witness:
  "host_mapping_of (snd (the (setup_message Vlan 2 (V4 2) (Some ''db'') 101 (V4 1) (None, None) None [] None None False RoleNone None)))
     = Some \<lparr>hm_ip = fst (the (setup_message Vlan 1 (V4 1) None 101 (V4 2) (None, None) None [] None None False RoleNone None)), hm_name = ''db''\<rparr>"
proof -
  obtain sa ms where s: "setup_message Vlan 1 (V4 1) None 101 (V4 2) (None, None) None [] None None False RoleNone None = Some (sa, ms)"
    by (cases "vlan_addrs 101") (simp add: setup_message_def vlan_setup_def)
  obtain ca mc where c: "setup_message Vlan 2 (V4 2) (Some ''db'') 101 (V4 1) (None, None) None [] None None False RoleNone None = Some (ca, mc)"
    by (cases "vlan_addrs 101") (simp add: setup_message_def vlan_setup_def)
  show ?thesis using host_mapping_agrees [OF s c] s c by simp
qed

lemma side_name_inject:
  assumes "string_of_nat i @ ''_'' @ a = string_of_nat j @ ''_'' @ b"
  shows "i = j \<and> a = b"
proof -
  define d where "d = (\<lambda>c :: char. c \<noteq> CHR ''_'')"
  have no: "d c" if "c \<in> set (string_of_nat n)" for c n
    using string_of_nat_digits [OF that] by (auto simp: d_def)
  have tw: "takeWhile d (string_of_nat n @ ''_'' @ x) = string_of_nat n" for n x
    using no by (simp add: takeWhile_append2 d_def)
  have dw: "dropWhile d (string_of_nat n @ ''_'' @ x) = ''_'' @ x" for n x
    using no by (simp add: dropWhile_append2 d_def)
  have "string_of_nat i = string_of_nat j" by (metis tw assms)
  moreover have "''_'' @ a = ''_'' @ b" by (metis dw assms)
  ultimately show ?thesis by simp
qed

lemma ns_name_inject: "ns_name i a = ns_name j b \<longleftrightarrow> i = j \<and> a = b"
  using side_name_inject [of "unat i" a "unat j" b] by (auto simp: ns_name_def dest: word_unat_eq_iff [THEN iffD2])

lemma br_name_inject: "br_name i a = br_name j b \<longleftrightarrow> i = j \<and> a = b"
  using side_name_inject [of "unat i" a "unat j" b] by (auto simp: br_name_def dest: word_unat_eq_iff [THEN iffD2])

text \<open>A VXLAN teardown names exactly the namespace and the bridge that the setup of the
  same network and side created, and shares neither name with any other network or with the
  opposite side.\<close>

theorem teardown_names_setup:
  assumes "vxlan_setup mid dest rsn i remote dockers dnat ekey xid dport enc eg g = Some (addr, m)"
  shows "\<exists>ns br. endpoint_names m = Some (i, ns, br) \<and>
    (endpoint_names (teardown_message Vxlan j side dc lip rip port mid' grp) = Some (i, ns, br)
      \<longleftrightarrow> i = j \<and> side = (if rsn = None then ''s'' else ''c'')) \<and>
    (ns_name j side = ns \<longleftrightarrow> i = j \<and> side = (if rsn = None then ''s'' else ''c'')) \<and>
    (br_name j side = br \<longleftrightarrow> i = j \<and> side = (if rsn = None then ''s'' else ''c''))"
proof -
  have m: "endpoint_names m = Some (i, ns_name i (if rsn = None then ''s'' else ''c''),
      br_name i (if rsn = None then ''s'' else ''c''))"
    using assms by (cases dockers; cases eg; cases rsn) (auto simp: vxlan_setup_def Let_def)
  then show ?thesis by (auto simp: teardown_message_def ns_name_inject br_name_inject)
qed

theorem teardown_names_setup_witness:
  "\<exists>addr m. vxlan_setup 1 (V4 1) None 101 (V4 2) (None, None) None [] None 47890 False RoleNone None = Some (addr, m) \<and>
     endpoint_names (teardown_message Vxlan 101 ''s'' None (V4 1) (V4 2) None 7 False) = endpoint_names m \<and>
     endpoint_names (teardown_message Vxlan 102 ''s'' None (V4 1) (V4 2) None 7 False) \<noteq> endpoint_names m"
proof -
  obtain addr m where s: "vxlan_setup 1 (V4 1) None 101 (V4 2) (None, None) None [] None 47890 False RoleNone None = Some (addr, m)"
    by (simp add: vxlan_setup_def Let_def)
  show ?thesis using teardown_names_setup [OF s, of 101 "''s''"] teardown_names_setup [OF s, of 102] s by auto
qed

end
