(* ===== verification/Clients.thy ===== *)
theory Clients
  imports Net_Messages
begin

text \<open>
  The clients of one replica (nullnet-server, \<^verbatim>\<open>services/clients.rs\<close>): the entries of edges, live
  and reserved, and the index that counts for every proxy how many of its clients ride on a
  group carrier.  Instants are numbers; an \<^verbatim>\<open>Arc<Notify>\<close> is the identity of the waiters it
  wakes; the \<^verbatim>\<open>expect\<close> calls of the index are the \<^const>\<open>None\<close> branches.
\<close>

section \<open>Clients and their entries\<close>

type_synonym identity = "ip_addr \<times> string option"
type_synonym notify = nat
type_synonym instant = nat

record client =
  cl_name :: string
  cl_proxy :: "ip_addr option"
  cl_replica :: "identity option"

definition client_new :: "string \<Rightarrow> ip_addr option \<Rightarrow> client" where
  "client_new name proxy = \<lparr>cl_name = name, cl_proxy = proxy, cl_replica = None\<rparr>"

definition client_new_service :: "string \<Rightarrow> ip_addr \<Rightarrow> string option \<Rightarrow> client" where
  "client_new_service name ip docker = \<lparr>cl_name = name, cl_proxy = None, cl_replica = Some (ip, docker)\<rparr>"

record client_info =
  ci_client_ip :: ip_addr
  ci_client_net :: u32
  ci_server_net :: u32
  ci_net_id :: u32
  ci_pool_generation :: u64
  ci_time_ms :: nat
  ci_active_chains :: nat
  ci_open_connections :: nat
  ci_latest :: instant
  ci_created_at :: instant
  ci_docker_container :: "string option"
  ci_policy :: bool
  ci_group_carrier :: "u64 option"
  ci_pending :: "notify option"

text \<open>\<^verbatim>\<open>ClientInfo::with_pool_generation\<close>, which \<^verbatim>\<open>new\<close> calls with a random generation and
  \<^verbatim>\<open>sharing_network\<close> with the one of the network it joins.\<close>

definition with_pool_generation ::
  "instant \<Rightarrow> ip_addr \<Rightarrow> u32 \<Rightarrow> u32 \<Rightarrow> u32 \<Rightarrow> nat \<Rightarrow> string option \<Rightarrow> u64 \<Rightarrow> client_info" where
  "with_pool_generation now client_ip client_net server_net net_id time_ms docker generation =
     \<lparr>ci_client_ip = client_ip, ci_client_net = client_net, ci_server_net = server_net,
      ci_net_id = net_id, ci_pool_generation = generation, ci_time_ms = time_ms,
      ci_active_chains = 0, ci_open_connections = 0, ci_latest = now, ci_created_at = now,
      ci_docker_container = docker, ci_policy = False, ci_group_carrier = None, ci_pending = None\<rparr>"

definition reservation :: "instant \<Rightarrow> notify \<Rightarrow> ip_addr \<Rightarrow> bool \<Rightarrow> client_info" where
  "reservation now token client_ip policy =
     \<lparr>ci_client_ip = client_ip, ci_client_net = 0, ci_server_net = 0,
      ci_net_id = 0, ci_pool_generation = 0, ci_time_ms = 0,
      ci_active_chains = 1, ci_open_connections = 0, ci_latest = now, ci_created_at = now,
      ci_docker_container = None, ci_policy = policy, ci_group_carrier = None, ci_pending = Some token\<rparr>"

definition is_pending :: "client_info \<Rightarrow> bool" where
  "is_pending ci \<longleftrightarrow> ci_pending ci \<noteq> None"

definition set_policy :: "client_info \<Rightarrow> client_info" where
  "set_policy ci = ci\<lparr>ci_policy := True\<rparr>"

definition set_group_carrier :: "u64 \<Rightarrow> client_info \<Rightarrow> client_info" where
  "set_group_carrier carrier ci = ci\<lparr>ci_group_carrier := Some carrier\<rparr>"

definition ci_set_latest_now :: "instant \<Rightarrow> client_info \<Rightarrow> client_info" where
  "ci_set_latest_now now ci = ci\<lparr>ci_latest := now\<rparr>"

definition add_active_chain :: "instant \<Rightarrow> client_info \<Rightarrow> client_info" where
  "add_active_chain now ci = ci_set_latest_now now (ci\<lparr>ci_active_chains := ci_active_chains ci + 1\<rparr>)"

definition remove_active_chains :: "nat \<Rightarrow> client_info \<Rightarrow> client_info" where
  "remove_active_chains n ci = ci\<lparr>ci_active_chains := ci_active_chains ci - n\<rparr>"

definition ci_open_connection :: "instant \<Rightarrow> client_info \<Rightarrow> client_info" where
  "ci_open_connection now ci = ci_set_latest_now now (ci\<lparr>ci_open_connections := ci_open_connections ci + 1\<rparr>)"

definition ci_close_connection :: "instant \<Rightarrow> client_info \<Rightarrow> client_info" where
  "ci_close_connection now ci = ci_set_latest_now now (ci\<lparr>ci_open_connections := ci_open_connections ci - 1\<rparr>)"

definition idle_expired :: "instant \<Rightarrow> nat \<Rightarrow> client_info \<Rightarrow> bool" where
  "idle_expired now timeout ci \<longleftrightarrow>
     \<not> is_pending ci \<and> ci_open_connections ci = 0 \<and> timeout \<le> now - ci_latest ci"

section \<open>The carrier index\<close>

type_synonym carrier_index = "(ip_addr, (u64, nat) hmap) hmap"

text \<open>The two \<^verbatim>\<open>entry(..).or_default()\<close> of \<^verbatim>\<open>add_client\<close>.\<close>

definition add_group_carrier :: "ip_addr \<times> u64 \<Rightarrow> carrier_index \<Rightarrow> carrier_index" where
  "add_group_carrier pc g = (let (proxy, carrier) = pc;
       carriers = (case hm_get g proxy of Some m \<Rightarrow> m | None \<Rightarrow> []);
       users = (case hm_get carriers carrier of Some n \<Rightarrow> n | None \<Rightarrow> 0)
     in hm_insert proxy (hm_insert carrier (users + 1) carriers) g)"

definition remove_group_carrier :: "ip_addr \<times> u64 \<Rightarrow> carrier_index \<Rightarrow> carrier_index option" where
  "remove_group_carrier pc g = (let (proxy, carrier) = pc in do {
     carriers \<leftarrow> hm_get g proxy;
     users \<leftarrow> hm_get carriers carrier;
     if users = 0 then None else do {
       let carriers = (if users - 1 = 0 then hm_remove carrier carriers
                       else hm_insert carrier (users - 1) carriers);
       Some (if carriers = [] then hm_remove proxy g else hm_insert proxy carriers g)
     }
   })"

definition carrier_count :: "carrier_index \<Rightarrow> ip_addr \<times> u64 \<Rightarrow> nat" where
  "carrier_count g pc = (case hm_get g (fst pc) of None \<Rightarrow> 0
     | Some m \<Rightarrow> (case hm_get m (snd pc) of None \<Rightarrow> 0 | Some n \<Rightarrow> n))"

definition index_ok :: "carrier_index \<Rightarrow> bool" where
  "index_ok g \<longleftrightarrow> hm_inv g \<and>
     (\<forall>p m. hm_get g p = Some m \<longrightarrow> m \<noteq> [] \<and> hm_inv m \<and> (\<forall>k n. hm_get m k = Some n \<longrightarrow> 0 < n))"

lemma index_ok_Nil [simp, keeps]: "index_ok []"
  by (simp add: index_ok_def)

lemma hm_insert_not_Nil [simp]: "hm_insert k v m \<noteq> []"
  by (cases m) auto

lemma index_ok_add [keeps]: "index_ok g \<Longrightarrow> index_ok (add_group_carrier pc g)"
  by (cases pc) (auto simp: index_ok_def add_group_carrier_def Let_def split: option.splits if_splits)

lemma carrier_count_add:
  "carrier_count (add_group_carrier pc g) pc' = (if pc' = pc then Suc (carrier_count g pc) else carrier_count g pc')"
  by (cases pc; cases pc')
    (auto simp: carrier_count_def add_group_carrier_def Let_def split: option.splits if_splits)

lemma remove_group_carrier_None:
  "index_ok g \<Longrightarrow> carrier_count g pc = 0 \<Longrightarrow> remove_group_carrier pc g = None"
  by (cases pc) (auto simp: index_ok_def carrier_count_def remove_group_carrier_def Let_def
      split: option.splits bind_splits)

lemma hm_eq_Nil_get: "m = [] \<longleftrightarrow> (\<forall>k. hm_get m k = None)"
  by (cases m) (auto simp: hm_get_def split: if_splits)

lemma remove_group_carrier_Some:
  assumes ok: "index_ok g" and pos: "0 < carrier_count g pc"
  shows "\<exists>g'. remove_group_carrier pc g = Some g' \<and> index_ok g' \<and>
    (\<forall>pc'. carrier_count g' pc' = (if pc' = pc then carrier_count g pc - 1 else carrier_count g pc'))"
proof -
  obtain p k where pc: "pc = (p, k)" by force
  obtain m n where mn: "hm_get g p = Some m" "hm_get m k = Some n" "0 < n"
    using pos by (auto simp: pc carrier_count_def split: option.splits)
  define m' where "m' = (if n - 1 = 0 then hm_remove k m else hm_insert k (n - 1) m)"
  define g' where "g' = (if m' = [] then hm_remove p g else hm_insert p m' g)"
  have get: "hm_get m' l = (if l = k then (if n - 1 = 0 then None else Some (n - 1)) else hm_get m l)" for l
    by (simp add: m'_def)
  have "remove_group_carrier pc g = Some g'"
    using mn by (simp add: remove_group_carrier_def pc g'_def m'_def Let_def)
  moreover have "hm_inv m'" using ok mn by (auto simp: m'_def index_ok_def)
  then have "index_ok g'" using ok mn get
    by (auto simp: g'_def index_ok_def split: if_splits)
  moreover have "carrier_count g' pc' = (if pc' = pc then carrier_count g pc - 1 else carrier_count g pc')" for pc'
    using mn get hm_eq_Nil_get [of m']
    by (cases pc') (auto simp: carrier_count_def g'_def pc split: option.splits if_splits)
  ultimately show ?thesis by blast
qed

interpretation carriers: refcount carrier_count add_group_carrier remove_group_carrier index_ok
proof (unfold_locales, goal_cases)
  case (1 m k)
  then show ?case by (rule index_ok_add)
next
  case (2 m k k')
  show ?case by (rule carrier_count_add)
next
  case (3 m k)
  then show ?case by (rule remove_group_carrier_Some)
next
  case (4 m k)
  then show ?case by (rule remove_group_carrier_None)
qed

section \<open>The clients of a replica\<close>

record clients =
  cs_clients :: "(client, client_info) hmap"
  cs_group_carriers :: carrier_index

definition clients_default :: clients where
  "clients_default = \<lparr>cs_clients = [], cs_group_carriers = []\<rparr>"

text \<open>\<^verbatim>\<open>Option::zip\<close> of the proxy of a client and the carrier of its entry.\<close>

definition carrier_of :: "client \<Rightarrow> client_info \<Rightarrow> (ip_addr \<times> u64) option" where
  "carrier_of c ci = (case (cl_proxy c, ci_group_carrier ci) of
     (Some p, Some k) \<Rightarrow> Some (p, k) | _ \<Rightarrow> None)"

text \<open>The second component is the reservation whose waiters are woken.\<close>

definition add_client :: "client \<Rightarrow> client_info \<Rightarrow> clients \<Rightarrow> (clients \<times> notify option) option" where
  "add_client c info cs = (let
       existing = hm_get (cs_clients cs) c;
       info = (case existing of
           Some e \<Rightarrow> info\<lparr>ci_active_chains := ci_active_chains e, ci_open_connections := ci_open_connections e\<rparr>
         | None \<Rightarrow> info);
       waiters = Option.bind existing ci_pending;
       previous_carrier = Option.bind existing (carrier_of c);
       next_carrier = carrier_of c info
     in do {
       g \<leftarrow> (if previous_carrier \<noteq> next_carrier then do {
            g \<leftarrow> (case previous_carrier of
                 Some pc \<Rightarrow> remove_group_carrier pc (cs_group_carriers cs)
               | None \<Rightarrow> Some (cs_group_carriers cs));
            Some (case next_carrier of Some pc \<Rightarrow> add_group_carrier pc g | None \<Rightarrow> g)
          } else Some (cs_group_carriers cs));
       Some (\<lparr>cs_clients = hm_insert c info (cs_clients cs), cs_group_carriers = g\<rparr>, waiters)
     })"

definition remove_client :: "client \<Rightarrow> clients \<Rightarrow> (clients \<times> client_info option) option" where
  "remove_client c cs = (case hm_get (cs_clients cs) c of
       None \<Rightarrow> Some (cs, None)
     | Some info \<Rightarrow> do {
         g \<leftarrow> (case carrier_of c info of
              Some pc \<Rightarrow> remove_group_carrier pc (cs_group_carriers cs)
            | None \<Rightarrow> Some (cs_group_carriers cs));
         Some (\<lparr>cs_clients = hm_remove c (cs_clients cs), cs_group_carriers = g\<rparr>, Some info)
       })"

definition remove_pending_client :: "client \<Rightarrow> clients \<Rightarrow> (clients \<times> notify option) option" where
  "remove_pending_client c cs = (case Option.bind (hm_get (cs_clients cs) c) ci_pending of
       None \<Rightarrow> Some (cs, None)
     | Some token \<Rightarrow> do { (cs', _) \<leftarrow> remove_client c cs; Some (cs', Some token) })"

definition cs_is_client_setup :: "client \<Rightarrow> clients \<Rightarrow> (u32 \<times> u64) option" where
  "cs_is_client_setup c cs = (case hm_get (cs_clients cs) c of
       Some ci \<Rightarrow> if ci_pending ci = None then Some (ci_server_net ci, ci_pool_generation ci) else None
     | None \<Rightarrow> None)"

definition cs_pending_notify :: "client \<Rightarrow> clients \<Rightarrow> notify option" where
  "cs_pending_notify c cs = Option.bind (hm_get (cs_clients cs) c) ci_pending"

text \<open>\<^verbatim>\<open>clients_mut().get_mut(client)\<close> followed by an update of the entry.\<close>

definition cs_modify :: "client \<Rightarrow> (client_info \<Rightarrow> client_info) \<Rightarrow> clients \<Rightarrow> clients" where
  "cs_modify c f cs = cs\<lparr>cs_clients := hm_modify c f (cs_clients cs)\<rparr>"

section \<open>The index counts the entries\<close>

definition carrier_users :: "(client, client_info) hmap \<Rightarrow> ip_addr \<times> u64 \<Rightarrow> nat" where
  "carrier_users m pc = hm_count (\<lambda>c ci. carrier_of c ci = Some pc) m"

definition clients_inv :: "clients \<Rightarrow> bool" where
  "clients_inv cs \<longleftrightarrow> hm_inv (cs_clients cs) \<and> index_ok (cs_group_carriers cs) \<and>
     carrier_count (cs_group_carriers cs) = carrier_users (cs_clients cs)"

lemma clients_inv_default [simp, keeps]: "clients_inv clients_default"
  by (auto simp: clients_inv_def clients_default_def carrier_users_def carrier_count_def)

lemma carrier_users_pos:
  assumes "hm_inv m" "hm_get m c = Some ci" "carrier_of c ci = Some pc"
  shows "carrier_users m pc = Suc (carrier_users (hm_remove c m) pc)"
  using hm_count_remove [OF assms(1,2), of "\<lambda>c ci. carrier_of c ci = Some pc"] assms(3)
  by (simp add: carrier_users_def)

lemma carrier_users_remove:
  assumes "hm_inv m" "hm_get m c = Some ci"
  shows "carrier_users (hm_remove c m) pc = carrier_users m pc - (if carrier_of c ci = Some pc then 1 else 0)"
  using hm_count_remove [OF assms, of "\<lambda>c ci. carrier_of c ci = Some pc"]
  by (simp add: carrier_users_def)

lemma carrier_users_insert:
  assumes "hm_inv m"
  shows "carrier_users (hm_insert c ci m) pc = carrier_users (hm_remove c m) pc + (if carrier_of c ci = Some pc then 1 else 0)"
  using hm_count_insert [OF assms, of "\<lambda>c ci. carrier_of c ci = Some pc"]
  by (simp add: carrier_users_def)

text \<open>Taking the carrier of an entry out of the index never panics and leaves the counts of the
  other entries.\<close>

lemma drop_carrier:
  assumes inv: "clients_inv cs" and get: "hm_get (cs_clients cs) c = Some ci"
  obtains g where
    "(case carrier_of c ci of Some pc \<Rightarrow> remove_group_carrier pc (cs_group_carriers cs)
       | None \<Rightarrow> Some (cs_group_carriers cs)) = Some g"
    "index_ok g" "carrier_count g = carrier_users (hm_remove c (cs_clients cs))"
proof (cases "carrier_of c ci")
  case None
  then show ?thesis using that [of "cs_group_carriers cs"] inv carrier_users_remove [OF _ get]
    by (auto simp: clients_inv_def fun_eq_iff simp del: split_paired_All)
next
  case (Some pc)
  have m: "hm_inv (cs_clients cs)" and i: "index_ok (cs_group_carriers cs)"
    and n: "carrier_count (cs_group_carriers cs) = carrier_users (cs_clients cs)"
    using inv by (simp_all add: clients_inv_def)
  have "0 < carrier_count (cs_group_carriers cs) pc"
    using carrier_users_pos [OF m get Some] n by simp
  from remove_group_carrier_Some [OF i this] obtain g where g:
    "remove_group_carrier pc (cs_group_carriers cs) = Some g" "index_ok g"
    "\<forall>pc'. carrier_count g pc' = (if pc' = pc then carrier_count (cs_group_carriers cs) pc - 1
        else carrier_count (cs_group_carriers cs) pc')"
    by blast
  have "carrier_count g pc' = carrier_users (hm_remove c (cs_clients cs)) pc'" for pc'
    using g(3) [rule_format, of pc'] n carrier_users_remove [OF m get, of pc'] Some by auto
  then have "carrier_count g = carrier_users (hm_remove c (cs_clients cs))" by (rule ext)
  then show ?thesis using that [of g] g(1,2) Some by simp
qed

lemma remove_client_ok:
  assumes inv: "clients_inv cs"
  obtains cs' where "remove_client c cs = Some (cs', hm_get (cs_clients cs) c)" "clients_inv cs'"
    "cs_clients cs' = hm_remove c (cs_clients cs)"
proof (cases "hm_get (cs_clients cs) c")
  case None
  then show ?thesis using that [of cs] inv by (simp add: remove_client_def hm_remove_absent)
next
  case (Some ci)
  from drop_carrier [OF inv Some] obtain g where g:
    "(case carrier_of c ci of Some pc \<Rightarrow> remove_group_carrier pc (cs_group_carriers cs)
       | None \<Rightarrow> Some (cs_group_carriers cs)) = Some g"
    "index_ok g" "carrier_count g = carrier_users (hm_remove c (cs_clients cs))" .
  show ?thesis
    by (rule that [of "\<lparr>cs_clients = hm_remove c (cs_clients cs), cs_group_carriers = g\<rparr>"])
      (use inv g Some in \<open>simp_all add: remove_client_def clients_inv_def\<close>)
qed

lemma hm_insert_remove: "hm_remove c (hm_insert c v m) = hm_remove c m"
  by (induction m) (auto simp: hm_remove_def)

lemma carrier_of_counts [simp]:
  "carrier_of c (ci\<lparr>ci_active_chains := n, ci_open_connections := k\<rparr>) = carrier_of c ci"
  by (simp add: carrier_of_def)

lemma next_carrier_count:
  assumes "hm_inv m" "carrier_count g = carrier_users (hm_remove c m)"
  shows "carrier_count (case carrier_of c ci of Some pc \<Rightarrow> add_group_carrier pc g | None \<Rightarrow> g) pc
    = carrier_users (hm_insert c ci m) pc"
  using assms by (simp add: carrier_users_insert carrier_count_add split: option.splits)

definition kept_counts :: "client_info option \<Rightarrow> client_info \<Rightarrow> client_info" where
  "kept_counts existing info = (case existing of
     Some e \<Rightarrow> info\<lparr>ci_active_chains := ci_active_chains e, ci_open_connections := ci_open_connections e\<rparr>
   | None \<Rightarrow> info)"

lemma carrier_of_kept [simp]: "carrier_of c (kept_counts e ci) = carrier_of c ci"
  by (simp add: kept_counts_def split: option.splits)

lemma add_client_ok:
  assumes inv: "clients_inv cs"
  obtains cs' where "add_client c info cs = Some (cs', cs_pending_notify c cs)" "clients_inv cs'"
    "cs_clients cs' = hm_insert c (kept_counts (hm_get (cs_clients cs) c) info) (cs_clients cs)"
proof -
  define existing where "existing = hm_get (cs_clients cs) c"
  define info' where "info' = kept_counts existing info"
  define prev where "prev = Option.bind existing (carrier_of c)"
  have m: "hm_inv (cs_clients cs)" using inv by (simp add: clients_inv_def)
  obtain g0 where g0: "(case prev of Some pc \<Rightarrow> remove_group_carrier pc (cs_group_carriers cs)
       | None \<Rightarrow> Some (cs_group_carriers cs)) = Some g0"
    "index_ok g0" "carrier_count g0 = carrier_users (hm_remove c (cs_clients cs))"
  proof (cases existing)
    case None
    then show ?thesis using that [of "cs_group_carriers cs"] inv
      by (simp add: prev_def clients_inv_def existing_def hm_remove_absent)
  next
    case (Some ci)
    then show ?thesis using that drop_carrier [OF inv, of c ci] by (auto simp: prev_def existing_def)
  qed
  define g where "g = (if prev = carrier_of c info then cs_group_carriers cs
      else (case carrier_of c info of Some pc \<Rightarrow> add_group_carrier pc g0 | None \<Rightarrow> g0))"
  have "index_ok g" using inv g0(2) index_ok_add [of g0]
    by (simp add: g_def clients_inv_def split: option.splits)
  moreover have "carrier_count g = carrier_users (hm_insert c info' (cs_clients cs))"
  proof (rule ext, cases "prev = carrier_of c info")
    fix pc
    case True
    have "carrier_users (hm_insert c info' (cs_clients cs)) pc = carrier_users (cs_clients cs) pc"
    proof (cases existing)
      case None
      then have "carrier_of c info = None" using True by (simp add: prev_def)
      then show ?thesis using None
        by (simp add: carrier_users_insert [OF m] info'_def hm_remove_absent existing_def)
    next
      case (Some ci)
      then have "carrier_of c info = carrier_of c ci" using True by (simp add: prev_def)
      then show ?thesis
        using Some carrier_users_remove [OF m, of c ci pc] carrier_users_pos [OF m, of c ci pc]
        by (simp add: carrier_users_insert [OF m] info'_def existing_def)
    qed
    then show "carrier_count g pc = carrier_users (hm_insert c info' (cs_clients cs)) pc"
      using True inv by (simp add: g_def clients_inv_def)
  next
    fix pc
    case False
    then show "carrier_count g pc = carrier_users (hm_insert c info' (cs_clients cs)) pc"
      using next_carrier_count [OF m g0(3), of info' pc]
      by (simp add: g_def info'_def)
  qed
  moreover have "add_client c info cs =
      Some (\<lparr>cs_clients = hm_insert c info' (cs_clients cs), cs_group_carriers = g\<rparr>, cs_pending_notify c cs)"
    using g0(1) by (simp add: add_client_def g_def Let_def existing_def [symmetric] prev_def [symmetric]
        cs_pending_notify_def info'_def [unfolded kept_counts_def, symmetric])
      (simp add: info'_def)
  ultimately show ?thesis
    using that [of "\<lparr>cs_clients = hm_insert c info' (cs_clients cs), cs_group_carriers = g\<rparr>"] m
    by (simp add: clients_inv_def info'_def existing_def)
qed

lemma remove_pending_client_ok:
  assumes inv: "clients_inv cs"
  obtains cs' where "remove_pending_client c cs = Some (cs', cs_pending_notify c cs)" "clients_inv cs'"
    "cs_clients cs' = (if cs_pending_notify c cs = None then cs_clients cs else hm_remove c (cs_clients cs))"
proof (cases "cs_pending_notify c cs")
  case None
  then show ?thesis using that [of cs] inv by (simp add: remove_pending_client_def cs_pending_notify_def)
next
  case (Some t)
  from remove_client_ok [OF inv, of c] obtain cs' where
    "remove_client c cs = Some (cs', hm_get (cs_clients cs) c)" "clients_inv cs'"
    "cs_clients cs' = hm_remove c (cs_clients cs)" .
  then show ?thesis using that [of cs'] Some by (simp add: remove_pending_client_def cs_pending_notify_def)
qed

lemma cs_modify_ok [keeps]:
  assumes "clients_inv cs" "\<And>ci. ci_group_carrier (f ci) = ci_group_carrier ci"
  shows "clients_inv (cs_modify c f cs)"
proof -
  have "carrier_users (hm_modify c f (cs_clients cs)) pc = carrier_users (cs_clients cs) pc" for pc
    unfolding carrier_users_def by (rule hm_count_modify) (simp add: carrier_of_def assms(2))
  then show ?thesis using assms(1) by (simp add: clients_inv_def cs_modify_def fun_eq_iff)
qed

section \<open>Sequences of operations\<close>

datatype entry_op =
    AddChain instant
  | RemoveChains nat
  | OpenConn instant
  | CloseConn instant
  | Touch instant

fun entry_update :: "entry_op \<Rightarrow> client_info \<Rightarrow> client_info" where
  "entry_update (AddChain now) = add_active_chain now"
| "entry_update (RemoveChains n) = remove_active_chains n"
| "entry_update (OpenConn now) = ci_open_connection now"
| "entry_update (CloseConn now) = ci_close_connection now"
| "entry_update (Touch now) = ci_set_latest_now now"

datatype clients_op =
    AddClient client client_info
  | RemoveClient client
  | RemovePending client
  | Update client entry_op

fun clients_step :: "clients_op \<Rightarrow> clients \<Rightarrow> clients option" where
  "clients_step (AddClient c info) cs = map_option fst (add_client c info cs)"
| "clients_step (RemoveClient c) cs = map_option fst (remove_client c cs)"
| "clients_step (RemovePending c) cs = map_option fst (remove_pending_client c cs)"
| "clients_step (Update c u) cs = Some (cs_modify c (entry_update u) cs)"

lemma entry_update_carrier: "ci_group_carrier (entry_update u ci) = ci_group_carrier ci"
  by (cases u) (simp_all add: add_active_chain_def remove_active_chains_def ci_open_connection_def
      ci_close_connection_def ci_set_latest_now_def)

lemma clients_step_ok: "clients_inv cs \<Longrightarrow> \<exists>cs'. clients_step op cs = Some cs' \<and> clients_inv cs'"
proof (cases op)
  case (AddClient c info)
  then show "clients_inv cs \<Longrightarrow> ?thesis" using add_client_ok [of cs c info] by (metis clients_step.simps(1) fst_conv option.simps(9))
next
  case (RemoveClient c)
  then show "clients_inv cs \<Longrightarrow> ?thesis" using remove_client_ok [of cs c] by (metis clients_step.simps(2) fst_conv option.simps(9))
next
  case (RemovePending c)
  then show "clients_inv cs \<Longrightarrow> ?thesis" using remove_pending_client_ok [of cs c] by (metis clients_step.simps(3) fst_conv option.simps(9))
next
  case (Update c u)
  then show "clients_inv cs \<Longrightarrow> ?thesis" by (simp add: cs_modify_ok entry_update_carrier)
qed

text \<open>\<^bold>\<open>C17.\<close> Whatever sequence of insertions, promotions, removals and counter updates a replica's
  client table goes through, the two \<^verbatim>\<open>expect\<close> calls of the carrier index never fire, and the
  index holds for every proxy and carrier exactly the number of client entries that use it, so
  a carrier disappears with its last user and not before.\<close>

theorem carrier_index_exact:
  "\<exists>cs. foldM clients_step ops clients_default = Some cs \<and>
     (\<forall>pc. carrier_count (cs_group_carriers cs) pc = length (filter (\<lambda>(c, ci). carrier_of c ci = Some pc) (cs_clients cs))) \<and>
     (\<forall>p m. (p, m) \<in> set (cs_group_carriers cs) \<longrightarrow> m \<noteq> [] \<and> (\<forall>(k, n) \<in> set m. 0 < n))"
proof -
  obtain cs where cs: "foldM clients_step ops clients_default = Some cs" "clients_inv cs"
    using foldM_inv [of ops clients_inv clients_step clients_default] clients_step_ok by auto
  have "m \<noteq> [] \<and> (\<forall>(k, n) \<in> set m. 0 < n)" if "(p, m) \<in> set (cs_group_carriers cs)" for p m
  proof -
    have g: "hm_get (cs_group_carriers cs) p = Some m"
      using cs(2) that by (simp add: clients_inv_def index_ok_def hm_get_in_set)
    then have "hm_inv m" using cs(2) by (auto simp: clients_inv_def index_ok_def)
    then show ?thesis using cs(2) g by (fastforce simp: clients_inv_def index_ok_def hm_get_in_set)
  qed
  then show ?thesis using cs by (auto simp: clients_inv_def carrier_users_def hm_count_def)
qed

theorem carrier_index_exact_witness:
  "map_option (\<lambda>cs. carrier_count (cs_group_carriers cs) (V4 9, 5))
     (foldM clients_step
       [AddClient (client_new ''u1'' (Some (V4 9))) (set_group_carrier 5 (with_pool_generation 0 (V4 1) 1 2 101 0 None 0)),
        AddClient (client_new ''u2'' (Some (V4 9))) (set_group_carrier 5 (with_pool_generation 0 (V4 1) 1 2 102 0 None 0)),
        RemoveClient (client_new ''u1'' (Some (V4 9)))] clients_default) = Some 1"
proof -
  define ops where "ops =
       [AddClient (client_new ''u1'' (Some (V4 9))) (set_group_carrier 5 (with_pool_generation 0 (V4 1) 1 2 101 0 None 0)),
        AddClient (client_new ''u2'' (Some (V4 9))) (set_group_carrier 5 (with_pool_generation 0 (V4 1) 1 2 102 0 None 0)),
        RemoveClient (client_new ''u1'' (Some (V4 9)))]"
  obtain cs where cs: "foldM clients_step ops clients_default = Some cs"
    "\<forall>pc. carrier_count (cs_group_carriers cs) pc = length (filter (\<lambda>(c, ci). carrier_of c ci = Some pc) (cs_clients cs))"
    using carrier_index_exact [of ops] by blast
  have "map_option cs_clients (foldM clients_step ops clients_default) =
      Some [(client_new ''u2'' (Some (V4 9)), set_group_carrier 5 (with_pool_generation 0 (V4 1) 1 2 102 0 None 0))]"
    unfolding ops_def by code_simp
  then show ?thesis unfolding ops_def [symmetric] using cs(1) cs(2) [rule_format, of "(V4 9, 5)"]
    by (simp add: carrier_of_def client_new_def set_group_carrier_def with_pool_generation_def)
qed

text \<open>Promoting a reservation keeps the chains and the open connections counted on it while
  the edge was being built, removes its pending mark and wakes exactly the waiters blocked on
  it; every other entry is untouched.\<close>

theorem promotion_keeps_counts:
  assumes "clients_inv cs" "hm_get (cs_clients cs) c = Some e" "ci_pending e = Some token" "ci_pending info = None"
  shows "\<exists>cs' ci. add_client c info cs = Some (cs', Some token) \<and> clients_inv cs' \<and>
    hm_get (cs_clients cs') c = Some ci \<and>
    ci_active_chains ci = ci_active_chains e \<and> ci_open_connections ci = ci_open_connections e \<and>
    ci_net_id ci = ci_net_id info \<and> cs_is_client_setup c cs' = Some (ci_server_net info, ci_pool_generation info) \<and>
    (\<forall>c'. c' \<noteq> c \<longrightarrow> hm_get (cs_clients cs') c' = hm_get (cs_clients cs) c')"
proof -
  from add_client_ok [OF assms(1), of c info] obtain cs' where
    "add_client c info cs = Some (cs', cs_pending_notify c cs)" "clients_inv cs'"
    "cs_clients cs' = hm_insert c (kept_counts (hm_get (cs_clients cs) c) info) (cs_clients cs)" .
  then show ?thesis using assms(2-4)
    by (simp add: cs_pending_notify_def kept_counts_def cs_is_client_setup_def)
qed

theorem promotion_keeps_counts_witness:
  "\<exists>cs'. add_client (client_new ''u'' (Some (V4 9))) (with_pool_generation 7 (V4 1) 1 2 101 3 None 4)
      \<lparr>cs_clients = [(client_new ''u'' (Some (V4 9)), (reservation 0 42 (V4 1) False)\<lparr>ci_active_chains := 3\<rparr>)],
       cs_group_carriers = []\<rparr> = Some (cs', Some 42) \<and>
     map_option ci_active_chains (hm_get (cs_clients cs') (client_new ''u'' (Some (V4 9)))) = Some 3"
proof -
  let ?cs = "\<lparr>cs_clients = [(client_new ''u'' (Some (V4 9)), (reservation 0 42 (V4 1) False)\<lparr>ci_active_chains := 3\<rparr>)],
       cs_group_carriers = []\<rparr>"
  have inv: "clients_inv ?cs"
    by (auto simp: clients_inv_def hm_inv_def carrier_count_def carrier_users_def hm_count_def
        carrier_of_def reservation_def split: option.splits)
  have get: "hm_get (cs_clients ?cs) (client_new ''u'' (Some (V4 9))) = Some ((reservation 0 42 (V4 1) False)\<lparr>ci_active_chains := 3\<rparr>)"
    by (simp add: hm_get_def)
  show ?thesis
    using promotion_keeps_counts [OF inv get, of 42 "with_pool_generation 7 (V4 1) 1 2 101 3 None 4"]
    by (auto simp: reservation_def with_pool_generation_def)
qed

end
