(* ===== verification/Orchestrator.thy ===== *)
theory Orchestrator
  imports Clients
begin

text \<open>
  The orchestrator's shared state (nullnet-server, \<^verbatim>\<open>orchestrator.rs\<close>): control streams, pending
  acknowledgements, the identifier pool, egress edges, trigger sessions and XFRM transports.

  The state is passed explicitly.  A stream is a channel number, and the set of channels whose
  peer is gone is part of the state.  Identities the code draws at random (\<^verbatim>\<open>Uuid::new_v4\<close>) or by
  allocation (\<^verbatim>\<open>Arc::new\<close>) come from one counter.  Calls into the session store and the event
  store are appended to logs, messages handed to a stream to a third one, so that a property
  can speak about everything the server did.
\<close>

section \<open>State\<close>

type_synonym chan = nat
type_synonym uuid = nat
type_synonym egress_key = "ip_addr \<times> string option"
type_synonym backend_key = "string \<times> ip_addr \<times> string option \<times> u16"

record backend_session =
  bs_generation :: uuid
  bs_history_id :: "uuid option"
  bs_building :: bool
  bs_stack :: string
  bs_idle_since :: "instant option"

record pending_backend_history =
  ph_key :: backend_key
  ph_generation :: uuid
  ph_stack :: string
  ph_net_id :: u32
  ph_destination :: string
  ph_setup_ms :: "nat option"

record dest_stat =
  ds_last_seen :: nat
  ds_count :: nat
  ds_blocked :: bool
  ds_active :: bool

record egress_edge =
  ee_setup_ms :: nat
  ee_generation :: uuid
  ee_net_id :: u32
  ee_stack :: string
  ee_service :: string
  ee_initiator_ip :: ip_addr
  ee_initiator_docker :: "string option"
  ee_proxy_ip :: ip_addr
  ee_destinations :: "(u32, dest_stat) hmap"
  ee_idle_since :: "instant option"
  ee_reserved_at :: instant

text \<open>The session-history rows and the events the modelled code writes.\<close>

datatype history_call =
    OpenIngress string string u32 string u32 u32 ip_addr nat
  | CloseIngress u32 string string
  | OpenBackend string backend_key u32 string "nat option"
  | CloseBackend "uuid option"
  | RecordEgressDestination string string u32 u32 ip_addr "string option" ip_addr nat nat bool bool
  | CloseEgressEdge u32
  | RecordBlockedIngress string string string

datatype event =
    NodeConnected ip_addr
  | NodeDisconnected ip_addr
  | EgressReservationReclaimed string ip_addr nat
  | NetIdPoolExhausted string ip_addr
  | SetupStarted u32 string ip_addr
  | SetupAck u32 string nat
  | SetupTimeout u32 string
  | EdgePromotionLost u32 string ip_addr
  | SessionCreated u32 string ip_addr
  | NetTeardownUnconfirmed u32 ip_addr
  | ContainerResumeFailed string ip_addr
  | SessionTornDown u32 string ip_addr
  | ServiceUnregistered string string
  | ServiceReachabilityToggled string string bool
  | AllReplicasRemoved string string ip_addr
  | ProxyClientTimedOutEvent string client
  | StaleSessionEvictedEvent string string ip_addr
  | MaxNetworksLimitEnforced string ip_addr u32 nat
  | ChainOwnerLost string
  | ProxyChainSetupFailed string string
  | BackendTriggerSetupBailed string u16
  | ServiceDeclarationSkipped ip_addr string
  | ServiceRegistered string string
  | IngressCongestionRecoveryStarted ip_addr
  | IngressCongestionControlChanged ip_addr bool
  | ConfigStackRemoved string
  | ConfigReloaded string
  | PortMappingConflict string string string string string u16
  | RouteConflictFound string string string string
  | ServiceNameConflict string string string
  | ObservationChanged string int string

text \<open>A detached \<^verbatim>\<open>spawn_deferred_net_id_free\<close> task: the messages it still has to hand to their
  streams, and those it waits for.\<close>

record teardown_task =
  td_net_id :: u32
  td_unsent :: "(ip_addr \<times> msg_id \<times> chan \<times> net_message) list"
  td_sent :: "(ip_addr \<times> msg_id \<times> chan) list"

text \<open>The shared pause state of a replica, and a detached \<^verbatim>\<open>Replica::resume\<close> task holding a
  reference to it.\<close>

record pause_state =
  ps_suspended :: bool
  ps_resume :: "uuid option"

record resume_task =
  rt_token :: uuid
  rt_pause :: uuid
  rt_ip :: ip_addr
  rt_container :: string

record orch =
  o_net_type :: net
  o_encryption :: bool
  o_diag :: bool
  o_clients :: "(ip_addr, chan) hmap"
  o_closed :: "chan list"
  o_proxies :: "(ip_addr, nat) hmap"
  o_pending :: "msg_id list"
  o_acked :: "msg_id list"
  o_pool :: net_id_pool
  o_egress :: "(egress_key, egress_edge) hmap"
  o_backend :: "(backend_key, backend_session) hmap"
  o_inflight :: nat
  o_tasks :: "teardown_task list"
  o_xfrm :: "(ip_addr \<times> ip_addr, u32 \<times> key) hmap"
  o_xfrm_id :: u32
  o_policy_generation :: u64
  o_policy_epoch :: "u8 list"
  o_pauses :: "(uuid, pause_state) hmap"
  o_resumes :: "resume_task list"
  o_next :: nat
  o_sent :: "(chan \<times> net_message) list"
  o_history :: "history_call list"
  o_events :: "event list"
  o_woken :: "notify list"

definition SHARED_XFRM_ID_START :: u32 where
  "SHARED_XFRM_ID_START = 0x100000"

definition POLICY_XFRM_ID_START :: u32 where
  "POLICY_XFRM_ID_START = 0x200000"

definition MAX_DESTS_PER_EDGE :: nat where
  "MAX_DESTS_PER_EDGE = 256"

definition orch_new :: "net \<Rightarrow> bool \<Rightarrow> bool \<Rightarrow> u8 list \<Rightarrow> orch" where
  "orch_new ty encryption diag epoch =
     \<lparr>o_net_type = ty, o_encryption = encryption, o_diag = diag, o_clients = [], o_closed = [],
      o_proxies = [], o_pending = [], o_acked = [], o_pool = pool_new, o_egress = [], o_backend = [],
      o_inflight = 0, o_tasks = [], o_xfrm = [], o_xfrm_id = SHARED_XFRM_ID_START,
      o_policy_generation = 1, o_policy_epoch = epoch, o_pauses = [], o_resumes = [], o_next = 0,
      o_sent = [], o_history = [], o_events = [], o_woken = []\<rparr>"

text \<open>\<^verbatim>\<open>Uuid::new_v4\<close>, \<^verbatim>\<open>Arc::new\<close>: an identity not used before.\<close>

definition fresh :: "orch \<Rightarrow> nat \<times> orch" where
  "fresh st = (o_next st, st\<lparr>o_next := o_next st + 1\<rparr>)"

definition emit :: "event \<Rightarrow> orch \<Rightarrow> orch" where
  "emit e st = st\<lparr>o_events := o_events st @ [e]\<rparr>"

definition history :: "history_call \<Rightarrow> orch \<Rightarrow> orch" where
  "history h st = st\<lparr>o_history := o_history st @ [h]\<rparr>"

definition notify_waiters :: "notify option \<Rightarrow> orch \<Rightarrow> orch" where
  "notify_waiters t st = (case t of None \<Rightarrow> st | Some t \<Rightarrow> st\<lparr>o_woken := o_woken st @ [t]\<rparr>)"

text \<open>\<^verbatim>\<open>outbound.send(..)\<close>: a closed stream refuses the message.\<close>

definition stream_send :: "chan \<Rightarrow> net_message \<Rightarrow> orch \<Rightarrow> bool \<times> orch" where
  "stream_send ch m st = (if ch \<in> set (o_closed st) then (False, st)
     else (True, st\<lparr>o_sent := o_sent st @ [(ch, m)]\<rparr>))"

section \<open>Streams\<close>

definition policy_heartbeat :: "orch \<Rightarrow> net_message" where
  "policy_heartbeat st = PolicyHeartbeat (o_policy_epoch st)"

text \<open>The head of \<^verbatim>\<open>add_client\<close>, up to the detached inbound task: a closed stream fails the call.\<close>

definition orch_add_client :: "ip_addr \<Rightarrow> chan \<Rightarrow> orch \<Rightarrow> orch option" where
  "orch_add_client ip ch st = (case stream_send ch (policy_heartbeat st) st of
       (False, _) \<Rightarrow> None
     | (True, st) \<Rightarrow> (let st = st\<lparr>o_clients := hm_insert ip ch (o_clients st)\<rparr>
                     in Some (if o_diag st then emit (NodeConnected ip) st else st)))"

text \<open>One turn of the inbound task: an acknowledgement takes the waiting sender out.\<close>

definition inbound_ack :: "msg_id \<Rightarrow> orch \<Rightarrow> orch" where
  "inbound_ack mid st = (if mid \<in> set (o_pending st)
     then st\<lparr>o_pending := removeAll mid (o_pending st), o_acked := o_acked st @ [mid]\<rparr> else st)"

definition orch_remove_client :: "ip_addr \<Rightarrow> orch \<Rightarrow> orch" where
  "orch_remove_client ip st = st\<lparr>o_clients := hm_remove ip (o_clients st)\<rparr>"

text \<open>One turn of the \<^verbatim>\<open>policy_heartbeats\<close> task; \<^const>\<open>None\<close> is its end.\<close>

definition policy_heartbeats_turn :: "ip_addr \<Rightarrow> chan \<Rightarrow> orch \<Rightarrow> orch option" where
  "policy_heartbeats_turn ip ch st =
     (if hm_get (o_clients st) ip \<noteq> Some ch then None
      else (case stream_send ch (policy_heartbeat st) st of (ok, st) \<Rightarrow> if ok then Some st else None))"

definition proxy_connected :: "ip_addr \<Rightarrow> (ip_addr, nat) hmap \<Rightarrow> (ip_addr, nat) hmap" where
  "proxy_connected ip m = hm_insert ip ((case hm_get m ip of Some n \<Rightarrow> n | None \<Rightarrow> 0) + 1) m"

definition proxy_disconnected :: "ip_addr \<Rightarrow> (ip_addr, nat) hmap \<Rightarrow> (ip_addr, nat) hmap option" where
  "proxy_disconnected ip m = do {
     n \<leftarrow> hm_get m ip;
     if n = 0 then None
     else Some (if n - 1 = 0 then hm_remove ip m else hm_insert ip (n - 1) m)
   }"

definition connected_proxy_ips :: "orch \<Rightarrow> ip_addr list" where
  "connected_proxy_ips st = sort (hm_keys (o_proxies st))"

definition connected_node_ips :: "orch \<Rightarrow> ip_addr list" where
  "connected_node_ips st = hm_keys (o_clients st)"

definition send_container_suspend :: "ip_addr \<Rightarrow> string \<Rightarrow> orch \<Rightarrow> orch" where
  "send_container_suspend dest container st = (case hm_get (o_clients st) dest of
     None \<Rightarrow> st | Some ch \<Rightarrow> snd (stream_send ch (ContainerSuspend container) st))"

definition broadcast_egress_policy_changed :: "orch \<Rightarrow> orch" where
  "broadcast_egress_policy_changed st =
     fold (\<lambda>(ip, ch) st. snd (stream_send ch EgressPolicyChanged st)) (o_clients st) st"

section \<open>Identifiers\<close>

definition allocate_net_id :: "orch \<Rightarrow> u32 option \<times> orch" where
  "allocate_net_id st = (let (r, p) = allocate (o_net_type st) (o_pool st) in (r, st\<lparr>o_pool := p\<rparr>))"

definition free_net_id :: "u32 \<Rightarrow> orch \<Rightarrow> orch" where
  "free_net_id net_id st = st\<lparr>o_pool := free (o_net_type st) net_id (o_pool st)\<rparr>"

definition xfrm_transport :: "key \<Rightarrow> ip_addr \<Rightarrow> ip_addr \<Rightarrow> orch \<Rightarrow> (u32 \<times> key) \<times> orch" where
  "xfrm_transport generated_key first second st = (let
       hosts = (if first < second then (first, second) else (second, first))
     in case hm_get (o_xfrm st) hosts of
          Some t \<Rightarrow> (t, st)
        | None \<Rightarrow> (let t = (o_xfrm_id st, generated_key)
                  in (t, st\<lparr>o_xfrm_id := o_xfrm_id st + 1, o_xfrm := hm_insert hosts t (o_xfrm st)\<rparr>)))"

definition new_group_transport :: "key \<Rightarrow> u32 \<Rightarrow> u64 option \<Rightarrow> orch \<Rightarrow> group_transport \<times> orch" where
  "new_group_transport generated_key net_id carrier st = (let generation = o_policy_generation st
     in (\<lparr>gt_id = POLICY_XFRM_ID_START + net_id, gt_encryption_key = generated_key,
          gt_peer_container = False, gt_generation = generation,
          gt_carrier_id = (case carrier of Some c \<Rightarrow> c | None \<Rightarrow> generation)\<rparr>,
         st\<lparr>o_policy_generation := generation + 1\<rparr>))"

section \<open>Teardown\<close>

text \<open>One endpoint of \<^verbatim>\<open>send_net_teardown_kind\<close>: a connected one gets a pending message.\<close>

definition teardown_endpoint ::
  "u32 \<Rightarrow> bool \<Rightarrow> ip_addr \<times> ip_addr \<times> string \<times> string option
   \<Rightarrow> orch \<times> (ip_addr \<times> msg_id \<times> chan \<times> net_message) list
   \<Rightarrow> orch \<times> (ip_addr \<times> msg_id \<times> chan \<times> net_message) list" where
  "teardown_endpoint net_id grp e acc = (let (dest, remote, side, docker) = e; (st, acks) = acc in
     case hm_get (o_clients st) dest of
       None \<Rightarrow> (st, acks)
     | Some ch \<Rightarrow> (let (mid, st) = fresh st;
           st = st\<lparr>o_pending := o_pending st @ [mid]\<rparr>;
           m = teardown_message (o_net_type st) net_id side docker dest remote None mid grp
         in (st, acks @ [(dest, mid, ch, m)])))"

definition spawn_deferred_net_id_free ::
  "u32 \<Rightarrow> (ip_addr \<times> msg_id \<times> chan \<times> net_message) list \<Rightarrow> orch \<Rightarrow> orch" where
  "spawn_deferred_net_id_free net_id acks st = st\<lparr>o_inflight := o_inflight st + 1,
     o_tasks := o_tasks st @ [\<lparr>td_net_id = net_id, td_unsent = acks, td_sent = []\<rparr>]\<rparr>"

definition send_net_teardown_kind ::
  "ip_addr \<Rightarrow> string option \<Rightarrow> ip_addr \<Rightarrow> string option \<Rightarrow> u32 \<Rightarrow> bool \<Rightarrow> orch \<Rightarrow> orch" where
  "send_net_teardown_kind client client_docker server server_docker net_id grp st =
     (let (st, acks) = fold (teardown_endpoint net_id grp)
            [(client, server, ''c'', client_docker), (server, client, ''s'', server_docker)] (st, [])
      in if acks = [] then free_net_id net_id st
         else spawn_deferred_net_id_free net_id acks st)"

definition send_net_teardown ::
  "ip_addr \<Rightarrow> string option \<Rightarrow> ip_addr \<Rightarrow> string option \<Rightarrow> u32 \<Rightarrow> orch \<Rightarrow> orch" where
  "send_net_teardown client client_docker server server_docker net_id st =
     send_net_teardown_kind client client_docker server server_docker net_id False st"

section \<open>Laws of the shared maps\<close>

definition proxies_ok :: "(ip_addr, nat) hmap \<Rightarrow> bool" where
  "proxies_ok m \<longleftrightarrow> hm_inv m \<and> (\<forall>ip n. hm_get m ip = Some n \<longrightarrow> 0 < n)"

definition proxy_streams :: "(ip_addr, nat) hmap \<Rightarrow> ip_addr \<Rightarrow> nat" where
  "proxy_streams m ip = (case hm_get m ip of None \<Rightarrow> 0 | Some n \<Rightarrow> n)"

interpretation proxies: refcount proxy_streams proxy_connected proxy_disconnected proxies_ok
proof (unfold_locales, goal_cases)
  case (1 m k)
  then show ?case by (auto simp: proxies_ok_def proxy_connected_def split: if_splits)
next
  case (2 m k k')
  then show ?case by (simp add: proxy_streams_def proxy_connected_def split: option.splits)
next
  case (3 m k)
  then obtain n where n: "hm_get m k = Some n" "0 < n" by (auto simp: proxy_streams_def split: option.splits)
  let ?m = "if n - 1 = 0 then hm_remove k m else hm_insert k (n - 1) m"
  have "proxy_disconnected k m = Some ?m" using n by (simp add: proxy_disconnected_def)
  moreover have "proxies_ok ?m" using 3(1) n by (auto simp: proxies_ok_def split: if_splits)
  moreover have "\<forall>k'. proxy_streams ?m k' = (if k' = k then proxy_streams m k - 1 else proxy_streams m k')"
    using n by (auto simp: proxy_streams_def split: if_splits)
  ultimately show ?case by blast
next
  case (4 m k)
  then show ?case by (auto simp: proxy_streams_def proxies_ok_def proxy_disconnected_def split: option.splits bind_splits)
qed

end
