(* ===== verification/Egress_Edges.thy ===== *)
theory Egress_Edges
  imports Orchestrator
begin

text \<open>
  The two kinds of edges the orchestrator itself keeps alive (nullnet-server, \<^verbatim>\<open>orchestrator.rs\<close>):
  egress edges from an initiator replica to the proxy, and the sessions of backend triggers.
  Both are released when the client reports their last connection gone and a debounce has
  passed; the contract of that reaping is a locale interpreted on both.
\<close>

section \<open>The reaping contract\<close>

text \<open>
  A keyed collection whose entries may be ready and idle since some instant.  The loop sleeps for
  the time to the nearest expiry and then takes what is due.
\<close>

definition nearest_expiry :: "('v \<Rightarrow> bool) \<Rightarrow> ('v \<Rightarrow> instant option) \<Rightarrow> instant \<Rightarrow> nat \<Rightarrow> ('k, 'v) hmap \<Rightarrow> nat option" where
  "nearest_expiry ready idle now debounce m =
     iter_min (map (\<lambda>since. debounce - (now - since)) (List.map_filter idle (filter ready (hm_values m))))"

definition is_due :: "('v \<Rightarrow> bool) \<Rightarrow> ('v \<Rightarrow> instant option) \<Rightarrow> instant \<Rightarrow> nat \<Rightarrow> 'v \<Rightarrow> bool" where
  "is_due ready idle now debounce v \<longleftrightarrow>
     ready v \<and> (case idle v of None \<Rightarrow> False | Some since \<Rightarrow> debounce \<le> now - since)"

locale reaper =
  fixes ready :: "'v \<Rightarrow> bool"
    and idle :: "'v \<Rightarrow> instant option"
    and nearest :: "instant \<Rightarrow> nat \<Rightarrow> ('k, 'v) hmap \<Rightarrow> nat option"
    and due :: "instant \<Rightarrow> nat \<Rightarrow> ('k, 'v) hmap \<Rightarrow> 'k list"
  assumes nearest_law: "nearest now debounce m = nearest_expiry ready idle now debounce m"
    and due_law: "due now debounce m = map fst (filter (\<lambda>(k, v). is_due ready idle now debounce v) m)"
begin

lemma nearest_member:
  "nearest now d m = Some w \<Longrightarrow> \<exists>k v since. (k, v) \<in> set m \<and> ready v \<and> idle v = Some since \<and> w = d - (now - since)"
  by (auto simp: nearest_law nearest_expiry_def iter_min_Some map_filter_def) (metis option.collapse prod.collapse)

lemma nearest_least:
  "(k, v) \<in> set m \<Longrightarrow> ready v \<Longrightarrow> idle v = Some since \<Longrightarrow> \<exists>w. nearest now d m = Some w \<and> w \<le> d - (now - since)"
proof -
  assume e: "(k, v) \<in> set m" "ready v" "idle v = Some since"
  let ?l = "map (\<lambda>since. d - (now - since)) (List.map_filter idle (filter ready (hm_values m)))"
  have mem: "d - (now - since) \<in> set ?l" using e by (force simp: map_filter_def)
  then have "?l \<noteq> []" by auto
  then obtain w where "iter_min ?l = Some w" using iter_min_None [of ?l] by blast
  then show ?thesis using mem by (auto simp: nearest_law nearest_expiry_def iter_min_Some)
qed

lemma zero_iff_due: "0 < d \<Longrightarrow> nearest now d m = Some 0 \<longleftrightarrow> due now d m \<noteq> []"
proof
  assume "nearest now d m = Some 0" "0 < d"
  then obtain k v since where "(k, v) \<in> set m" "ready v" "idle v = Some since" "0 = d - (now - since)"
    using nearest_member by blast
  then show "due now d m \<noteq> []" by (auto simp: due_law is_due_def filter_empty_conv)
next
  assume "due now d m \<noteq> []"
  then obtain k v since where "(k, v) \<in> set m" "ready v" "idle v = Some since" "d \<le> now - since"
    by (auto simp: due_law is_due_def filter_empty_conv split: option.splits)
  then show "nearest now d m = Some 0" using nearest_least [of k v m since now d] by auto
qed

lemma not_due_before: "(\<And>w. nearest now d m = Some w \<Longrightarrow> w' < w) \<Longrightarrow> due (now + w') d m = []"
proof (rule ccontr)
  assume a: "\<And>w. nearest now d m = Some w \<Longrightarrow> w' < w" "due (now + w') d m \<noteq> []"
  then obtain k v since where e: "(k, v) \<in> set m" "ready v" "idle v = Some since" "d \<le> now + w' - since"
    by (auto simp: due_law is_due_def filter_empty_conv split: option.splits)
  obtain w where w: "nearest now d m = Some w" "w \<le> d - (now - since)" using nearest_least [OF e(1-3)] by blast
  then show False using a(1) [OF w(1)] e(4) by linarith
qed

lemma sleep_exact:
  assumes "nearest now d m = Some w" "\<forall>(k, v) \<in> set m. \<forall>since. idle v = Some since \<longrightarrow> since \<le> now"
  shows "due (now + w) d m \<noteq> []" and "w' < w \<Longrightarrow> due (now + w') d m = []"
proof -
  obtain k v since where e: "(k, v) \<in> set m" "ready v" "idle v = Some since" "w = d - (now - since)"
    using nearest_member [OF assms(1)] by blast
  then have "since \<le> now" using assms(2) by auto
  then have "is_due ready idle (now + w) d v" using e by (auto simp: is_due_def)
  then show "due (now + w) d m \<noteq> []" using e(1) by (auto simp: due_law filter_empty_conv)
  assume w': "w' < w"
  have "\<not> is_due ready idle (now + w') d v" if "(k, v) \<in> set m" for k v
  proof
    assume "is_due ready idle (now + w') d v"
    then obtain since where s: "ready v" "idle v = Some since" "d \<le> now + w' - since"
      by (auto simp: is_due_def split: option.splits)
    then have "since \<le> now" using assms(2) that by auto
    then show False using nearest_least [OF that s(1,2), of now d] assms(1) s(3) w' by auto
  qed
  then show "due (now + w') d m = []" by (auto simp: due_law filter_empty_conv)
qed

end

section \<open>Egress edges\<close>

text \<open>Instants and durations are in milliseconds.\<close>

definition EDGE_CLAIM_TIMEOUT :: nat where
  "EDGE_CLAIM_TIMEOUT = 90000"

text \<open>The answer of the reserving half of \<^verbatim>\<open>ensure_egress_edge\<close>: an edge or a build in flight is
  already there, or the slot is ours under a new generation.\<close>

datatype egress_claim = EgressExists | EgressReserved uuid

definition egress_reserve ::
  "string \<Rightarrow> string \<Rightarrow> ip_addr \<Rightarrow> string option \<Rightarrow> ip_addr \<Rightarrow> instant \<Rightarrow> orch \<Rightarrow> egress_claim \<times> orch" where
  "egress_reserve stack service initiator_ip initiator_docker proxy_ip now st = (let
       k = (initiator_ip, initiator_docker); (generation, st) = fresh st;
       edge = \<lparr>ee_setup_ms = 0, ee_generation = generation, ee_net_id = 0, ee_stack = stack,
         ee_service = service, ee_initiator_ip = initiator_ip, ee_initiator_docker = initiator_docker,
         ee_proxy_ip = proxy_ip, ee_destinations = [], ee_idle_since = None, ee_reserved_at = now\<rparr>;
       taken = st\<lparr>o_egress := hm_insert k edge (o_egress st)\<rparr>
     in case hm_get (o_egress st) k of
          None \<Rightarrow> (EgressReserved generation, taken)
        | Some e \<Rightarrow> if ee_net_id e \<noteq> 0 \<or> now - ee_reserved_at e < EDGE_CLAIM_TIMEOUT then (EgressExists, st)
            else (EgressReserved generation,
              emit (EgressReservationReclaimed service initiator_ip ((now - ee_reserved_at e) div 1000)) taken))"

definition remove_egress_edges :: "(egress_key \<Rightarrow> egress_edge \<Rightarrow> bool) \<Rightarrow> orch \<Rightarrow> egress_edge list \<times> orch" where
  "remove_egress_edges pred st = (let
       removed = map snd (filter (\<lambda>(k, e). pred k e) (o_egress st));
       st = st\<lparr>o_egress := hm_retain (\<lambda>k e. \<not> pred k e) (o_egress st)\<rparr>
     in (removed, fold (\<lambda>e st. if ee_net_id e \<noteq> 0 then history (CloseEgressEdge (ee_net_id e)) st else st) removed st))"

text \<open>The tunnel of a removed edge is torn down; a reservation has none.\<close>

definition teardown_removed_edges :: "egress_edge list \<Rightarrow> orch \<Rightarrow> orch" where
  "teardown_removed_edges removed st = fold (\<lambda>e st. if ee_net_id e = 0 then st
     else send_net_teardown (ee_initiator_ip e) (ee_initiator_docker e) (ee_proxy_ip e) None (ee_net_id e) st) removed st"

definition teardown_egress_edges_for_node :: "ip_addr \<Rightarrow> orch \<Rightarrow> orch" where
  "teardown_egress_edges_for_node node_ip st =
     (let (removed, st) = remove_egress_edges (\<lambda>_ e. ee_initiator_ip e = node_ip \<or> ee_proxy_ip e = node_ip) st
      in teardown_removed_edges removed st)"

definition teardown_egress_edges_for_missing_containers :: "ip_addr \<Rightarrow> string list \<Rightarrow> orch \<Rightarrow> orch" where
  "teardown_egress_edges_for_missing_containers node_ip live st =
     (let (removed, st) = remove_egress_edges (\<lambda>_ e. ee_initiator_ip e = node_ip \<and>
            (case ee_initiator_docker e of None \<Rightarrow> False | Some c \<Rightarrow> c \<notin> set live)) st
      in teardown_removed_edges removed st)"

text \<open>The building half of \<^verbatim>\<open>ensure_egress_edge\<close>, after the reservation: the two setup messages.
  \<^verbatim>\<open>send_control\<close> is split at its wait: the start hands the message over and registers the pending
  acknowledgement, the finish looks at what came back.\<close>

definition send_control_start ::
  "ip_addr \<Rightarrow> (msg_id \<Rightarrow> ('a \<times> net_message) option) \<Rightarrow> orch \<Rightarrow> ('a \<times> msg_id) option \<times> orch" where
  "send_control_start dest message st = (case hm_get (o_clients st) dest of
       None \<Rightarrow> (None, st)
     | Some ch \<Rightarrow> (let (mid, st) = fresh st in case message mid of
         None \<Rightarrow> (None, st)
       | Some (v, m) \<Rightarrow> (let st = st\<lparr>o_pending := o_pending st @ [mid]\<rparr>; (ok, st) = stream_send ch m st
           in if ok then (Some (v, mid), st)
              else (None, st\<lparr>o_pending := removeAll mid (o_pending st)\<rparr>))))"

definition send_control_finish :: "msg_id \<Rightarrow> orch \<Rightarrow> bool \<times> orch" where
  "send_control_finish mid st = (if mid \<in> set (o_acked st) then (True, st)
     else (False, st\<lparr>o_pending := removeAll mid (o_pending st)\<rparr>))"

definition send_net_setup_start ::
  "ip_addr \<Rightarrow> string option \<Rightarrow> u32 \<Rightarrow> ip_addr \<Rightarrow> string option \<times> string option \<Rightarrow> u32 option \<Rightarrow> key
   \<Rightarrow> u32 option \<Rightarrow> u32 option \<Rightarrow> bool \<Rightarrow> egress_role \<Rightarrow> group_transport option \<Rightarrow> orch
   \<Rightarrow> (u32 \<times> msg_id) option \<times> orch" where
  "send_net_setup_start dest remote_server_name net_id remote dockers dnat_port encryption_key
     xfrm_id dstport encrypted egress grp st =
     send_control_start dest (\<lambda>mid. setup_message (o_net_type st) mid dest remote_server_name net_id remote
       dockers dnat_port encryption_key xfrm_id dstport encrypted egress grp) st"

definition send_net_ready_start :: "ip_addr \<Rightarrow> u32 \<Rightarrow> orch \<Rightarrow> (unit \<times> msg_id) option \<times> orch" where
  "send_net_ready_start dest net_id st = send_control_start dest (\<lambda>mid. Some ((), NetReady mid net_id)) st"

datatype egress_build = PoolExhausted | Building u32 "(u32 \<times> msg_id) option" "(u32 \<times> msg_id) option"

definition egress_build_start ::
  "key \<Rightarrow> ip_addr \<Rightarrow> string option \<Rightarrow> ip_addr \<Rightarrow> uuid \<Rightarrow> orch \<Rightarrow> egress_build \<times> orch" where
  "egress_build_start generated_key initiator_ip initiator_docker proxy_ip generation st =
     (case allocate_net_id st of
        (None, st) \<Rightarrow> (PoolExhausted,
          snd (remove_egress_edges (\<lambda>k e. k = (initiator_ip, initiator_docker) \<and> ee_generation e = generation) st))
      | (Some net_id, st) \<Rightarrow> (let
          encrypted = o_encryption st;
          (transport, st) = (if encrypted \<and> o_net_type st = Vxlan \<and> initiator_ip \<noteq> proxy_ip
            then (let (t, st) = xfrm_transport generated_key initiator_ip proxy_ip st in (Some t, st)) else (None, st));
          ekey = (case transport of Some t \<Rightarrow> snd t | None \<Rightarrow> if encrypted then generated_key else replicate 32 0);
          xfrm_id = map_option fst transport;
          dockers = (initiator_docker, None);
          (proxy_res, st) = send_net_setup_start proxy_ip None net_id initiator_ip dockers None ekey xfrm_id None encrypted Intercept None st;
          (init_res, st) = send_net_setup_start initiator_ip (Some ''nullnet-egress'') net_id proxy_ip dockers None ekey xfrm_id None encrypted Steer None st
        in (Building net_id proxy_res init_res, st)))"

text \<open>Its end: \<^verbatim>\<open>ok\<close> is whether both setups and the ready message were acknowledged.  The result is
  the value of the call, \<^const>\<open>None\<close> for the error.\<close>

definition persist_edge_destinations :: "egress_key \<Rightarrow> orch \<Rightarrow> orch" where
  "persist_edge_destinations k st = (case hm_get (o_egress st) k of
       None \<Rightarrow> st
     | Some e \<Rightarrow> if ee_net_id e = 0 then st else
         fold (\<lambda>(ip, s). history (RecordEgressDestination (ee_stack e) (ee_service e) (ee_net_id e) ip
           (fst k) (snd k) (ee_proxy_ip e) (ee_setup_ms e) (ds_last_seen s) (ds_blocked s) (ds_active s)))
         (ee_destinations e) st)"

definition egress_build_finish ::
  "bool \<Rightarrow> string \<Rightarrow> ip_addr \<Rightarrow> string option \<Rightarrow> ip_addr \<Rightarrow> uuid \<Rightarrow> u32 \<Rightarrow> instant \<Rightarrow> orch \<Rightarrow> bool option \<times> orch" where
  "egress_build_finish ok service initiator_ip initiator_docker proxy_ip generation net_id now st = (let
       k = (initiator_ip, initiator_docker);
       teardown = send_net_teardown initiator_ip initiator_docker proxy_ip None net_id
     in if \<not> ok then (None, snd (remove_egress_edges (\<lambda>k' e. k' = k \<and> ee_generation e = generation)
          (teardown (emit (SetupTimeout net_id service) st))))
     else (case hm_get (o_egress st) k of
         Some e \<Rightarrow> if ee_generation e = generation
           then (Some True, persist_edge_destinations k
             (st\<lparr>o_egress := hm_insert k (e\<lparr>ee_net_id := net_id, ee_setup_ms := now - ee_reserved_at e\<rparr>) (o_egress st)\<rparr>))
           else (Some False, teardown st)
       | None \<Rightarrow> (Some False, teardown st)))"

definition record_egress_destination ::
  "ip_addr \<Rightarrow> string option \<Rightarrow> u32 \<Rightarrow> nat \<Rightarrow> nat \<Rightarrow> bool \<Rightarrow> bool \<Rightarrow> orch \<Rightarrow> orch" where
  "record_egress_destination initiator_ip initiator_docker dst_ip cnt last_seen blocked active st = (let
       k = (initiator_ip, initiator_docker);
       stat = \<lparr>ds_last_seen = last_seen, ds_count = cnt, ds_blocked = blocked, ds_active = active\<rparr>
     in case hm_get (o_egress st) k of
          None \<Rightarrow> st
        | Some e \<Rightarrow> (let
            dests = (case hm_get (ee_destinations e) dst_ip of
                Some _ \<Rightarrow> hm_insert dst_ip stat (ee_destinations e)
              | None \<Rightarrow> (let kept = (if MAX_DESTS_PER_EDGE \<le> length (ee_destinations e)
                    then (case min_by_key (\<lambda>(_, s). ds_last_seen s) (ee_destinations e) of
                        Some (oldest, _) \<Rightarrow> hm_remove oldest (ee_destinations e)
                      | None \<Rightarrow> ee_destinations e)
                    else ee_destinations e)
                  in hm_insert dst_ip stat kept));
            st = st\<lparr>o_egress := hm_insert k (e\<lparr>ee_destinations := dests\<rparr>) (o_egress st)\<rparr>
          in if ee_net_id e \<noteq> 0
             then history (RecordEgressDestination (ee_stack e) (ee_service e) (ee_net_id e) dst_ip
               initiator_ip initiator_docker (ee_proxy_ip e) (ee_setup_ms e) last_seen blocked active) st
             else st))"

definition set_egress_liveness :: "ip_addr \<Rightarrow> string option \<Rightarrow> bool \<Rightarrow> instant \<Rightarrow> orch \<Rightarrow> orch" where
  "set_egress_liveness ip docker active now st =
     st\<lparr>o_egress := hm_modify (ip, docker) (\<lambda>e. e\<lparr>ee_idle_since := if active then None else Some now\<rparr>) (o_egress st)\<rparr>"

definition reap_idle_egress_edges :: "instant \<Rightarrow> nat \<Rightarrow> orch \<Rightarrow> orch" where
  "reap_idle_egress_edges now debounce st =
     (let (removed, st) = remove_egress_edges (\<lambda>_ e. ee_net_id e \<noteq> 0 \<and>
            (case ee_idle_since e of None \<Rightarrow> False | Some since \<Rightarrow> debounce \<le> now - since)) st
      in fold (\<lambda>e. send_net_teardown (ee_initiator_ip e) (ee_initiator_docker e) (ee_proxy_ip e) None (ee_net_id e)) removed st)"

definition nearest_egress_expiry :: "instant \<Rightarrow> nat \<Rightarrow> (egress_key, egress_edge) hmap \<Rightarrow> nat option" where
  "nearest_egress_expiry now debounce edges =
     iter_min (map (\<lambda>since. debounce - (now - since))
       (List.map_filter ee_idle_since (filter (\<lambda>e. ee_net_id e \<noteq> 0) (hm_values edges))))"

definition has_outgoing_work :: "ip_addr \<Rightarrow> string \<Rightarrow> orch \<Rightarrow> bool" where
  "has_outgoing_work ip container st \<longleftrightarrow>
     (\<exists>(_, src, docker, _) \<in> set (hm_keys (o_backend st)). src = ip \<and> docker = Some container) \<or>
     hm_get (o_egress st) (ip, Some container) \<noteq> None"

section \<open>Trigger sessions\<close>

definition claim_backend_session :: "backend_key \<Rightarrow> string \<Rightarrow> orch \<Rightarrow> uuid option \<times> orch" where
  "claim_backend_session k stack st = (if hm_get (o_backend st) k \<noteq> None then (None, st)
     else (let (generation, st) = fresh st in (Some generation, st\<lparr>o_backend := hm_insert k
       \<lparr>bs_generation = generation, bs_history_id = None, bs_building = True, bs_stack = stack,
        bs_idle_since = None\<rparr> (o_backend st)\<rparr>)))"

definition finish_backend_session ::
  "backend_key \<Rightarrow> uuid \<Rightarrow> u32 \<Rightarrow> string \<Rightarrow> nat option \<Rightarrow> orch \<Rightarrow> pending_backend_history option \<times> orch" where
  "finish_backend_session k generation net_id destination setup_ms st = (case hm_get (o_backend st) k of
       None \<Rightarrow> (None, st)
     | Some s \<Rightarrow> if bs_generation s \<noteq> generation then (None, st)
         else (Some \<lparr>ph_key = k, ph_generation = generation, ph_stack = bs_stack s, ph_net_id = net_id,
                 ph_destination = destination, ph_setup_ms = setup_ms\<rparr>,
               st\<lparr>o_backend := hm_insert k (s\<lparr>bs_building := False\<rparr>) (o_backend st)\<rparr>))"

text \<open>\<^verbatim>\<open>history_id\<close> is what the session store answers to the opened row.\<close>

definition persist_backend_session :: "uuid option \<Rightarrow> pending_backend_history \<Rightarrow> orch \<Rightarrow> orch" where
  "persist_backend_session history_id p st = (let
       st = history (OpenBackend (ph_stack p) (ph_key p) (ph_net_id p) (ph_destination p) (ph_setup_ms p)) st
     in case hm_get (o_backend st) (ph_key p) of
          Some s \<Rightarrow> if bs_generation s = ph_generation p
            then st\<lparr>o_backend := hm_insert (ph_key p) (s\<lparr>bs_history_id := history_id\<rparr>) (o_backend st)\<rparr>
            else history (CloseBackend history_id) st
        | None \<Rightarrow> history (CloseBackend history_id) st)"

definition cancel_backend_session :: "backend_key \<Rightarrow> uuid \<Rightarrow> orch \<Rightarrow> orch" where
  "cancel_backend_session k generation st = (case hm_get (o_backend st) k of
       Some s \<Rightarrow> if bs_generation s = generation
         then history (CloseBackend (bs_history_id s)) (st\<lparr>o_backend := hm_remove k (o_backend st)\<rparr>) else st
     | None \<Rightarrow> st)"

definition cancel_backend_build :: "backend_key \<Rightarrow> orch \<Rightarrow> bool \<times> orch" where
  "cancel_backend_build k st = (case hm_get (o_backend st) k of
       Some s \<Rightarrow> if bs_building s then (True, st\<lparr>o_backend := hm_remove k (o_backend st)\<rparr>) else (False, st)
     | None \<Rightarrow> (False, st))"

definition set_backend_liveness :: "backend_key \<Rightarrow> bool \<Rightarrow> instant \<Rightarrow> orch \<Rightarrow> orch" where
  "set_backend_liveness k active now st =
     st\<lparr>o_backend := hm_modify k (\<lambda>s. s\<lparr>bs_idle_since := if active then None else Some now\<rparr>) (o_backend st)\<rparr>"

definition due_backend_sessions :: "instant \<Rightarrow> nat \<Rightarrow> (backend_key, backend_session) hmap \<Rightarrow> backend_key list" where
  "due_backend_sessions now debounce m = map fst (filter (\<lambda>(_, s). \<not> bs_building s \<and>
     (case bs_idle_since s of None \<Rightarrow> False | Some since \<Rightarrow> debounce \<le> now - since)) m)"

fun take_sessions :: "backend_key list \<Rightarrow> (backend_key, backend_session) hmap
    \<Rightarrow> (backend_key \<times> string \<times> uuid option) list \<times> (backend_key, backend_session) hmap" where
  "take_sessions [] m = ([], m)"
| "take_sessions (k # ks) m = (case hm_get m k of
     None \<Rightarrow> take_sessions ks m
   | Some s \<Rightarrow> (let (rest, m') = take_sessions ks (hm_remove k m) in ((k, bs_stack s, bs_history_id s) # rest, m')))"

definition take_due_backend_sessions :: "instant \<Rightarrow> nat \<Rightarrow> orch \<Rightarrow> (backend_key \<times> string \<times> uuid option) list \<times> orch" where
  "take_due_backend_sessions now debounce st =
     (let (expired, m) = take_sessions (due_backend_sessions now debounce (o_backend st)) (o_backend st)
      in (expired, st\<lparr>o_backend := m\<rparr>))"

definition nearest_backend_expiry :: "instant \<Rightarrow> nat \<Rightarrow> (backend_key, backend_session) hmap \<Rightarrow> nat option" where
  "nearest_backend_expiry now debounce m =
     iter_min (map (\<lambda>since. debounce - (now - since))
       (List.map_filter bs_idle_since (filter (\<lambda>s. \<not> bs_building s) (hm_values m))))"

definition forget_backend_sessions :: "string \<Rightarrow> ip_addr \<Rightarrow> string option \<Rightarrow> u16 list \<Rightarrow> orch \<Rightarrow> orch" where
  "forget_backend_sessions service ip docker ports st =
     (let (removed, m) = take_sessions (map (\<lambda>port. (service, ip, docker, port)) ports) (o_backend st)
      in fold (\<lambda>(_, _, history_id). history (CloseBackend history_id)) removed (st\<lparr>o_backend := m\<rparr>))"

section \<open>Reaping\<close>

definition due_egress_edges :: "instant \<Rightarrow> nat \<Rightarrow> (egress_key, egress_edge) hmap \<Rightarrow> egress_key list" where
  "due_egress_edges now debounce m = map fst (filter (\<lambda>(_, e). ee_net_id e \<noteq> 0 \<and>
     (case ee_idle_since e of None \<Rightarrow> False | Some since \<Rightarrow> debounce \<le> now - since)) m)"

interpretation egress_reaper: reaper "\<lambda>e. ee_net_id e \<noteq> 0" ee_idle_since nearest_egress_expiry due_egress_edges
  by unfold_locales
    (simp_all add: nearest_egress_expiry_def nearest_expiry_def due_egress_edges_def is_due_def)

interpretation backend_reaper: reaper "\<lambda>s. \<not> bs_building s" bs_idle_since nearest_backend_expiry due_backend_sessions
  by unfold_locales
    (simp_all add: nearest_backend_expiry_def nearest_expiry_def due_backend_sessions_def is_due_def)

lemma fold_history_egress: "o_egress (fold (\<lambda>e st. if ee_net_id e \<noteq> 0 then history (CloseEgressEdge (ee_net_id e)) st else st) es st) = o_egress st"
  by (induction es arbitrary: st) (auto simp: history_def)

lemma removed_edges_state: "o_egress (snd (remove_egress_edges pred st)) = hm_retain (\<lambda>k e. \<not> pred k e) (o_egress st)"
  by (simp add: remove_egress_edges_def fold_history_egress Let_def)

lemma teardown_egress [simp]: "o_egress (send_net_teardown_kind c cd s sd i grp st) = o_egress st"
  by (auto simp: send_net_teardown_kind_def teardown_endpoint_def fresh_def free_net_id_def
      spawn_deferred_net_id_free_def Let_def split: option.splits prod.splits)

lemma fold_teardown_egress:
  "o_egress (fold (\<lambda>e. send_net_teardown (ee_initiator_ip e) (ee_initiator_docker e) (ee_proxy_ip e) None (ee_net_id e)) es st) = o_egress st"
  by (induction es arbitrary: st) (simp_all add: send_net_teardown_def)

lemma reap_egress_state: "o_egress (reap_idle_egress_edges now d st) =
   filter (\<lambda>(k, e). \<not> is_due (\<lambda>e. ee_net_id e \<noteq> 0) ee_idle_since now d e) (o_egress st)"
  using removed_edges_state [of "\<lambda>_. is_due (\<lambda>e. ee_net_id e \<noteq> 0) ee_idle_since now d" st]
  by (simp add: reap_idle_egress_edges_def fold_teardown_egress is_due_def [abs_def] hm_retain_def split_beta)

lemma reap_egress_unchanged: "o_egress (reap_idle_egress_edges now d st) = o_egress st \<longleftrightarrow> due_egress_edges now d (o_egress st) = []"
  unfolding reap_egress_state filter_id_conv
  by (auto simp: due_egress_edges_def is_due_def filter_empty_conv)

lemma take_sessions_spec:
  assumes "hm_inv m" "distinct ks"
  shows "take_sessions ks m = (List.map_filter (\<lambda>k. map_option (\<lambda>s. (k, bs_stack s, bs_history_id s)) (hm_get m k)) ks,
    filter (\<lambda>e. fst e \<notin> set ks) m)"
  using assms
proof (induction ks m rule: take_sessions.induct)
  case (2 k ks m)
  show ?case
  proof (cases "hm_get m k")
    case None
    then have "\<forall>e \<in> set m. fst e \<noteq> k" by (auto simp: hm_get_None_iff)
    then have "filter (\<lambda>e. fst e \<noteq> k \<and> fst e \<notin> set ks) m = filter (\<lambda>e. fst e \<notin> set ks) m"
      by (intro filter_cong) auto
    then show ?thesis using 2 None by (simp add: map_filter_def)
  next
    case (Some s)
    have "List.map_filter (\<lambda>j. map_option (\<lambda>s. (j, bs_stack s, bs_history_id s)) (hm_get (hm_remove k m) j)) ks
        = List.map_filter (\<lambda>j. map_option (\<lambda>s. (j, bs_stack s, bs_history_id s)) (hm_get m j)) ks"
      unfolding map_filter_def using 2(4) by (intro map_cong filter_cong) auto
    moreover have "filter (\<lambda>e. fst e \<notin> set ks) (hm_remove k m) = filter (\<lambda>e. fst e \<noteq> k \<and> fst e \<notin> set ks) m"
      by (simp add: hm_remove_def conj_commute)
    ultimately show ?thesis using 2(2) [OF Some] 2(3,4) Some by (simp add: map_filter_simps)
  qed
qed (simp add: map_filter_simps)

text \<open>The sleep the timeout loop computes for egress edges is exact: reaping after that sleep
  removes at least one edge, reaping any earlier removes none, so the loop neither oversleeps an
  expired edge nor spins on one it would not reap.\<close>

theorem egress_sleep_exact:
  assumes "nearest_egress_expiry now d (o_egress st) = Some w"
    and "\<forall>(k, e) \<in> set (o_egress st). \<forall>since. ee_idle_since e = Some since \<longrightarrow> since \<le> now"
  shows "o_egress (reap_idle_egress_edges (now + w) d st) \<noteq> o_egress st \<and>
    (\<forall>w' < w. o_egress (reap_idle_egress_edges (now + w') d st) = o_egress st)"
  using egress_reaper.sleep_exact [OF assms] by (simp add: reap_egress_unchanged)

definition demo_edge :: "u32 \<Rightarrow> instant option \<Rightarrow> egress_edge" where
  "demo_edge i idle = \<lparr>ee_setup_ms = 0, ee_generation = 0, ee_net_id = i, ee_stack = ''s'', ee_service = ''a'',
     ee_initiator_ip = V4 1, ee_initiator_docker = None, ee_proxy_ip = V4 2, ee_destinations = [],
     ee_idle_since = idle, ee_reserved_at = 0\<rparr>"

theorem egress_sleep_exact_witness:
  "o_egress (reap_idle_egress_edges 40 30 ((orch_new Vxlan False False [])\<lparr>o_egress := [((V4 1, None), demo_edge 101 (Some 10))]\<rparr>))
     \<noteq> [((V4 1, None), demo_edge 101 (Some 10))]"
  using egress_sleep_exact [of 20 30 "(orch_new Vxlan False False [])\<lparr>o_egress := [((V4 1, None), demo_edge 101 (Some 10))]\<rparr>" 20]
  by (simp add: nearest_egress_expiry_def demo_edge_def map_filter_def iter_min_def)

text \<open>Reaping trigger sessions takes every session that is built and has been idle for the
  debounce exactly once, leaves all the others as they are, and finds nothing to take when it
  is repeated, however many duplicate close reports arrived in between.\<close>

theorem backend_sessions_taken_once:
  assumes "hm_inv (o_backend st)" "take_due_backend_sessions now d st = (expired, st')"
  shows "distinct (map fst expired) \<and>
    (\<forall>k. k \<in> set (map fst expired) \<longleftrightarrow> (\<exists>s since. hm_get (o_backend st) k = Some s \<and> \<not> bs_building s \<and>
       bs_idle_since s = Some since \<and> d \<le> now - since)) \<and>
    (\<forall>k. hm_get (o_backend st') k = (if k \<in> set (map fst expired) then None else hm_get (o_backend st) k)) \<and>
    fst (take_due_backend_sessions now d st') = []"
proof -
  define due where "due = due_backend_sessions now d (o_backend st)"
  have dist: "distinct due"
    using assms(1) distinct_map_filter [of fst "o_backend st"] by (simp add: due_def due_backend_sessions_def hm_inv_def)
  have due_iff: "k \<in> set due \<longleftrightarrow> (\<exists>s since. hm_get (o_backend st) k = Some s \<and> \<not> bs_building s \<and>
       bs_idle_since s = Some since \<and> d \<le> now - since)" for k
  proof -
    have "k \<in> set due \<longleftrightarrow> (\<exists>s. (k, s) \<in> set (o_backend st) \<and> \<not> bs_building s \<and>
        (case bs_idle_since s of None \<Rightarrow> False | Some since \<Rightarrow> d \<le> now - since))"
      unfolding due_def due_backend_sessions_def by (force simp del: split_paired_Ex)
    then show ?thesis by (auto simp: hm_get_in_set [OF assms(1)] split: option.splits)
  qed
  note spec = take_sessions_spec [OF assms(1) dist]
  have e: "expired = List.map_filter (\<lambda>k. map_option (\<lambda>s. (k, bs_stack s, bs_history_id s)) (hm_get (o_backend st) k)) due"
    and m: "o_backend st' = filter (\<lambda>e. fst e \<notin> set due) (o_backend st)"
    using assms(2) spec by (auto simp: take_due_backend_sessions_def due_def)
  have all: "hm_get (o_backend st) k \<noteq> None" if "k \<in> set due" for k using due_iff that by auto
  have "map fst expired = due" unfolding e map_filter_def using all
    by (simp add: comp_def) (rule map_idI, auto simp: image_iff filter_empty_conv dest!: all)
  moreover have get: "hm_get (o_backend st') k = (if k \<in> set due then None else hm_get (o_backend st) k)" for k
    unfolding m by (rule hm_get_without)
  moreover have "due_backend_sessions now d (o_backend st') = []"
    unfolding due_backend_sessions_def m due_def by (auto simp: filter_empty_conv)
  then have "fst (take_due_backend_sessions now d st') = []" by (simp add: take_due_backend_sessions_def)
  ultimately show ?thesis using dist due_iff by simp
qed

definition demo_session :: "bool \<Rightarrow> instant option \<Rightarrow> backend_session" where
  "demo_session building idle = \<lparr>bs_generation = 0, bs_history_id = Some 5, bs_building = building,
     bs_stack = ''s'', bs_idle_since = idle\<rparr>"

theorem backend_sessions_taken_once_witness:
  "map fst (fst (take_due_backend_sessions 50 30 ((orch_new Vxlan False False [])\<lparr>o_backend :=
       [((''a'', V4 1, None, 80), demo_session False (Some 10)), ((''b'', V4 1, None, 81), demo_session True (Some 10))]\<rparr>)))
     = [(''a'', V4 1, None, 80)]
   \<and> distinct (map fst (fst (take_due_backend_sessions 50 30 ((orch_new Vxlan False False [])\<lparr>o_backend :=
       [((''a'', V4 1, None, 80), demo_session False (Some 10)), ((''b'', V4 1, None, 81), demo_session True (Some 10))]\<rparr>))))"
proof -
  let ?st = "(orch_new Vxlan False False [])\<lparr>o_backend :=
       [((''a'', V4 1, None, 80), demo_session False (Some 10)), ((''b'', V4 1, None, 81), demo_session True (Some 10))]\<rparr>"
  obtain e st' where t: "take_due_backend_sessions 50 30 ?st = (e, st')" by force
  have "hm_inv (o_backend ?st)" by (simp add: hm_inv_def)
  from backend_sessions_taken_once [OF this t] have "distinct (map fst e)" by blast
  moreover have "map fst (fst (take_due_backend_sessions 50 30 ?st)) = [(''a'', V4 1, None, 80)]"
    by (simp add: take_due_backend_sessions_def due_backend_sessions_def demo_session_def hm_get_def)
  ultimately show ?thesis using t by simp
qed

section \<open>Destinations of an edge\<close>

definition dests_inv :: "orch \<Rightarrow> bool" where
  "dests_inv st \<longleftrightarrow> hm_inv (o_egress st) \<and>
     (\<forall>(k, e) \<in> set (o_egress st). hm_inv (ee_destinations e) \<and> length (ee_destinations e) \<le> MAX_DESTS_PER_EDGE)"

lemma length_hm_insert_le: "length (hm_insert k v m) \<le> Suc (length m)"
  by (induction m) auto

lemma length_hm_insert_present: "hm_get m k \<noteq> None \<Longrightarrow> length (hm_insert k v m) = length m"
  by (induction m) (auto simp: hm_get_def split: if_splits)

lemma length_hm_remove_present: "hm_get m k \<noteq> None \<Longrightarrow> length (hm_remove k m) < length m"
  unfolding hm_remove_def
  by (rule length_filter_less [of "(k, the (hm_get m k))"]) (auto dest: hm_get_SomeD)

text \<open>The eviction step on its own: the new table, given the table without the destination.\<close>

definition evicted :: "(u32, dest_stat) hmap \<Rightarrow> (u32, dest_stat) hmap" where
  "evicted m = (if MAX_DESTS_PER_EDGE \<le> length m then
     (case min_by_key (\<lambda>(_, s). ds_last_seen s) m of Some (oldest, _) \<Rightarrow> hm_remove oldest m | None \<Rightarrow> m) else m)"

lemma evicted_spec:
  assumes "hm_inv m" "length m \<le> MAX_DESTS_PER_EDGE"
  shows "hm_inv (evicted m) \<and> length (evicted m) < MAX_DESTS_PER_EDGE \<and>
    (\<forall>ip s. hm_get m ip = Some s \<longrightarrow> hm_get (evicted m) ip = Some s \<or>
       (length m = MAX_DESTS_PER_EDGE \<and> (\<forall>ip' s'. hm_get m ip' = Some s' \<longrightarrow> ds_last_seen s \<le> ds_last_seen s')))"
proof (cases "MAX_DESTS_PER_EDGE \<le> length m")
  case False
  then show ?thesis using assms by (simp add: evicted_def)
next
  case True
  then have "m \<noteq> []" by (auto simp: MAX_DESTS_PER_EDGE_def)
  then obtain o' so where o: "min_by_key (\<lambda>(_, s). ds_last_seen s) m = Some (o', so)"
    using min_by_key_None [of "\<lambda>(_, s). ds_last_seen s" m] by fastforce
  have mem: "(o', so) \<in> set m" using min_by_key_in [OF o] .
  have least: "ds_last_seen so \<le> ds_last_seen s'" if "hm_get m ip' = Some s'" for ip' s'
    using min_by_key_least [OF o hm_get_SomeD [OF that]] by simp
  have get: "hm_get m o' = Some so" using mem assms(1) by (simp add: hm_get_in_set)
  have "evicted m = hm_remove o' m" using True o by (simp add: evicted_def)
  then show ?thesis using assms True get least length_hm_remove_present [of m o'] by auto
qed

lemma record_state:
  assumes "hm_get (o_egress st) (ip, docker) = Some e"
  shows "o_egress (record_egress_destination ip docker dst cnt last_seen blocked active st) =
    hm_insert (ip, docker) (e\<lparr>ee_destinations := hm_insert dst
      \<lparr>ds_last_seen = last_seen, ds_count = cnt, ds_blocked = blocked, ds_active = active\<rparr>
      (if hm_get (ee_destinations e) dst = None then evicted (ee_destinations e) else ee_destinations e)\<rparr>) (o_egress st)"
  using assms
  by (simp add: record_egress_destination_def evicted_def history_def Let_def split: option.splits)

text \<open>A destination report never grows an edge's table beyond its bound, stores the reported
  destination with exactly the reported statistics, keeps every other destination of the edge
  unless the table was full and that destination was the least recently seen one, and touches no
  other edge.\<close>

theorem destination_report_bounded:
  assumes "dests_inv st" "hm_get (o_egress st) (ip, docker) = Some e"
  shows "dests_inv (record_egress_destination ip docker dst cnt last_seen blocked active st) \<and>
    (\<exists>e'. hm_get (o_egress (record_egress_destination ip docker dst cnt last_seen blocked active st)) (ip, docker) = Some e' \<and>
      hm_get (ee_destinations e') dst = Some \<lparr>ds_last_seen = last_seen, ds_count = cnt, ds_blocked = blocked, ds_active = active\<rparr> \<and>
      (\<forall>other s. other \<noteq> dst \<longrightarrow> hm_get (ee_destinations e) other = Some s \<longrightarrow>
         hm_get (ee_destinations e') other = Some s \<or>
         (length (ee_destinations e) = MAX_DESTS_PER_EDGE \<and>
          (\<forall>ip' s'. hm_get (ee_destinations e) ip' = Some s' \<longrightarrow> ds_last_seen s \<le> ds_last_seen s')))) \<and>
    (\<forall>k. k \<noteq> (ip, docker) \<longrightarrow>
      hm_get (o_egress (record_egress_destination ip docker dst cnt last_seen blocked active st)) k = hm_get (o_egress st) k)"
proof -
  define base where "base = (if hm_get (ee_destinations e) dst = None then evicted (ee_destinations e) else ee_destinations e)"
  define stat where "stat = \<lparr>ds_last_seen = last_seen, ds_count = cnt, ds_blocked = blocked, ds_active = active\<rparr>"
  have inv: "hm_inv (o_egress st)" using assms(1) by (simp add: dests_inv_def)
  have mem: "((ip, docker), e) \<in> set (o_egress st)" using hm_get_SomeD [OF assms(2)] .
  then have d: "hm_inv (ee_destinations e)" "length (ee_destinations e) \<le> MAX_DESTS_PER_EDGE"
    using assms(1) by (auto simp: dests_inv_def)
  note ev = evicted_spec [OF d]
  have b: "hm_inv base" "length (hm_insert dst stat base) \<le> MAX_DESTS_PER_EDGE"
    using ev d length_hm_insert_le [of dst stat base] length_hm_insert_present [of base dst stat]
    by (auto simp: base_def split: if_splits)
  have st: "o_egress (record_egress_destination ip docker dst cnt last_seen blocked active st)
      = hm_insert (ip, docker) (e\<lparr>ee_destinations := hm_insert dst stat base\<rparr>) (o_egress st)"
    using record_state [OF assms(2)] by (simp add: base_def stat_def)
  have "dests_inv (record_egress_destination ip docker dst cnt last_seen blocked active st)"
    using assms(1) b inv by (auto simp: dests_inv_def st hm_insert_set)
  moreover have "hm_get (ee_destinations e) other = Some s \<Longrightarrow> other \<noteq> dst \<Longrightarrow>
      hm_get (hm_insert dst stat base) other = Some s \<or> (length (ee_destinations e) = MAX_DESTS_PER_EDGE \<and>
      (\<forall>ip' s'. hm_get (ee_destinations e) ip' = Some s' \<longrightarrow> ds_last_seen s \<le> ds_last_seen s'))" for other s
    using ev by (simp add: base_def)
  ultimately show ?thesis unfolding st by (simp add: stat_def)
qed

theorem destination_report_bounded_witness:
  "\<exists>e'. hm_get (o_egress (record_egress_destination (V4 1) None 8 3 99 False True
       ((orch_new Vxlan False False [])\<lparr>o_egress := [((V4 1, None), demo_edge 101 None)]\<rparr>))) (V4 1, None) = Some e' \<and>
     hm_get (ee_destinations e') 8 = Some \<lparr>ds_last_seen = 99, ds_count = 3, ds_blocked = False, ds_active = True\<rparr>"
proof -
  let ?st = "(orch_new Vxlan False False [])\<lparr>o_egress := [((V4 1, None), demo_edge 101 None)]\<rparr>"
  have "dests_inv ?st" by (simp add: dests_inv_def hm_inv_def demo_edge_def)
  moreover have "hm_get (o_egress ?st) (V4 1, None) = Some (demo_edge 101 None)" by (simp add: hm_get_def)
  ultimately show ?thesis using destination_report_bounded [of ?st "V4 1" None] by blast
qed

end
