(* ===== verification/Filter_Policy.thy ===== *)
theory Filter_Policy
  imports Prelude
begin

text \<open>
  The per-service traffic filter (nullnet-server, \<^verbatim>\<open>services/firewall.rs\<close>): validation of a policy
  and the verdict on an address.  The postfix engine \<^verbatim>\<open>rpn-predicate-interpreter\<close> and the CIDR
  type \<^verbatim>\<open>ipnetwork\<close> are libraries: their functions are arguments, and \<^verbatim>\<open>rpn_law\<close> states what the
  verdict relies on, that a well-formed postfix program is accepted and evaluated on a stack.
  Strings are ASCII: \<^verbatim>\<open>to_uppercase\<close> is the ASCII case mapping.
\<close>

section \<open>Rules and policies\<close>

datatype direction = Egress | Ingress

datatype filter_field = Country | Org | SrcIp | DstIp

datatype filter_condition = Equal | NotEqual | Contains | NotContains

record filter_rule =
  fr_field :: filter_field
  fr_condition :: filter_condition
  fr_values :: "string list"

datatype filter_policy =
    PolicyNone
  | Block "filter_rule list list"
  | Allow "filter_rule list list"

record geo_info =
  geo_country_code :: "string option"
  geo_org :: "string option"

record filter_context =
  fc_ip :: u32
  fc_geo :: "geo_info option"

definition upcase :: "char \<Rightarrow> char" where
  "upcase c = (if 97 \<le> (of_char c :: nat) \<and> (of_char c :: nat) \<le> 122 then char_of ((of_char c :: nat) - 32) else c)"

definition to_uppercase :: "string \<Rightarrow> string" where
  "to_uppercase s = map upcase s"

definition eq_ignore_ascii_case :: "string \<Rightarrow> string \<Rightarrow> bool" where
  "eq_ignore_ascii_case a b \<longleftrightarrow> map upcase a = map upcase b"

definition compare_str :: "filter_condition \<Rightarrow> string \<Rightarrow> string list \<Rightarrow> bool" where
  "compare_str cond left right = (case cond of
       Equal \<Rightarrow> list_ex (\<lambda>v. eq_ignore_ascii_case v left) right
     | NotEqual \<Rightarrow> list_all (\<lambda>v. \<not> eq_ignore_ascii_case v left) right
     | Contains \<Rightarrow> False
     | NotContains \<Rightarrow> False)"

definition compare_ip ::
  "(string \<Rightarrow> 'net option) \<Rightarrow> ('net \<Rightarrow> ip_addr \<Rightarrow> bool) \<Rightarrow> filter_condition \<Rightarrow> u32 \<Rightarrow> string list \<Rightarrow> bool" where
  "compare_ip net_of_str net_contains cond ip values = (let nets = List.map_filter net_of_str values in case cond of
       Contains \<Rightarrow> list_ex (\<lambda>n. net_contains n (V4 ip)) nets
     | NotContains \<Rightarrow> list_all (\<lambda>n. \<not> net_contains n (V4 ip)) nets
     | Equal \<Rightarrow> False
     | NotEqual \<Rightarrow> False)"

definition evaluate_predicate ::
  "(string \<Rightarrow> 'net option) \<Rightarrow> ('net \<Rightarrow> ip_addr \<Rightarrow> bool) \<Rightarrow> filter_context \<Rightarrow> filter_rule \<Rightarrow> bool" where
  "evaluate_predicate net_of_str net_contains ctx r = (case fr_field r of
       Country \<Rightarrow> (case Option.bind (fc_geo ctx) geo_country_code of
           None \<Rightarrow> False | Some c \<Rightarrow> compare_str (fr_condition r) c (fr_values r))
     | Org \<Rightarrow> (case Option.bind (fc_geo ctx) geo_org of
           None \<Rightarrow> False | Some c \<Rightarrow> compare_str (fr_condition r) c (fr_values r))
     | SrcIp \<Rightarrow> compare_ip net_of_str net_contains (fr_condition r) (fc_ip ctx) (fr_values r)
     | DstIp \<Rightarrow> compare_ip net_of_str net_contains (fr_condition r) (fc_ip ctx) (fr_values r))"

section \<open>Validation\<close>

datatype filter_error =
    EmptyRuleGroup
  | NoValues
  | SrcIpOnEgress
  | DstIpOnIngress
  | InvalidCidr string

text \<open>The checks of one rule, in the order of the code, and its normalised form.\<close>

definition validate_rule ::
  "(string \<Rightarrow> 'net option) \<Rightarrow> direction \<Rightarrow> filter_rule \<Rightarrow> filter_error + filter_rule" where
  "validate_rule net_of_str dir r =
     (if fr_values r = [] then Inl NoValues
      else if fr_field r = SrcIp \<and> dir = Egress then Inl SrcIpOnEgress
      else if fr_field r = DstIp \<and> dir = Ingress then Inl DstIpOnIngress
      else case fr_field r of
          Country \<Rightarrow> Inr (r\<lparr>fr_values := map to_uppercase (fr_values r)\<rparr>)
        | Org \<Rightarrow> Inr r
        | _ \<Rightarrow> (case find (\<lambda>v. net_of_str v = None) (fr_values r) of
              Some v \<Rightarrow> Inl (InvalidCidr v) | None \<Rightarrow> Inr r))"

fun try_map :: "('a \<Rightarrow> 'e + 'b) \<Rightarrow> 'a list \<Rightarrow> 'e + 'b list" where
  "try_map f [] = Inr []"
| "try_map f (x # xs) = (case f x of Inl e \<Rightarrow> Inl e | Inr y \<Rightarrow>
     (case try_map f xs of Inl e \<Rightarrow> Inl e | Inr ys \<Rightarrow> Inr (y # ys)))"

definition validate_groups ::
  "(string \<Rightarrow> 'net option) \<Rightarrow> direction \<Rightarrow> filter_rule list list \<Rightarrow> filter_error + filter_rule list list" where
  "validate_groups net_of_str dir groups =
     (if groups = [] \<or> list_ex (\<lambda>g. g = []) groups then Inl EmptyRuleGroup
      else try_map (try_map (validate_rule net_of_str dir)) groups)"

definition validate ::
  "(string \<Rightarrow> 'net option) \<Rightarrow> direction \<Rightarrow> filter_policy \<Rightarrow> filter_error + filter_policy" where
  "validate net_of_str dir p = (case p of
       PolicyNone \<Rightarrow> Inr PolicyNone
     | Block groups \<Rightarrow> map_sum id Block (validate_groups net_of_str dir groups)
     | Allow groups \<Rightarrow> map_sum id Allow (validate_groups net_of_str dir groups))"

section \<open>Evaluation\<close>

datatype rpn_operator = And | Or

datatype 'p rpn_token = Predicate 'p | Operator rpn_operator

fun group_tokens :: "nat \<Rightarrow> 'p list \<Rightarrow> 'p rpn_token list" where
  "group_tokens ri [] = []"
| "group_tokens ri (r # rs) = Predicate r # (if 0 < ri then [Operator And] else []) @ group_tokens (Suc ri) rs"

fun postfix_tokens :: "nat \<Rightarrow> 'p list list \<Rightarrow> 'p rpn_token list option" where
  "postfix_tokens gi [] = Some []"
| "postfix_tokens gi (g # gs) = (if g = [] then None else
     map_option (\<lambda>ts. group_tokens 0 g @ (if 0 < gi then [Operator Or] else []) @ ts) (postfix_tokens (Suc gi) gs))"

definition to_postfix :: "('p rpn_token list \<Rightarrow> 'e option) \<Rightarrow> 'p list list \<Rightarrow> 'e option" where
  "to_postfix from_tokens groups = Option.bind (postfix_tokens 0 groups) from_tokens"

definition filter_matches ::
  "(filter_rule rpn_token list \<Rightarrow> 'e option) \<Rightarrow> ('e \<Rightarrow> (filter_rule \<Rightarrow> bool) \<Rightarrow> bool)
   \<Rightarrow> (filter_rule \<Rightarrow> bool) \<Rightarrow> filter_rule list list \<Rightarrow> bool" where
  "filter_matches from_tokens evaluate ev groups = (case to_postfix from_tokens groups of
     None \<Rightarrow> False | Some e \<Rightarrow> evaluate e ev)"

definition allows ::
  "(filter_rule rpn_token list \<Rightarrow> 'e option) \<Rightarrow> ('e \<Rightarrow> (filter_rule \<Rightarrow> bool) \<Rightarrow> bool)
   \<Rightarrow> (string \<Rightarrow> 'net option) \<Rightarrow> ('net \<Rightarrow> ip_addr \<Rightarrow> bool) \<Rightarrow> filter_policy \<Rightarrow> filter_context \<Rightarrow> bool" where
  "allows from_tokens evaluate net_of_str net_contains p ctx = (case p of
       PolicyNone \<Rightarrow> True
     | Block groups \<Rightarrow> \<not> filter_matches from_tokens evaluate (evaluate_predicate net_of_str net_contains ctx) groups
     | Allow groups \<Rightarrow> filter_matches from_tokens evaluate (evaluate_predicate net_of_str net_contains ctx) groups)"

section \<open>The postfix engine\<close>

text \<open>Stack semantics of a postfix program, and the law the engine follows.\<close>

fun rpn_exec :: "('p \<Rightarrow> bool) \<Rightarrow> 'p rpn_token list \<Rightarrow> bool list \<Rightarrow> bool list option" where
  "rpn_exec ev [] stk = Some stk"
| "rpn_exec ev (Predicate p # ts) stk = rpn_exec ev ts (ev p # stk)"
| "rpn_exec ev (Operator And # ts) (b # a # stk) = rpn_exec ev ts ((a \<and> b) # stk)"
| "rpn_exec ev (Operator Or # ts) (b # a # stk) = rpn_exec ev ts ((a \<or> b) # stk)"
| "rpn_exec ev (Operator _ # ts) _ = None"

definition rpn_law :: "('p rpn_token list \<Rightarrow> 'e option) \<Rightarrow> ('e \<Rightarrow> ('p \<Rightarrow> bool) \<Rightarrow> bool) \<Rightarrow> bool" where
  "rpn_law from_tokens evaluate \<longleftrightarrow> (\<forall>ts ev b. rpn_exec ev ts [] = Some [b] \<longrightarrow>
     (\<exists>e. from_tokens ts = Some e \<and> evaluate e ev = b))"

lemma rpn_exec_append: "rpn_exec ev (ts @ us) stk = Option.bind (rpn_exec ev ts stk) (rpn_exec ev us)"
  by (induction ev ts stk rule: rpn_exec.induct) simp_all

lemma rpn_exec_group_tail:
  "rpn_exec ev (group_tokens (Suc n) rs) (b # stk) = Some ((b \<and> list_all ev rs) # stk)"
  by (induction rs arbitrary: n b) simp_all

lemma rpn_exec_group: "g \<noteq> [] \<Longrightarrow> rpn_exec ev (group_tokens 0 g) stk = Some (list_all ev g # stk)"
  by (cases g) (simp_all add: rpn_exec_group_tail)

lemma rpn_exec_tail:
  "postfix_tokens (Suc n) gs = Some ts \<Longrightarrow> rpn_exec ev ts [b] = Some [b \<or> list_ex (list_all ev) gs]"
proof (induction gs arbitrary: n ts b)
  case (Cons g gs)
  then obtain us where us: "g \<noteq> []" "postfix_tokens (Suc (Suc n)) gs = Some us"
    "ts = group_tokens 0 g @ Operator Or # us" by (auto split: if_splits)
  show ?case using Cons.IH [OF us(2)] us(1,3) by (simp add: rpn_exec_append rpn_exec_group disj_assoc)
qed simp

lemma postfix_tokens_Some: "\<forall>g \<in> set gs. g \<noteq> [] \<Longrightarrow> \<exists>ts. postfix_tokens n gs = Some ts"
  by (induction gs arbitrary: n) auto

lemma rpn_exec_groups:
  assumes "gs \<noteq> []" "\<forall>g \<in> set gs. g \<noteq> []"
  shows "\<exists>ts. postfix_tokens 0 gs = Some ts \<and> (\<forall>ev. rpn_exec ev ts [] = Some [list_ex (list_all ev) gs])"
proof -
  obtain g gs' where gs: "gs = g # gs'" using assms(1) by (cases gs) auto
  then obtain us where us: "postfix_tokens (Suc 0) gs' = Some us"
    using postfix_tokens_Some [of gs' "Suc 0"] assms(2) by auto
  have "rpn_exec ev (group_tokens 0 g @ us) [] = Some [list_ex (list_all ev) gs]" for ev
    using rpn_exec_tail [OF us] assms(2) by (simp add: gs rpn_exec_append rpn_exec_group)
  moreover have "postfix_tokens 0 gs = Some (group_tokens 0 g @ us)" using us assms(2) gs by simp
  ultimately show ?thesis by blast
qed

lemma filter_matches_groups:
  assumes "rpn_law from_tokens evaluate" "gs \<noteq> []" "\<forall>g \<in> set gs. g \<noteq> []"
  shows "filter_matches from_tokens evaluate ev gs \<longleftrightarrow> (\<exists>g \<in> set gs. \<forall>r \<in> set g. ev r)"
proof -
  obtain ts where ts: "postfix_tokens 0 gs = Some ts" "\<forall>ev. rpn_exec ev ts [] = Some [list_ex (list_all ev) gs]"
    using rpn_exec_groups [OF assms(2,3)] by blast
  then obtain e where "from_tokens ts = Some e" "evaluate e ev = list_ex (list_all ev) gs"
    using assms(1) [unfolded rpn_law_def, rule_format, OF ts(2) [rule_format, of ev]] by blast
  then show ?thesis using ts(1)
    by (simp add: filter_matches_def to_postfix_def list_ex_iff list_all_iff)
qed

section \<open>What validation accepts and what a policy decides\<close>

definition rule_ok :: "(string \<Rightarrow> 'net option) \<Rightarrow> direction \<Rightarrow> filter_rule \<Rightarrow> bool" where
  "rule_ok net_of_str dir r \<longleftrightarrow> fr_values r \<noteq> [] \<and>
     (fr_field r = SrcIp \<longrightarrow> dir = Ingress) \<and> (fr_field r = DstIp \<longrightarrow> dir = Egress) \<and>
     (fr_field r \<in> {SrcIp, DstIp} \<longrightarrow> (\<forall>v \<in> set (fr_values r). net_of_str v \<noteq> None))"

fun policy_groups :: "filter_policy \<Rightarrow> filter_rule list list option" where
  "policy_groups PolicyNone = None"
| "policy_groups (Block gs) = Some gs"
| "policy_groups (Allow gs) = Some gs"

lemma validate_rule_ok: "isl (validate_rule net_of_str dir r) \<longleftrightarrow> \<not> rule_ok net_of_str dir r"
  by (cases "fr_field r"; cases dir)
    (auto simp: validate_rule_def rule_ok_def find_None_iff split: option.splits dest: find_SomeD)

lemma try_map_isl: "isl (try_map f xs) \<longleftrightarrow> (\<exists>x \<in> set xs. isl (f x))"
  by (induction xs) (auto split: sum.splits)

lemma try_map_Inr: "try_map f xs = Inr ys \<Longrightarrow> list_all2 (\<lambda>x y. f x = Inr y) xs ys"
  by (induction xs arbitrary: ys) (auto split: sum.splits)

lemma validate_groups_isl:
  "isl (validate_groups net_of_str dir gs) \<longleftrightarrow>
     gs = [] \<or> [] \<in> set gs \<or> (\<exists>g \<in> set gs. \<exists>r \<in> set g. \<not> rule_ok net_of_str dir r)"
  by (auto simp: validate_groups_def try_map_isl validate_rule_ok list_ex_iff)

lemma upcase_idem [simp]: "upcase (upcase c) = upcase c"
proof (cases "97 \<le> (of_char c :: nat) \<and> (of_char c :: nat) \<le> 122")
  case True
  then have "(of_char c :: nat) - 32 < 256" by linarith
  then have "of_char (char_of ((of_char c :: nat) - 32) :: char) = (of_char c :: nat) - 32" by simp
  moreover have "\<not> 97 \<le> (of_char c :: nat) - 32" using True by linarith
  ultimately show ?thesis using True by (simp add: upcase_def del: of_char_of)
next
  case False
  then have "upcase c = c" by (auto simp: upcase_def)
  then show ?thesis by simp
qed

lemma to_uppercase_idem [simp]: "to_uppercase (to_uppercase s) = to_uppercase s"
  by (simp add: to_uppercase_def)

lemma eq_ignore_uppercase [simp]: "eq_ignore_ascii_case (to_uppercase v) s = eq_ignore_ascii_case v s"
  by (simp add: eq_ignore_ascii_case_def to_uppercase_def comp_def)

lemma compare_str_uppercase: "compare_str cond s (map to_uppercase vs) = compare_str cond s vs"
  by (cases cond) (simp_all add: compare_str_def list_ex_iff list_all_iff)

lemma validate_rule_Inr:
  assumes "validate_rule net_of_str dir r = Inr r'"
  shows "validate_rule net_of_str dir r' = Inr r' \<and>
    evaluate_predicate net_of_str net_contains ctx r' = evaluate_predicate net_of_str net_contains ctx r"
  using assms
  by (cases "fr_field r")
    (auto simp: validate_rule_def evaluate_predicate_def compare_str_uppercase comp_def
      split: if_splits option.splits)

lemma try_map_fix:
  "(\<And>x y. f x = Inr y \<Longrightarrow> f y = Inr y) \<Longrightarrow> try_map f xs = Inr ys \<Longrightarrow> try_map f ys = Inr ys"
  by (induction xs arbitrary: ys) (auto split: sum.splits)

lemma validate_groups_Inr:
  assumes "validate_groups net_of_str dir gs = Inr gs'"
  shows "validate_groups net_of_str dir gs' = Inr gs' \<and>
    list_all2 (list_all2 (\<lambda>r r'. validate_rule net_of_str dir r = Inr r')) gs gs'"
proof -
  let ?v = "validate_rule net_of_str dir"
  have t: "try_map (try_map ?v) gs = Inr gs'" and ne: "gs \<noteq> []" "[] \<notin> set gs"
    using assms by (auto simp: validate_groups_def list_ex_iff split: if_splits)
  have fix1: "try_map (try_map ?v) gs' = Inr gs'"
    by (rule try_map_fix [OF _ t]) (rule try_map_fix, use validate_rule_Inr in blast)
  have "list_all2 (\<lambda>g g'. try_map ?v g = Inr g') gs gs'" by (rule try_map_Inr [OF t])
  then have l2: "list_all2 (list_all2 (\<lambda>r r'. ?v r = Inr r')) gs gs'"
    by (rule list_all2_mono) (rule try_map_Inr)
  then have "gs' \<noteq> []" using ne(1) by auto
  moreover have "[] \<notin> set gs'"
    using l2 ne(2) by (auto simp: list_all2_conv_all_nth in_set_conv_nth)
  ultimately show ?thesis using fix1 l2 by (auto simp: validate_groups_def list_ex_iff)
qed

lemma validate_idem: "validate net_of_str dir p = Inr p' \<Longrightarrow> validate net_of_str dir p' = Inr p'"
  using validate_groups_Inr [of net_of_str dir] by (cases p) (auto simp: validate_def map_sum_def split: sum.splits)

text \<open>Validation accepts a policy exactly when it has no filter at all, or at least one rule
  group and no empty one, and every rule has values, uses an address field of its own direction
  only and names parsable networks; validating an accepted policy again changes nothing.\<close>

theorem validate_accepts_iff:
  "(\<not> isl (validate net_of_str dir p) \<longleftrightarrow> (case policy_groups p of None \<Rightarrow> True
     | Some gs \<Rightarrow> gs \<noteq> [] \<and> [] \<notin> set gs \<and> list_all (list_all (rule_ok net_of_str dir)) gs)) \<and>
   (case validate net_of_str dir p of Inl _ \<Rightarrow> True | Inr p' \<Rightarrow> validate net_of_str dir p' = Inr p')"
proof (cases p)
  case PolicyNone
  then show ?thesis by (simp add: validate_def)
next
  case (Block gs)
  then show ?thesis using validate_groups_isl [of net_of_str dir gs] validate_groups_Inr [of net_of_str dir gs]
    by (cases "validate_groups net_of_str dir gs") (auto simp: validate_def list_all_iff)
next
  case (Allow gs)
  then show ?thesis using validate_groups_isl [of net_of_str dir gs] validate_groups_Inr [of net_of_str dir gs]
    by (cases "validate_groups net_of_str dir gs") (auto simp: validate_def list_all_iff)
qed

lemma validated_groups:
  assumes "validate_groups net_of_str dir gs = Inr gs'"
  shows "gs' \<noteq> []" "\<forall>g \<in> set gs'. g \<noteq> []"
proof -
  have "\<not> isl (validate_groups net_of_str dir gs')" using validate_groups_Inr [OF assms] by simp
  then show "gs' \<noteq> []" "\<forall>g \<in> set gs'. g \<noteq> []" unfolding validate_groups_isl by blast+
qed

lemma groups_same_verdict:
  assumes "list_all2 (list_all2 (\<lambda>r r'. validate_rule net_of_str dir r = Inr r')) gs gs'"
  shows "(\<exists>g \<in> set gs'. \<forall>r \<in> set g. evaluate_predicate net_of_str net_contains ctx r) \<longleftrightarrow>
    (\<exists>g \<in> set gs. \<forall>r \<in> set g. evaluate_predicate net_of_str net_contains ctx r)"
proof -
  let ?ev = "evaluate_predicate net_of_str net_contains ctx"
  have rules: "list_all2 (\<lambda>r r'. validate_rule net_of_str dir r = Inr r') g g' \<Longrightarrow> list_all ?ev g' = list_all ?ev g" for g g'
    by (induction rule: list_all2_induct) (simp_all add: validate_rule_Inr)
  from assms have "list_ex (list_all ?ev) gs' = list_ex (list_all ?ev) gs"
    by (induction rule: list_all2_induct) (simp_all add: rules)
  then show ?thesis by (simp add: list_ex_iff list_all_iff)
qed

lemma block_verdict:
  assumes "rpn_law from_tokens evaluate" "validate net_of_str dir (Block gs) = Inr p'"
  shows "allows from_tokens evaluate net_of_str net_contains p' ctx \<longleftrightarrow>
    \<not> (\<exists>g \<in> set gs. \<forall>r \<in> set g. evaluate_predicate net_of_str net_contains ctx r)"
proof -
  obtain gs' where g: "p' = Block gs'" "validate_groups net_of_str dir gs = Inr gs'"
    using assms(2) by (cases "validate_groups net_of_str dir gs") (auto simp: validate_def)
  note same = groups_same_verdict [OF validate_groups_Inr [OF g(2), THEN conjunct2]]
  show ?thesis using g(1) filter_matches_groups [OF assms(1) validated_groups [OF g(2)]] same
    by (simp add: allows_def)
qed

lemma allow_verdict:
  assumes "rpn_law from_tokens evaluate" "validate net_of_str dir (Allow gs) = Inr p'"
  shows "allows from_tokens evaluate net_of_str net_contains p' ctx \<longleftrightarrow>
    (\<exists>g \<in> set gs. \<forall>r \<in> set g. evaluate_predicate net_of_str net_contains ctx r)"
proof -
  obtain gs' where g: "p' = Allow gs'" "validate_groups net_of_str dir gs = Inr gs'"
    using assms(2) by (cases "validate_groups net_of_str dir gs") (auto simp: validate_def)
  note same = groups_same_verdict [OF validate_groups_Inr [OF g(2), THEN conjunct2]]
  show ?thesis using g(1) filter_matches_groups [OF assms(1) validated_groups [OF g(2)]] same
    by (simp add: allows_def)
qed

text \<open>\<^bold>\<open>C19.\<close> With a postfix engine that evaluates well-formed programs on a stack, a validated policy
  decides as an OR of ANDs over its rules as the operator wrote them: \<^verbatim>\<open>block\<close> denies exactly the
  addresses on which some group matches with all its rules, \<^verbatim>\<open>allow\<close> permits exactly those, and the
  normalisation by validation changes no verdict.\<close>

theorem allows_or_of_ands:
  assumes "rpn_law from_tokens evaluate" "validate net_of_str dir p = Inr p'"
  shows "allows from_tokens evaluate net_of_str net_contains p' ctx \<longleftrightarrow> (case p of
      PolicyNone \<Rightarrow> True
    | Block gs \<Rightarrow> \<not> (\<exists>g \<in> set gs. \<forall>r \<in> set g. evaluate_predicate net_of_str net_contains ctx r)
    | Allow gs \<Rightarrow> \<exists>g \<in> set gs. \<forall>r \<in> set g. evaluate_predicate net_of_str net_contains ctx r)"
proof (cases p)
  case PolicyNone
  then show ?thesis using assms(2) by (auto simp: validate_def allows_def)
next
  case (Block gs)
  then show ?thesis using block_verdict [OF assms(1)] assms(2) by simp
next
  case (Allow gs)
  then show ?thesis using allow_verdict [OF assms(1)] assms(2) by simp
qed

text \<open>A stack engine satisfies the law.\<close>

definition demo_evaluate :: "'p rpn_token list \<Rightarrow> ('p \<Rightarrow> bool) \<Rightarrow> bool" where
  "demo_evaluate ts ev = (rpn_exec ev ts [] = Some [True])"

lemma demo_rpn_law: "rpn_law Some demo_evaluate"
  by (simp add: rpn_law_def demo_evaluate_def)

theorem allows_or_of_ands_witness:
  "\<not> allows Some demo_evaluate (\<lambda>_. None :: unit option) (\<lambda>_ _. False)
     (Block [[\<lparr>fr_field = Country, fr_condition = Equal, fr_values = [''US'']\<rparr>]])
     \<lparr>fc_ip = 1, fc_geo = Some \<lparr>geo_country_code = Some ''us'', geo_org = None\<rparr>\<rparr>"
proof -
  let ?p = "Block [[\<lparr>fr_field = Country, fr_condition = Equal, fr_values = [''us'']\<rparr>]]"
  let ?p' = "Block [[\<lparr>fr_field = Country, fr_condition = Equal, fr_values = [''US'']\<rparr>]]"
  have "validate (\<lambda>_. None :: unit option) Egress ?p = Inr ?p'"
    by code_simp
  from allows_or_of_ands [OF demo_rpn_law this, of "\<lambda>_ _. False"
      "\<lparr>fc_ip = 1, fc_geo = Some \<lparr>geo_country_code = Some ''us'', geo_org = None\<rparr>\<rparr>"]
  show ?thesis by (simp add: evaluate_predicate_def compare_str_def eq_ignore_ascii_case_def)
qed



end
