(* ===== verification/Service_Info.thy ===== *)
theory Service_Info
  imports Egress_Edges Filter_Policy
begin

text \<open>
  The registry of one stack (nullnet-server, \<^verbatim>\<open>services/service_info.rs\<close>): a service is its
  configuration, and once registered also its replicas, each with the clients connected to it.
  The pause state a replica shares with its resume task lives in the orchestrator's store and is
  reached through a reference.
\<close>

section \<open>Services and replicas\<close>

datatype service_protocol = Http | Tcp | Udp

record service_config =
  sc_proxy_deps :: "string list list"
  sc_triggers :: "(u16, string) hmap"
  sc_timeout :: "nat option"
  sc_max_networks :: "nat option"
  sc_protocol :: service_protocol
  sc_listen_port :: "u16 option"
  sc_egress_policy :: filter_policy
  sc_ingress_policy :: filter_policy
  sc_pausable :: bool

record replica =
  rp_ip :: ip_addr
  rp_port :: u16
  rp_docker :: "string option"
  rp_clients :: clients
  rp_pause :: uuid

record registered =
  rg_config :: service_config
  rg_replicas :: "replica list"

datatype service_info = Unregistered service_config | Registered registered

type_synonym services = "(string, service_info) hmap"
type_synonym stack_map = "(string, services) hmap"

fun si_config :: "service_info \<Rightarrow> service_config" where
  "si_config (Unregistered c) = c"
| "si_config (Registered reg) = rg_config reg"

abbreviation "si_timeout si \<equiv> sc_timeout (si_config si)"
abbreviation "si_proxy_deps si \<equiv> sc_proxy_deps (si_config si)"
abbreviation "si_triggers si \<equiv> sc_triggers (si_config si)"

definition service_info_new ::
  "string list list \<Rightarrow> (u16, string) hmap \<Rightarrow> nat option \<Rightarrow> nat option \<Rightarrow> service_protocol \<Rightarrow> u16 option
   \<Rightarrow> filter_policy \<Rightarrow> filter_policy \<Rightarrow> service_info" where
  "service_info_new proxy_deps triggers timeout max_networks protocol listen_port egress ingress =
     Unregistered \<lparr>sc_proxy_deps = proxy_deps, sc_triggers = triggers, sc_timeout = timeout,
       sc_max_networks = max_networks, sc_protocol = protocol, sc_listen_port = listen_port,
       sc_egress_policy = egress, sc_ingress_policy = ingress, sc_pausable = False\<rparr>"

fun with_pausable :: "bool \<Rightarrow> service_info \<Rightarrow> service_info" where
  "with_pausable b (Unregistered c) = Unregistered (c\<lparr>sc_pausable := b\<rparr>)"
| "with_pausable b (Registered reg) = Registered (reg\<lparr>rg_config := (rg_config reg)\<lparr>sc_pausable := b\<rparr>\<rparr>)"

definition replica_new :: "ip_addr \<Rightarrow> u16 \<Rightarrow> string option \<Rightarrow> orch \<Rightarrow> replica \<times> orch" where
  "replica_new ip port docker st = (let (r, st) = fresh st
     in (\<lparr>rp_ip = ip, rp_port = port, rp_docker = docker, rp_clients = clients_default, rp_pause = r\<rparr>,
         st\<lparr>o_pauses := hm_insert r \<lparr>ps_suspended = False, ps_resume = None\<rparr> (o_pauses st)\<rparr>))"

definition matches_identity :: "ip_addr \<Rightarrow> string option \<Rightarrow> replica \<Rightarrow> bool" where
  "matches_identity ip docker r \<longleftrightarrow> rp_ip r = ip \<and> rp_docker r = docker"

text \<open>\<^verbatim>\<open>iter_mut().find(p)\<close> followed by an update of the element found.\<close>

fun update_first :: "('a \<Rightarrow> bool) \<Rightarrow> ('a \<Rightarrow> 'a) \<Rightarrow> 'a list \<Rightarrow> 'a list" where
  "update_first p f [] = []"
| "update_first p f (x # xs) = (if p x then f x # xs else x # update_first p f xs)"

definition add_replica :: "ip_addr \<Rightarrow> u16 \<Rightarrow> string option \<Rightarrow> service_info \<Rightarrow> orch \<Rightarrow> service_info \<times> orch" where
  "add_replica ip port docker si st = (case si of
       Unregistered c \<Rightarrow> (let (r, st) = replica_new ip port docker st
         in (Registered \<lparr>rg_config = c, rg_replicas = [r]\<rparr>, st))
     | Registered reg \<Rightarrow> if list_ex (matches_identity ip docker) (rg_replicas reg)
         then (Registered (reg\<lparr>rg_replicas := update_first (matches_identity ip docker)
                 (\<lambda>r. r\<lparr>rp_port := port\<rparr>) (rg_replicas reg)\<rparr>), st)
         else (let (r, st) = replica_new ip port docker st
               in (Registered (reg\<lparr>rg_replicas := rg_replicas reg @ [r]\<rparr>), st)))"

fun has_replica :: "ip_addr \<Rightarrow> string option \<Rightarrow> service_info \<Rightarrow> bool" where
  "has_replica ip docker (Unregistered _) = False"
| "has_replica ip docker (Registered reg) = list_ex (matches_identity ip docker) (rg_replicas reg)"

text \<open>Dropping replicas; without any left the service is unregistered.\<close>

definition retain_replicas :: "(replica \<Rightarrow> bool) \<Rightarrow> service_info \<Rightarrow> service_info" where
  "retain_replicas keep si = (case si of
       Unregistered c \<Rightarrow> si
     | Registered reg \<Rightarrow> (let rs = filter keep (rg_replicas reg)
         in if rs = [] then Unregistered (rg_config reg) else Registered (reg\<lparr>rg_replicas := rs\<rparr>)))"

definition remove_replicas_on_ip :: "ip_addr \<Rightarrow> service_info \<Rightarrow> service_info" where
  "remove_replicas_on_ip ip si = retain_replicas (\<lambda>r. rp_ip r \<noteq> ip) si"

definition remove_replica :: "ip_addr \<Rightarrow> string option \<Rightarrow> service_info \<Rightarrow> service_info" where
  "remove_replica ip docker si = retain_replicas (\<lambda>r. \<not> matches_identity ip docker r) si"

definition update_from_file :: "service_info \<Rightarrow> service_info \<Rightarrow> service_info" where
  "update_from_file loaded si = (case si of
       Unregistered _ \<Rightarrow> Unregistered (si_config loaded)
     | Registered reg \<Rightarrow> Registered (reg\<lparr>rg_config := si_config loaded\<rparr>))"

definition deps_contain :: "string \<Rightarrow> service_info \<Rightarrow> bool" where
  "deps_contain other si \<longleftrightarrow> other \<in> set (concat (si_proxy_deps si)) \<or> other \<in> set (hm_values (si_triggers si))"

section \<open>Pausing containers\<close>

definition suspended :: "replica \<Rightarrow> orch \<Rightarrow> bool" where
  "suspended r st = (case hm_get (o_pauses st) (rp_pause r) of Some ps \<Rightarrow> ps_suspended ps | None \<Rightarrow> False)"

definition resume_pending :: "replica \<Rightarrow> orch \<Rightarrow> bool" where
  "resume_pending r st = (case hm_get (o_pauses st) (rp_pause r) of Some ps \<Rightarrow> ps_resume ps \<noteq> None | None \<Rightarrow> False)"

definition resume :: "replica \<Rightarrow> orch \<Rightarrow> uuid option \<times> orch" where
  "resume r st = (case (rp_docker r, hm_get (o_pauses st) (rp_pause r)) of
       (Some container, Some ps) \<Rightarrow> if \<not> ps_suspended ps then (None, st)
         else (case ps_resume ps of
             Some token \<Rightarrow> (Some token, st)
           | None \<Rightarrow> (let (token, st) = fresh st in (Some token,
               st\<lparr>o_pauses := hm_insert (rp_pause r) (ps\<lparr>ps_resume := Some token\<rparr>) (o_pauses st),
                  o_resumes := o_resumes st @ [\<lparr>rt_token = token, rt_pause = rp_pause r, rt_ip = rp_ip r,
                    rt_container = container\<rparr>]\<rparr>)))
     | _ \<Rightarrow> (None, st))"

text \<open>The end of a resume task, with the answer of \<^verbatim>\<open>send_container_resume\<close>.\<close>

definition resume_complete :: "bool \<Rightarrow> resume_task \<Rightarrow> orch \<Rightarrow> orch" where
  "resume_complete ok t st = (let
       st = (if ok then st else emit (ContainerResumeFailed (rt_container t) (rt_ip t)) st)
     in st\<lparr>o_pauses := hm_modify (rt_pause t) (\<lambda>ps. ps\<lparr>ps_suspended := \<not> ok, ps_resume := None\<rparr>) (o_pauses st),
           o_resumes := removeAll t (o_resumes st)\<rparr>)"

definition reconcile_suspend :: "bool \<Rightarrow> replica \<Rightarrow> orch \<Rightarrow> orch" where
  "reconcile_suspend pausable r st = (case rp_docker r of
       None \<Rightarrow> st
     | Some container \<Rightarrow> if \<not> pausable then snd (resume r st)
         else if suspended r st \<or> cs_clients (rp_clients r) \<noteq> [] \<or> has_outgoing_work (rp_ip r) container st then st
         else (let st = send_container_suspend (rp_ip r) container st
               in st\<lparr>o_pauses := hm_modify (rp_pause r) (\<lambda>ps. ps\<lparr>ps_suspended := True\<rparr>) (o_pauses st)\<rparr>))"

text \<open>The replicas of a stack map together with the permission of their declaration.\<close>

definition declared_replicas :: "stack_map \<Rightarrow> (bool \<times> replica) list" where
  "declared_replicas services = concat (map (\<lambda>stack. concat (map (\<lambda>si. case si of
       Unregistered _ \<Rightarrow> []
     | Registered reg \<Rightarrow> map (\<lambda>r. (sc_pausable (rg_config reg), r)) (rg_replicas reg)) (hm_values stack))) (hm_values services))"

definition pause_blocked :: "stack_map \<Rightarrow> orch \<Rightarrow> identity list" where
  "pause_blocked services st = map (\<lambda>(_, r). (rp_ip r, rp_docker r))
     (filter (\<lambda>(pausable, r). \<not> pausable \<or> cs_clients (rp_clients r) \<noteq> [] \<or> resume_pending r st)
       (declared_replicas services))"

definition reconcile_container_pauses :: "stack_map \<Rightarrow> orch \<Rightarrow> orch" where
  "reconcile_container_pauses services st = (let blocked = pause_blocked services st in
     fold (\<lambda>(pausable, r). reconcile_suspend (pausable \<and> (rp_ip r, rp_docker r) \<notin> set blocked) r)
       (declared_replicas services) st)"

definition mark_replica_suspended :: "ip_addr \<Rightarrow> string option \<Rightarrow> registered \<Rightarrow> orch \<Rightarrow> orch" where
  "mark_replica_suspended ip docker reg st = (case find (matches_identity ip docker) (rg_replicas reg) of
       None \<Rightarrow> st
     | Some r \<Rightarrow> st\<lparr>o_pauses := hm_modify (rp_pause r) (\<lambda>ps. ps\<lparr>ps_suspended := True\<rparr>) (o_pauses st)\<rparr>)"

section \<open>Clients of a registered service\<close>

definition has_client :: "client \<Rightarrow> replica \<Rightarrow> bool" where
  "has_client c r \<longleftrightarrow> hm_get (cs_clients (rp_clients r)) c \<noteq> None"

definition modify_client :: "client \<Rightarrow> (client_info \<Rightarrow> client_info) \<Rightarrow> registered \<Rightarrow> registered" where
  "modify_client c f reg = reg\<lparr>rg_replicas :=
     update_first (has_client c) (\<lambda>r. r\<lparr>rp_clients := cs_modify c f (rp_clients r)\<rparr>) (rg_replicas reg)\<rparr>"

definition add_chain :: "instant \<Rightarrow> client \<Rightarrow> registered \<Rightarrow> registered" where
  "add_chain now c reg = modify_client c (add_active_chain now) reg"

definition set_latest_now :: "instant \<Rightarrow> client \<Rightarrow> registered \<Rightarrow> registered" where
  "set_latest_now now c reg = modify_client c (ci_set_latest_now now) reg"

definition open_connection :: "instant \<Rightarrow> client \<Rightarrow> registered \<Rightarrow> registered" where
  "open_connection now c reg = modify_client c (ci_open_connection now) reg"

definition close_connection :: "instant \<Rightarrow> client \<Rightarrow> registered \<Rightarrow> registered" where
  "close_connection now c reg = modify_client c (ci_close_connection now) reg"

fun decrement_replicas :: "client \<Rightarrow> replica list \<Rightarrow> orch \<Rightarrow> (replica list \<times> orch) option" where
  "decrement_replicas c [] st = Some ([], st)"
| "decrement_replicas c (r # rs) st = (case hm_get (cs_clients (rp_clients r)) c of
       None \<Rightarrow> map_option (\<lambda>(rs', st'). (r # rs', st')) (decrement_replicas c rs st)
     | Some ci \<Rightarrow> if is_pending ci then Some (r # rs, st)
         else (let cs = cs_modify c (remove_active_chains 1) (rp_clients r) in
           if ci_active_chains (remove_active_chains 1 ci) = 0 then do {
             (cs', removed) \<leftarrow> remove_client c cs;
             Some (r\<lparr>rp_clients := cs'\<rparr> # rs, case removed of
                 None \<Rightarrow> st
               | Some ci \<Rightarrow> send_net_teardown_kind (ci_client_ip ci) (ci_docker_container ci) (rp_ip r)
                   (rp_docker r) (ci_net_id ci) (ci_group_carrier ci \<noteq> None) st)
           } else Some (r\<lparr>rp_clients := cs\<rparr> # rs, st)))"

definition decrement_chain :: "client \<Rightarrow> registered \<Rightarrow> orch \<Rightarrow> (registered \<times> orch) option" where
  "decrement_chain c reg st =
     map_option (\<lambda>(rs, st). (reg\<lparr>rg_replicas := rs\<rparr>, st)) (decrement_replicas c (rg_replicas reg) st)"

definition client_replica :: "client \<Rightarrow> registered \<Rightarrow> identity option" where
  "client_replica c reg = map_option (\<lambda>r. (rp_ip r, rp_docker r)) (find (has_client c) (rg_replicas reg))"

definition has_live_client :: "client \<Rightarrow> replica \<Rightarrow> bool" where
  "has_live_client c r = (case hm_get (cs_clients (rp_clients r)) c of None \<Rightarrow> False | Some ci \<Rightarrow> \<not> is_pending ci)"

definition client_replica_live :: "client \<Rightarrow> registered \<Rightarrow> identity option" where
  "client_replica_live c reg = map_option (\<lambda>r. (rp_ip r, rp_docker r)) (find (has_live_client c) (rg_replicas reg))"

definition live_entry :: "client \<Rightarrow> replica \<Rightarrow> client_info option" where
  "live_entry c r = (case hm_get (cs_clients (rp_clients r)) c of
     None \<Rightarrow> None | Some ci \<Rightarrow> if is_pending ci then None else Some ci)"

definition client_entry :: "client \<Rightarrow> registered \<Rightarrow> client_info option" where
  "client_entry c reg = find_map (live_entry c) (rg_replicas reg)"

definition client_net_id :: "client \<Rightarrow> registered \<Rightarrow> u32 option" where
  "client_net_id c reg = map_option ci_net_id (client_entry c reg)"

definition pending_notify :: "client \<Rightarrow> registered \<Rightarrow> notify option" where
  "pending_notify c reg = find_map (\<lambda>r. cs_pending_notify c (rp_clients r)) (rg_replicas reg)"

definition reg_entries :: "registered \<Rightarrow> (client \<times> client_info) list" where
  "reg_entries reg = concat (map (\<lambda>r. cs_clients (rp_clients r)) (rg_replicas reg))"

definition proxy_clients_count :: "registered \<Rightarrow> nat" where
  "proxy_clients_count reg = length (filter (\<lambda>(c, _). cl_proxy c \<noteq> None) (reg_entries reg))"

definition dedicated_proxy_networks_count :: "registered \<Rightarrow> nat" where
  "dedicated_proxy_networks_count reg = length (filter (\<lambda>(c, ci). cl_proxy c \<noteq> None \<and> \<not> ci_policy ci) (reg_entries reg))"

definition group_carrier :: "ip_addr \<Rightarrow> registered \<Rightarrow> u64 option" where
  "group_carrier proxy_ip reg = (let
       merged = fold (\<lambda>(carrier, users) m. hm_insert carrier ((case hm_get m carrier of Some n \<Rightarrow> n | None \<Rightarrow> 0) + users) m)
         (concat (map (\<lambda>r. case hm_get (cs_group_carriers (rp_clients r)) proxy_ip of Some m \<Rightarrow> m | None \<Rightarrow> []) (rg_replicas reg))) []
     in map_option fst (min_by_key (\<lambda>(carrier, users). (users, carrier)) merged))"

record upstream =
  up_ip :: u32
  up_port :: u16
  up_pool_generation :: u64

text \<open>Networks of one proxy that another client may join: per network identifier its number of
  users and the first entry seen, with its replica.\<close>

definition reusable_networks :: "ip_addr \<Rightarrow> registered \<Rightarrow> (u32, nat \<times> client_info \<times> replica) hmap" where
  "reusable_networks proxy_ip reg = fold (\<lambda>(r, c, ci) m.
       if cl_proxy c = Some proxy_ip \<and> ci_server_net ci \<noteq> 0
       then (case hm_get m (ci_net_id ci) of
           None \<Rightarrow> hm_insert (ci_net_id ci) (1, ci, r) m
         | Some (users, ci', r') \<Rightarrow> hm_insert (ci_net_id ci) (users + 1, ci', r') m)
       else m)
     (concat (map (\<lambda>r. map (\<lambda>(c, ci). (r, c, ci)) (cs_clients (rp_clients r))) (rg_replicas reg))) []"

definition find_reusable_network_on_proxy ::
  "ip_addr \<Rightarrow> registered \<Rightarrow> (upstream \<times> u32 \<times> u32 \<times> u32 \<times> ip_addr \<times> string option \<times> nat) option" where
  "find_reusable_network_on_proxy proxy_ip reg =
     (case min_by_key (\<lambda>(net_id, (users, _, _)). (users, net_id)) (reusable_networks proxy_ip reg) of
        None \<Rightarrow> None
      | Some (_, (_, ci, r)) \<Rightarrow> Some (\<lparr>up_ip = ci_server_net ci, up_port = rp_port r, up_pool_generation = ci_pool_generation ci\<rparr>,
          ci_client_net ci, ci_server_net ci, ci_net_id ci, rp_ip r, rp_docker r, ci_time_ms ci))"

definition has_clients_with_net_id :: "u32 \<Rightarrow> registered \<Rightarrow> bool" where
  "has_clients_with_net_id net_id reg = list_ex (\<lambda>(_, ci). ci_net_id ci = net_id) (reg_entries reg)"

definition pick_replica_least_clients :: "registered \<Rightarrow> replica option" where
  "pick_replica_least_clients reg = min_by_key (\<lambda>r. length (cs_clients (rp_clients r))) (rg_replicas reg)"

fun add_client_replicas ::
  "ip_addr \<Rightarrow> string option \<Rightarrow> client \<Rightarrow> client_info \<Rightarrow> replica list \<Rightarrow> orch \<Rightarrow> (bool \<times> replica list \<times> orch) option" where
  "add_client_replicas ip docker c info [] st = Some (False, [], st)"
| "add_client_replicas ip docker c info (r # rs) st = (if matches_identity ip docker r
     then do { (cs, woken) \<leftarrow> add_client c info (rp_clients r); Some (True, r\<lparr>rp_clients := cs\<rparr> # rs, notify_waiters woken st) }
     else map_option (\<lambda>(landed, rs', st'). (landed, r # rs', st')) (add_client_replicas ip docker c info rs st))"

definition add_client_to_replica ::
  "ip_addr \<Rightarrow> string option \<Rightarrow> client \<Rightarrow> client_info \<Rightarrow> registered \<Rightarrow> orch \<Rightarrow> (bool \<times> registered \<times> orch) option" where
  "add_client_to_replica ip docker c info reg st =
     map_option (\<lambda>(landed, rs, st). (landed, reg\<lparr>rg_replicas := rs\<rparr>, st)) (add_client_replicas ip docker c info (rg_replicas reg) st)"

fun remove_pending_replicas :: "client \<Rightarrow> replica list \<Rightarrow> orch \<Rightarrow> (replica list \<times> orch) option" where
  "remove_pending_replicas c [] st = Some ([], st)"
| "remove_pending_replicas c (r # rs) st = (case remove_pending_client c (rp_clients r) of
       None \<Rightarrow> None
     | Some (cs, Some token) \<Rightarrow> Some (r\<lparr>rp_clients := cs\<rparr> # rs, notify_waiters (Some token) st)
     | Some (cs, None) \<Rightarrow> map_option (\<lambda>(rs', st'). (r # rs', st')) (remove_pending_replicas c rs st))"

definition reg_remove_pending_client :: "client \<Rightarrow> registered \<Rightarrow> orch \<Rightarrow> (registered \<times> orch) option" where
  "reg_remove_pending_client c reg st =
     map_option (\<lambda>(rs, st). (reg\<lparr>rg_replicas := rs\<rparr>, st)) (remove_pending_replicas c (rg_replicas reg) st)"

definition remove_pending_client_if :: "client \<Rightarrow> notify \<Rightarrow> registered \<Rightarrow> orch \<Rightarrow> (registered \<times> orch) option" where
  "remove_pending_client_if c owner reg st = (if pending_notify c reg = Some owner
     then reg_remove_pending_client c reg st else Some (reg, st))"

definition is_client_setup :: "client \<Rightarrow> registered \<Rightarrow> upstream option" where
  "is_client_setup c reg = find_map (\<lambda>r. map_option (\<lambda>(server_net, generation).
     \<lparr>up_ip = server_net, up_port = rp_port r, up_pool_generation = generation\<rparr>) (cs_is_client_setup c (rp_clients r))) (rg_replicas reg)"

fun remove_client_replicas :: "client \<Rightarrow> replica list \<Rightarrow> replica list option" where
  "remove_client_replicas c [] = Some []"
| "remove_client_replicas c (r # rs) = (case remove_client c (rp_clients r) of
       None \<Rightarrow> None
     | Some (cs, Some _) \<Rightarrow> Some (r\<lparr>rp_clients := cs\<rparr> # rs)
     | Some (cs, None) \<Rightarrow> map_option (\<lambda>rs'. r # rs') (remove_client_replicas c rs))"

definition reg_remove_client :: "client \<Rightarrow> registered \<Rightarrow> registered option" where
  "reg_remove_client c reg = map_option (\<lambda>rs. reg\<lparr>rg_replicas := rs\<rparr>) (remove_client_replicas c (rg_replicas reg))"

section \<open>Expiry and selections\<close>

definition expired_proxy_clients :: "instant \<Rightarrow> nat \<Rightarrow> registered \<Rightarrow> client list" where
  "expired_proxy_clients now timeout reg =
     map fst (filter (\<lambda>(c, ci). cl_proxy c \<noteq> None \<and> idle_expired now timeout ci) (reg_entries reg))"

definition proxy_client_expired :: "instant \<Rightarrow> client \<Rightarrow> nat \<Rightarrow> registered \<Rightarrow> bool" where
  "proxy_client_expired now c timeout reg \<longleftrightarrow> cl_proxy c \<noteq> None \<and>
     (case client_entry c reg of None \<Rightarrow> False | Some ci \<Rightarrow> idle_expired now timeout ci)"

definition nearest_proxy_expiry :: "instant \<Rightarrow> nat \<Rightarrow> registered \<Rightarrow> nat option" where
  "nearest_proxy_expiry now timeout reg = iter_min (map (\<lambda>(_, ci). timeout - (now - ci_latest ci))
     (filter (\<lambda>(c, ci). cl_proxy c \<noteq> None \<and> \<not> is_pending ci \<and> ci_open_connections ci = 0) (reg_entries reg)))"

definition service_clients_of :: "(replica \<Rightarrow> bool) \<Rightarrow> registered \<Rightarrow> client list" where
  "service_clients_of p reg = map fst (filter (\<lambda>(c, ci). cl_proxy c = None \<and> \<not> is_pending ci)
     (concat (map (\<lambda>r. cs_clients (rp_clients r)) (filter p (rg_replicas reg)))))"

definition service_clients_on_ip :: "ip_addr \<Rightarrow> registered \<Rightarrow> client list" where
  "service_clients_on_ip ip reg = service_clients_of (\<lambda>r. rp_ip r = ip) reg"

definition service_clients_on_replica :: "ip_addr \<Rightarrow> string option \<Rightarrow> registered \<Rightarrow> client list" where
  "service_clients_on_replica ip docker reg = service_clients_of (matches_identity ip docker) reg"

definition has_replica_on_ip :: "ip_addr \<Rightarrow> registered \<Rightarrow> bool" where
  "has_replica_on_ip ip reg = list_ex (\<lambda>r. rp_ip r = ip) (rg_replicas reg)"

definition all_clients_owned :: "registered \<Rightarrow> (client \<times> client_info \<times> ip_addr \<times> string option) list" where
  "all_clients_owned reg = concat (map (\<lambda>r. map (\<lambda>(c, ci). (c, ci, rp_ip r, rp_docker r))
     (filter (\<lambda>(_, ci). \<not> is_pending ci) (cs_clients (rp_clients r)))) (rg_replicas reg))"

record chain_branch =
  cb_root_name :: string
  cb_root_ip :: ip_addr
  cb_root_docker :: "string option"
  cb_deps :: "string list"
  cb_entry_port :: "u32 option"

definition proxy_branches :: "string \<Rightarrow> ip_addr \<Rightarrow> string option \<Rightarrow> registered \<Rightarrow> chain_branch list" where
  "proxy_branches name ip docker reg = map (\<lambda>branch. \<lparr>cb_root_name = name, cb_root_ip = ip,
     cb_root_docker = docker, cb_deps = branch, cb_entry_port = None\<rparr>) (sc_proxy_deps (rg_config reg))"

definition backend_branch :: "string \<Rightarrow> ip_addr \<Rightarrow> string option \<Rightarrow> u16 \<Rightarrow> services \<Rightarrow> registered \<Rightarrow> chain_branch option" where
  "backend_branch name ip docker port services reg = do {
     peer \<leftarrow> hm_get (sc_triggers (rg_config reg)) port;
     (case hm_get services peer of
        Some (Registered peer_reg) \<Rightarrow> if rg_replicas peer_reg = [] then None
          else Some \<lparr>cb_root_name = name, cb_root_ip = ip, cb_root_docker = docker, cb_deps = [peer],
                 cb_entry_port = Some (ucast port)\<rparr>
      | _ \<Rightarrow> None)
   }"

end
