(* ===== verification/Service_Inv.thy ===== *)
theory Service_Inv
  imports Service_Info
begin

text \<open>
  The registry invariant and what every operation of a registered service does to it: replicas
  have distinct identities, the client table of every replica is consistent, and a client
  sits on at most one replica.  The lemmas also say that no operation panics.
\<close>

section \<open>The invariant\<close>

abbreviation ident :: "replica \<Rightarrow> identity" where
  "ident r \<equiv> (rp_ip r, rp_docker r)"

abbreviation entries_of :: "replica \<Rightarrow> (client, client_info) hmap" where
  "entries_of r \<equiv> cs_clients (rp_clients r)"

definition reps_inv :: "replica list \<Rightarrow> bool" where
  "reps_inv rs \<longleftrightarrow> (\<forall>r \<in> set rs. clients_inv (rp_clients r))"

definition reg_inv :: "registered \<Rightarrow> bool" where
  "reg_inv reg \<longleftrightarrow> rg_replicas reg \<noteq> [] \<and> distinct (map ident (rg_replicas reg)) \<and> reps_inv (rg_replicas reg)"

text \<open>A client sits on one replica.\<close>

definition sticky :: "registered \<Rightarrow> bool" where
  "sticky reg \<longleftrightarrow> (\<forall>r \<in> set (rg_replicas reg). \<forall>r' \<in> set (rg_replicas reg). \<forall>c.
     has_client c r \<and> has_client c r' \<longrightarrow> ident r = ident r')"

fun si_inv :: "service_info \<Rightarrow> bool" where
  "si_inv (Unregistered _) = True"
| "si_inv (Registered reg) = reg_inv reg"

definition services_inv :: "services \<Rightarrow> bool" where
  "services_inv m \<longleftrightarrow> hm_inv m \<and> (\<forall>(n, si) \<in> set m. si_inv si)"

lemma reps_inv_simps [simp]: "reps_inv []" "reps_inv (r # rs) \<longleftrightarrow> clients_inv (rp_clients r) \<and> reps_inv rs"
  "reps_inv (xs @ ys) \<longleftrightarrow> reps_inv xs \<and> reps_inv ys"
  by (auto simp: reps_inv_def)

lemma reps_inv_filter [keeps]: "reps_inv rs \<Longrightarrow> reps_inv (filter p rs)"
  by (auto simp: reps_inv_def)

lemma services_inv_get: "services_inv m \<Longrightarrow> hm_get m n = Some (Registered reg) \<Longrightarrow> reg_inv reg"
  by (drule hm_get_SomeD) (fastforce simp: services_inv_def)

lemma services_inv_insert [keeps]: "services_inv m \<Longrightarrow> si_inv si \<Longrightarrow> services_inv (hm_insert n si m)"
  by (auto simp: services_inv_def hm_insert_set)

lemma services_inv_remove [keeps]: "services_inv m \<Longrightarrow> services_inv (hm_remove n m)"
  by (auto simp: services_inv_def)

section \<open>Operations keep it\<close>

definition client_at :: "client \<Rightarrow> replica list \<Rightarrow> client_info option" where
  "client_at c rs = find_map (\<lambda>r. hm_get (entries_of r) c) rs"

lemma client_at_simps [simp]: "client_at c [] = None"
  "client_at c (r # rs) = (case hm_get (entries_of r) c of Some ci \<Rightarrow> Some ci | None \<Rightarrow> client_at c rs)"
  by (simp_all add: client_at_def split: option.splits)

text \<open>Two replica lists that differ only in the entry of one client.\<close>

definition same_but :: "client \<Rightarrow> replica list \<Rightarrow> replica list \<Rightarrow> bool" where
  "same_but c rs rs' \<longleftrightarrow> list_all2 (\<lambda>r r'. rp_ip r' = rp_ip r \<and> rp_port r' = rp_port r \<and> rp_docker r' = rp_docker r \<and>
     rp_pause r' = rp_pause r \<and> (\<forall>c'. c' \<noteq> c \<longrightarrow> hm_get (entries_of r') c' = hm_get (entries_of r) c')) rs rs'"

lemma same_but_refl [simp]: "same_but c rs rs"
  by (simp add: same_but_def list_all2_refl)

lemma same_but_simps [simp]: "same_but c [] rs' \<longleftrightarrow> rs' = []"
  "same_but c (r # rs) (r' # rs') \<longleftrightarrow> rp_ip r' = rp_ip r \<and> rp_port r' = rp_port r \<and> rp_docker r' = rp_docker r \<and>
     rp_pause r' = rp_pause r \<and> (\<forall>c'. c' \<noteq> c \<longrightarrow> hm_get (entries_of r') c' = hm_get (entries_of r) c') \<and> same_but c rs rs'"
  by (auto simp: same_but_def)

lemma same_but_ident: "same_but c rs rs' \<Longrightarrow> map ident rs' = map ident rs"
  unfolding same_but_def by (induction rule: list_all2_induct) auto

lemma same_but_client_at: "same_but c rs rs' \<Longrightarrow> c' \<noteq> c \<Longrightarrow> client_at c' rs' = client_at c' rs"
  unfolding same_but_def by (induction rule: list_all2_induct) (auto split: option.splits)

lemma same_but_nonempty: "same_but c rs rs' \<Longrightarrow> rs' = [] \<longleftrightarrow> rs = []"
  by (auto simp: same_but_def)

lemma same_but_member:
  assumes "same_but c rs rs'" "c' \<noteq> c" "r \<in> set rs"
  obtains r' where "r' \<in> set rs'" "ident r' = ident r" "hm_get (entries_of r') c' = hm_get (entries_of r) c'"
proof -
  obtain i where "i < length rs" "rs ! i = r" using assms(3) by (auto simp: in_set_conv_nth)
  then show thesis using that [of "rs' ! i"] assms(1,2) unfolding same_but_def
    by (auto simp: list_all2_conv_all_nth)
qed

lemma sticky_gone:
  assumes "sticky reg" "find (has_client c) (rg_replicas reg) = Some r"
  shows "client_at c (filter (\<lambda>r'. ident r' \<noteq> ident r) (rg_replicas reg)) = None"
proof -
  have r: "r \<in> set (rg_replicas reg)" "has_client c r" using find_SomeD [OF assms(2)] by auto
  have "\<not> has_client c r'" if "r' \<in> set (rg_replicas reg)" "ident r' \<noteq> ident r" for r'
    using r that assms(1) unfolding sticky_def by blast
  then have "\<forall>r' \<in> set (filter (\<lambda>r'. ident r' \<noteq> ident r) (rg_replicas reg)). hm_get (entries_of r') c = None"
    by (auto simp: has_client_def)
  then show ?thesis by (simp only: client_at_def find_map_None)
qed

lemma sticky_filter:
  assumes "sticky reg" "distinct (map ident (rg_replicas reg))"
  shows "length (filter (has_client c) (rg_replicas reg)) \<le> 1"
proof -
  define xs where "xs = filter (has_client c) (rg_replicas reg)"
  have d: "distinct (map ident xs)" using assms(2) unfolding xs_def by (simp add: distinct_map_filter)
  have same: "ident x = ident y" if "x \<in> set xs" "y \<in> set xs" for x y
    using that assms(1) unfolding xs_def sticky_def by (simp, blast)
  show ?thesis unfolding xs_def [symmetric]
  proof (cases xs)
    case (Cons x ys)
    show "length xs \<le> 1"
    proof (cases ys)
      case (Cons y zs)
      have "ident x = ident y" by (rule same) (simp_all add: \<open>xs = x # ys\<close> Cons)
      then show ?thesis using d \<open>xs = x # ys\<close> Cons by simp
    qed (use \<open>xs = x # ys\<close> in simp)
  qed simp
qed

text \<open>What a decrement does: nothing to a missing or a reserved entry, one less for an entry that
  others still use, and removal with a teardown of its own network for the last use.\<close>

definition decrement_effect ::
  "client \<Rightarrow> replica list \<Rightarrow> orch \<Rightarrow> replica list \<Rightarrow> orch \<Rightarrow> bool" where
  "decrement_effect c rs st rs' st' \<longleftrightarrow> (case find (has_client c) rs of
       None \<Rightarrow> rs' = rs \<and> st' = st
     | Some r \<Rightarrow> (\<exists>ci. hm_get (entries_of r) c = Some ci \<and>
         (if is_pending ci then rs' = rs \<and> st' = st
          else if 1 < ci_active_chains ci then st' = st \<and> client_at c rs' = Some (remove_active_chains 1 ci)
          else st' = send_net_teardown_kind (ci_client_ip ci) (ci_docker_container ci) (rp_ip r) (rp_docker r)
                 (ci_net_id ci) (ci_group_carrier ci \<noteq> None) st \<and>
               client_at c rs' = client_at c (filter (\<lambda>r'. ident r' \<noteq> ident r) rs))))"

lemma remove_active_chains_fields [simp]:
  "ci_client_ip (remove_active_chains n ci) = ci_client_ip ci"
  "ci_docker_container (remove_active_chains n ci) = ci_docker_container ci"
  "ci_net_id (remove_active_chains n ci) = ci_net_id ci"
  "ci_group_carrier (remove_active_chains n ci) = ci_group_carrier ci"
  "ci_pending (remove_active_chains n ci) = ci_pending ci"
  "ci_active_chains (remove_active_chains n ci) = ci_active_chains ci - n"
  by (simp_all add: remove_active_chains_def)

lemma filter_ident_id: "ident r \<notin> ident ` set rs \<Longrightarrow> filter (\<lambda>r'. ident r' \<noteq> ident r) rs = rs"
  by (auto simp: filter_id_conv image_iff)

lemma decrement_replicas_ok:
  assumes "reps_inv rs" "distinct (map ident rs)"
  shows "\<exists>rs' st'. decrement_replicas c rs st = Some (rs', st') \<and> reps_inv rs' \<and> same_but c rs rs' \<and>
    decrement_effect c rs st rs' st'"
  using assms
proof (induction rs)
  case Nil
  then show ?case by (simp add: decrement_effect_def)
next
  case (Cons r rs)
  show ?case
  proof (cases "hm_get (entries_of r) c")
    case None
    obtain rs' st' where IH: "decrement_replicas c rs st = Some (rs', st')" "reps_inv rs'" "same_but c rs rs'"
      "decrement_effect c rs st rs' st'" using Cons by auto
    then have "decrement_effect c (r # rs) st (r # rs') st'"
      using None by (auto simp: decrement_effect_def has_client_def split: option.splits if_splits)
    then show ?thesis using IH None Cons.prems by auto
  next
    case (Some ci)
    note hc = has_client_def [of c r]
    define cs where "cs = cs_modify c (remove_active_chains 1) (rp_clients r)"
    have inv: "clients_inv cs" unfolding cs_def using Cons.prems by (intro cs_modify_ok) simp_all
    have get: "hm_get (cs_clients cs) c = Some (remove_active_chains 1 ci)"
      "\<And>c'. c' \<noteq> c \<Longrightarrow> hm_get (cs_clients cs) c' = hm_get (entries_of r) c'"
      using Some by (simp_all add: cs_def cs_modify_def)
    show ?thesis
    proof (cases "is_pending ci \<or> 1 < ci_active_chains ci")
      case True
      then have "decrement_replicas c (r # rs) st =
          Some (if is_pending ci then r # rs else r\<lparr>rp_clients := cs\<rparr> # rs, st)"
        using Some by (auto simp: cs_def Let_def)
      moreover have "decrement_effect c (r # rs) st (if is_pending ci then r # rs else r\<lparr>rp_clients := cs\<rparr> # rs) st"
        using True Some hc get by (auto simp: decrement_effect_def)
      ultimately show ?thesis using Cons.prems inv get by auto
    next
      case False
      obtain cs' where cs': "remove_client c cs = Some (cs', hm_get (cs_clients cs) c)" "clients_inv cs'"
        "cs_clients cs' = hm_remove c (cs_clients cs)" using remove_client_ok [OF inv] .
      define st' where "st' = send_net_teardown_kind (ci_client_ip ci) (ci_docker_container ci) (rp_ip r) (rp_docker r)
          (ci_net_id ci) (ci_group_carrier ci \<noteq> None) st"
      have "decrement_replicas c (r # rs) st = Some (r\<lparr>rp_clients := cs'\<rparr> # rs, st')"
        using False Some cs'(1) get(1) by (simp add: cs_def Let_def st'_def)
      moreover have "filter (\<lambda>r'. ident r' \<noteq> ident r) (r # rs) = rs"
        using Cons.prems(2) filter_ident_id [of r rs] by simp
      then have "decrement_effect c (r # rs) st (r\<lparr>rp_clients := cs'\<rparr> # rs) st'"
        using False Some hc cs'(3) by (simp add: decrement_effect_def st'_def)
      ultimately show ?thesis using Cons.prems cs' get by auto
    qed
  qed
qed

lemma decrement_chain_ok:
  assumes "reg_inv reg"
  obtains reg' st' where "decrement_chain c reg st = Some (reg', st')" "reg_inv reg'"
    "rg_config reg' = rg_config reg" "same_but c (rg_replicas reg) (rg_replicas reg')"
    "decrement_effect c (rg_replicas reg) st (rg_replicas reg') st'"
proof -
  obtain rs' st' where "decrement_replicas c (rg_replicas reg) st = Some (rs', st')" "reps_inv rs'"
    "same_but c (rg_replicas reg) rs'" "decrement_effect c (rg_replicas reg) st rs' st'"
    using decrement_replicas_ok assms unfolding reg_inv_def by blast
  then show ?thesis
    using that [of "reg\<lparr>rg_replicas := rs'\<rparr>" st'] assms same_but_ident [of c "rg_replicas reg" rs']
      same_but_nonempty [of c "rg_replicas reg" rs']
    by (simp add: decrement_chain_def reg_inv_def)
qed

lemma remove_client_replicas_ok:
  assumes "reps_inv rs"
  shows "\<exists>rs'. remove_client_replicas c rs = Some rs' \<and> reps_inv rs' \<and> same_but c rs rs' \<and>
    length (filter (has_client c) rs') = length (filter (has_client c) rs) - 1"
  using assms
proof (induction rs)
  case (Cons r rs)
  have inv: "clients_inv (rp_clients r)" using Cons.prems by simp
  obtain cs' where cs': "remove_client c (rp_clients r) = Some (cs', hm_get (entries_of r) c)" "clients_inv cs'"
    "cs_clients cs' = hm_remove c (entries_of r)" using remove_client_ok [OF inv] .
  show ?case
  proof (cases "hm_get (entries_of r) c")
    case None
    then show ?thesis using Cons cs' by (auto simp: has_client_def)
  next
    case (Some ci)
    then show ?thesis using Cons.prems cs' by (simp add: has_client_def)
  qed
qed simp

lemma remove_client_ok':
  assumes "reg_inv reg"
  obtains reg' where "reg_remove_client c reg = Some reg'" "reg_inv reg'" "rg_config reg' = rg_config reg"
    "same_but c (rg_replicas reg) (rg_replicas reg')"
proof -
  obtain rs' where "remove_client_replicas c (rg_replicas reg) = Some rs'" "reps_inv rs'" "same_but c (rg_replicas reg) rs'"
    using remove_client_replicas_ok [of "rg_replicas reg" c] assms unfolding reg_inv_def by blast
  then show ?thesis
    using that [of "reg\<lparr>rg_replicas := rs'\<rparr>"] assms same_but_ident [of c "rg_replicas reg" rs']
      same_but_nonempty [of c "rg_replicas reg" rs']
    by (simp add: reg_remove_client_def reg_inv_def)
qed

lemma remove_pending_replicas_ok:
  assumes "reps_inv rs"
  shows "\<exists>rs' st'. remove_pending_replicas c rs st = Some (rs', st') \<and> reps_inv rs' \<and> same_but c rs rs'"
  using assms
proof (induction rs)
  case (Cons r rs)
  have inv: "clients_inv (rp_clients r)" using Cons.prems by simp
  obtain cs' where cs': "remove_pending_client c (rp_clients r) = Some (cs', cs_pending_notify c (rp_clients r))"
    "clients_inv cs'" "cs_clients cs' = (if cs_pending_notify c (rp_clients r) = None then entries_of r else hm_remove c (entries_of r))"
    using remove_pending_client_ok [OF inv] .
  show ?case
  proof (cases "cs_pending_notify c (rp_clients r)")
    case None
    then show ?thesis using Cons cs' by auto
  next
    case (Some t)
    then show ?thesis using Cons.prems cs' by simp
  qed
qed simp

lemma add_client_replicas_ok:
  assumes "reps_inv rs"
  shows "\<exists>landed rs' st'. add_client_replicas ip docker c info rs st = Some (landed, rs', st') \<and> reps_inv rs' \<and>
    same_but c rs rs' \<and> (landed \<longleftrightarrow> list_ex (matches_identity ip docker) rs)"
  using assms
proof (induction rs)
  case (Cons r rs)
  have inv: "clients_inv (rp_clients r)" using Cons.prems by simp
  obtain cs' where cs': "add_client c info (rp_clients r) = Some (cs', cs_pending_notify c (rp_clients r))" "clients_inv cs'"
    "cs_clients cs' = hm_insert c (kept_counts (hm_get (entries_of r) c) info) (entries_of r)"
    using add_client_ok [OF inv] .
  show ?case
  proof (cases "matches_identity ip docker r")
    case True
    then show ?thesis using Cons.prems cs' by auto
  next
    case False
    obtain landed rs' st' where "add_client_replicas ip docker c info rs st = Some (landed, rs', st')" "reps_inv rs'"
      "same_but c rs rs'" "landed \<longleftrightarrow> list_ex (matches_identity ip docker) rs" using Cons by auto
    then show ?thesis using False inv
      by (intro exI [of _ landed] exI [of _ "r # rs'"] exI [of _ st']) simp
  qed
qed (simp, blast)

lemma update_first_split:
  assumes "\<exists>x \<in> set xs. p x"
  obtains a x b where "xs = a @ x # b" "\<forall>y \<in> set a. \<not> p y" "p x" "update_first p f xs = a @ f x # b"
  using assms
proof (induction xs arbitrary: thesis)
  case (Cons y xs)
  show ?case
  proof (cases "p y")
    case True
    then show ?thesis using Cons.prems(1) [of "[]" y xs] by simp
  next
    case False
    then obtain a x b where "xs = a @ x # b" "\<forall>y \<in> set a. \<not> p y" "p x" "update_first p f xs = a @ f x # b"
      using Cons by auto
    then show ?thesis using Cons.prems(1) [of "y # a" x b] False by simp
  qed
qed simp

lemma update_first_none: "\<forall>x \<in> set xs. \<not> p x \<Longrightarrow> update_first p f xs = xs"
  by (induction xs) auto

lemma update_first_all2: "(\<And>x. R x x) \<Longrightarrow> (\<And>x. p x \<Longrightarrow> R x (f x)) \<Longrightarrow> list_all2 R xs (update_first p f xs)"
  by (induction xs) (auto intro: list_all2_refl)

lemma modify_client_same_but:
  "same_but c (rg_replicas reg) (rg_replicas (modify_client c f reg))"
  unfolding same_but_def modify_client_def by (simp, rule update_first_all2) (auto simp: cs_modify_def)

lemma modify_client_inv [keeps]:
  assumes "reg_inv reg" "\<And>ci. ci_group_carrier (f ci) = ci_group_carrier ci"
  shows "reg_inv (modify_client c f reg)"
proof -
  have "reps_inv (update_first (has_client c) (\<lambda>r. r\<lparr>rp_clients := cs_modify c f (rp_clients r)\<rparr>) rs)"
    if "reps_inv rs" for rs
    using that by (induction rs) (auto simp: cs_modify_ok assms(2))
  then show ?thesis
    using assms(1) same_but_ident [OF modify_client_same_but] same_but_nonempty [OF modify_client_same_but]
    by (simp add: reg_inv_def modify_client_def)
qed

lemma add_chain_inv [simp, keeps]: "reg_inv reg \<Longrightarrow> reg_inv (add_chain now c reg)"
  unfolding add_chain_def by (rule modify_client_inv) (simp_all add: add_active_chain_def ci_set_latest_now_def)

lemma retain_replicas_inv [keeps]: "si_inv si \<Longrightarrow> si_inv (retain_replicas keep si)"
proof (cases si)
  case (Registered reg)
  assume "si_inv si"
  then show ?thesis using Registered distinct_map_filter [of ident "rg_replicas reg" keep]
    by (auto simp: retain_replicas_def Let_def reg_inv_def reps_inv_filter)
qed (simp add: retain_replicas_def)

lemma update_from_file_inv [keeps]: "si_inv si \<Longrightarrow> si_inv (update_from_file loaded si)"
  by (cases si) (auto simp: update_from_file_def reg_inv_def)

lemma add_replica_inv [keeps]: "si_inv si \<Longrightarrow> si_inv (fst (add_replica ip port docker si st))"
proof (cases si)
  case (Unregistered c)
  then show ?thesis by (simp add: add_replica_def replica_new_def fresh_def reg_inv_def)
next
  case (Registered reg)
  assume inv: "si_inv si"
  show ?thesis
  proof (cases "list_ex (matches_identity ip docker) (rg_replicas reg)")
    case True
    have "list_all2 (\<lambda>r r'. ident r' = ident r \<and> rp_clients r' = rp_clients r) (rg_replicas reg)
        (update_first (matches_identity ip docker) (\<lambda>r. r\<lparr>rp_port := port\<rparr>) (rg_replicas reg))"
      by (rule update_first_all2) auto
    then have "map ident (update_first (matches_identity ip docker) (\<lambda>r. r\<lparr>rp_port := port\<rparr>) (rg_replicas reg)) = map ident (rg_replicas reg)
        \<and> (reps_inv (update_first (matches_identity ip docker) (\<lambda>r. r\<lparr>rp_port := port\<rparr>) (rg_replicas reg)) \<longleftrightarrow> reps_inv (rg_replicas reg))"
      by (induction rule: list_all2_induct) auto
    then show ?thesis using True inv Registered
      by (auto simp: add_replica_def reg_inv_def dest: map_eq_imp_length_eq)
  next
    case False
    then show ?thesis using inv Registered
      by (auto simp: add_replica_def replica_new_def fresh_def reg_inv_def matches_identity_def list_ex_iff)
  qed
qed

section \<open>A small registry\<close>

text \<open>One service with one replica, for the concrete instances below: two clients of one proxy
  that share network 101, as \<^verbatim>\<open>max_networks\<close> lets them.\<close>

definition ex_config :: service_config where
  "ex_config = \<lparr>sc_proxy_deps = [], sc_triggers = [], sc_timeout = Some 60, sc_max_networks = Some 1,
     sc_protocol = Http, sc_listen_port = None, sc_egress_policy = PolicyNone, sc_ingress_policy = PolicyNone,
     sc_pausable = True\<rparr>"

definition ex_proxy :: ip_addr where
  "ex_proxy = V4 5"

definition ex_entry :: "u32 \<Rightarrow> nat \<Rightarrow> client_info" where
  "ex_entry net_id n = (with_pool_generation 0 ex_proxy 1 2 net_id 3 None 7)\<lparr>ci_active_chains := n\<rparr>"

definition ex_replica :: "(client, client_info) hmap \<Rightarrow> replica" where
  "ex_replica es = \<lparr>rp_ip = V4 9, rp_port = 80, rp_docker = Some ''web'',
     rp_clients = \<lparr>cs_clients = es, cs_group_carriers = []\<rparr>, rp_pause = 1\<rparr>"

definition ex_reg :: "(client, client_info) hmap \<Rightarrow> registered" where
  "ex_reg es = \<lparr>rg_config = ex_config, rg_replicas = [ex_replica es]\<rparr>"

definition ex_client :: "string \<Rightarrow> client" where
  "ex_client name = client_new name (Some ex_proxy)"

lemmas ex_defs = ex_config_def ex_proxy_def ex_entry_def ex_replica_def ex_reg_def ex_client_def
  client_new_def client_new_service_def with_pool_generation_def

lemma ex_reg_inv:
  assumes "hm_inv es" "\<forall>e \<in> set es. ci_group_carrier (snd e) = None"
  shows "reg_inv (ex_reg es)"
proof -
  have "carrier_users es = carrier_count []"
    using assms(2) by (intro ext) (auto simp: carrier_users_def carrier_count_def hm_count_def carrier_of_def filter_empty_conv
        split: option.splits)
  then show ?thesis using assms(1) by (simp add: reg_inv_def reps_inv_def ex_reg_def ex_replica_def clients_inv_def)
qed

section \<open>Properties\<close>

text \<open>\<^bold>\<open>C13.\<close> Giving up one hold on a live edge never panics and touches no other client.  While other
  chains hold the edge only its count drops and nothing is sent; with the last hold the entry
  goes and exactly the edge's own network is torn down.\<close>

theorem decrement_chain_exact:
  assumes "reg_inv reg" "find (has_client c) (rg_replicas reg) = Some r"
    "hm_get (entries_of r) c = Some ci" "\<not> is_pending ci" "sticky reg"
  shows "\<exists>reg' st'. decrement_chain c reg st = Some (reg', st') \<and> reg_inv reg' \<and>
    (\<forall>c'. c' \<noteq> c \<longrightarrow> client_at c' (rg_replicas reg') = client_at c' (rg_replicas reg)) \<and>
    (if 1 < ci_active_chains ci
     then st' = st \<and> client_at c (rg_replicas reg') = Some (ci\<lparr>ci_active_chains := ci_active_chains ci - 1\<rparr>)
     else st' = send_net_teardown_kind (ci_client_ip ci) (ci_docker_container ci) (rp_ip r) (rp_docker r)
            (ci_net_id ci) (ci_group_carrier ci \<noteq> None) st \<and> client_at c (rg_replicas reg') = None)"
proof -
  obtain reg' st' where d: "decrement_chain c reg st = Some (reg', st')" "reg_inv reg'"
    "same_but c (rg_replicas reg) (rg_replicas reg')" "decrement_effect c (rg_replicas reg) st (rg_replicas reg') st'"
    using decrement_chain_ok [OF assms(1)] .
  have "client_at c (filter (\<lambda>r'. ident r' \<noteq> ident r) (rg_replicas reg)) = None"
    by (rule sticky_gone [OF assms(5,2)])
  then show ?thesis
    using d assms(2-4) same_but_client_at [OF d(3)]
    by (auto simp: decrement_effect_def remove_active_chains_def)
qed

theorem decrement_chain_exact_witness:
  "map_option (\<lambda>(reg, st). (client_at (ex_client ''u'') (rg_replicas reg), o_pool st))
     (decrement_chain (ex_client ''u'') (ex_reg [(ex_client ''u'', ex_entry 101 2)]) (orch_new Vxlan False False []))
   = Some (Some (ex_entry 101 1), pool_new)"
proof -
  let ?es = "[(ex_client ''u'', ex_entry 101 2)]"
  have "reg_inv (ex_reg ?es)" by (rule ex_reg_inv) (simp_all add: hm_inv_def ex_defs)
  moreover have "find (has_client (ex_client ''u'')) (rg_replicas (ex_reg ?es)) = Some (ex_replica ?es)" by code_simp
  moreover have "sticky (ex_reg ?es)" by (auto simp: sticky_def ex_reg_def)
  moreover have "hm_get (entries_of (ex_replica ?es)) (ex_client ''u'') = Some (ex_entry 101 2)"
    "\<not> is_pending (ex_entry 101 2)" "1 < ci_active_chains (ex_entry 101 2)"
    "(ex_entry 101 2)\<lparr>ci_active_chains := ci_active_chains (ex_entry 101 2) - 1\<rparr> = ex_entry 101 1" by code_simp+
  ultimately obtain reg' st' where "decrement_chain (ex_client ''u'') (ex_reg ?es) (orch_new Vxlan False False []) = Some (reg', st')"
    "st' = orch_new Vxlan False False []" "client_at (ex_client ''u'') (rg_replicas reg') = Some (ex_entry 101 1)"
    using decrement_chain_exact [of "ex_reg ?es" "ex_client ''u''" "ex_replica ?es" "ex_entry 101 2" "orch_new Vxlan False False []"]
    by metis
  then show ?thesis by (simp add: orch_new_def)
qed

text \<open>\<^bold>\<open>C25.\<close> The same operation does not look at the other users of the network: the last hold of a
  client tears its network down although another client of the service, which joined that
  network, keeps its live entry on it.\<close>

theorem decrement_closes_shared_network:
  assumes "reg_inv reg" "find (has_client c) (rg_replicas reg) = Some r"
    "hm_get (entries_of r) c = Some ci" "\<not> is_pending ci" "ci_active_chains ci = 1"
    "c' \<noteq> c" "r' \<in> set (rg_replicas reg)" "hm_get (entries_of r') c' = Some ci'" "ci_net_id ci' = ci_net_id ci"
  shows "\<exists>reg' st'. decrement_chain c reg st = Some (reg', st') \<and> has_clients_with_net_id (ci_net_id ci) reg' \<and>
    st' = send_net_teardown_kind (ci_client_ip ci) (ci_docker_container ci) (rp_ip r) (rp_docker r)
            (ci_net_id ci) (ci_group_carrier ci \<noteq> None) st"
proof -
  obtain reg' st' where d: "decrement_chain c reg st = Some (reg', st')"
    "same_but c (rg_replicas reg) (rg_replicas reg')" "decrement_effect c (rg_replicas reg) st (rg_replicas reg') st'"
    using decrement_chain_ok [OF assms(1)] .
  obtain r'' where "r'' \<in> set (rg_replicas reg')" "hm_get (entries_of r'') c' = hm_get (entries_of r') c'"
    by (rule same_but_member [OF d(2) assms(6,7)])
  then have "(c', ci') \<in> set (reg_entries reg')" using assms(8) by (auto simp: reg_entries_def dest: hm_get_SomeD)
  then have "has_clients_with_net_id (ci_net_id ci) reg'"
    using assms(9) by (auto simp: has_clients_with_net_id_def list_ex_iff)
  then show ?thesis using d assms(2-5) by (auto simp: decrement_effect_def)
qed

theorem decrement_closes_shared_network_witness:
  "\<exists>reg' st'. decrement_chain (ex_client ''u'')
     (ex_reg [(ex_client ''u'', ex_entry 101 1), (ex_client ''v'', ex_entry 101 1)]) (orch_new Vxlan False False []) = Some (reg', st')
   \<and> has_clients_with_net_id 101 reg'"
proof -
  let ?es = "[(ex_client ''u'', ex_entry 101 1), (ex_client ''v'', ex_entry 101 1)]"
  have "reg_inv (ex_reg ?es)" by (rule ex_reg_inv) (simp_all add: hm_inv_def ex_defs)
  moreover have "find (has_client (ex_client ''u'')) (rg_replicas (ex_reg ?es)) = Some (ex_replica ?es)" by code_simp
  moreover have "hm_get (entries_of (ex_replica ?es)) (ex_client ''u'') = Some (ex_entry 101 1)"
    "hm_get (entries_of (ex_replica ?es)) (ex_client ''v'') = Some (ex_entry 101 1)"
    "ex_client ''v'' \<noteq> ex_client ''u''" "\<not> is_pending (ex_entry 101 1)" "ci_active_chains (ex_entry 101 1) = 1"
    "ex_replica ?es \<in> set (rg_replicas (ex_reg ?es))" "ci_net_id (ex_entry 101 1) = 101" by code_simp+
  ultimately show ?thesis
    using decrement_closes_shared_network [of "ex_reg ?es" "ex_client ''u''" "ex_replica ?es" "ex_entry 101 1"
        "ex_client ''v''" "ex_replica ?es" "ex_entry 101 1" "orch_new Vxlan False False []"]
    by metis
qed

text \<open>What a reconciliation leaves alone, and what it sends.\<close>

definition pause_frame :: "(chan \<Rightarrow> net_message \<Rightarrow> bool) \<Rightarrow> orch \<Rightarrow> orch \<Rightarrow> bool" where
  "pause_frame ok st st' \<longleftrightarrow> o_clients st' = o_clients st \<and> o_egress st' = o_egress st \<and> o_backend st' = o_backend st \<and>
     (\<exists>new. o_sent st' = o_sent st @ new \<and> (\<forall>(ch, m) \<in> set new. ok ch m))"

lemma pause_frame_refl [simp]: "pause_frame ok st st"
  by (simp add: pause_frame_def)

lemma pause_frame_trans: "pause_frame ok st st' \<Longrightarrow> pause_frame ok st' st'' \<Longrightarrow> pause_frame ok st st''"
  by (fastforce simp: pause_frame_def)

lemma resume_frame: "pause_frame ok st (snd (resume r st))"
  by (auto simp: resume_def pause_frame_def fresh_def split: option.splits)

lemma has_outgoing_work_frame: "pause_frame ok st st' \<Longrightarrow> has_outgoing_work ip k st' = has_outgoing_work ip k st"
  by (simp add: pause_frame_def has_outgoing_work_def)

lemma reconcile_suspend_frame:
  assumes "\<And>ch k. pausable \<Longrightarrow> rp_docker r = Some k \<Longrightarrow> hm_get (o_clients st) (rp_ip r) = Some ch \<Longrightarrow>
      cs_clients (rp_clients r) = [] \<Longrightarrow> \<not> has_outgoing_work (rp_ip r) k st \<Longrightarrow> ok ch (ContainerSuspend k)"
  shows "pause_frame ok st (reconcile_suspend pausable r st)"
proof (cases "rp_docker r")
  case (Some k)
  show ?thesis
  proof (cases "pausable \<and> \<not> suspended r st \<and> cs_clients (rp_clients r) = [] \<and> \<not> has_outgoing_work (rp_ip r) k st")
    case True
    then show ?thesis using Some assms
      by (auto simp: reconcile_suspend_def send_container_suspend_def pause_frame_def stream_send_def Let_def split: option.splits)
  next
    case False
    then show ?thesis using Some resume_frame by (auto simp: reconcile_suspend_def)
  qed
qed (simp add: reconcile_suspend_def)

text \<open>\<^bold>\<open>C15.\<close> Everything a pause reconciliation sends is a suspension of a container that is safe to
  stop: every declaration of that very container permits pausing, has no client, live or
  reserved, and no resume in flight, and the container has no egress edge and no trigger session.\<close>

theorem pause_only_idle_containers:
  "\<exists>new. o_sent (reconcile_container_pauses services st) = o_sent st @ new \<and>
     (\<forall>(ch, m) \<in> set new. \<exists>p r k. (p, r) \<in> set (declared_replicas services) \<and> rp_docker r = Some k \<and>
        m = ContainerSuspend k \<and> hm_get (o_clients st) (rp_ip r) = Some ch \<and> \<not> has_outgoing_work (rp_ip r) k st \<and>
        (\<forall>(p', r') \<in> set (declared_replicas services). rp_ip r' = rp_ip r \<and> rp_docker r' = Some k \<longrightarrow>
           p' \<and> cs_clients (rp_clients r') = [] \<and> \<not> resume_pending r' st))"
proof -
  define ok where "ok ch m \<longleftrightarrow> (\<exists>p r k. (p, r) \<in> set (declared_replicas services) \<and> rp_docker r = Some k \<and>
        m = ContainerSuspend k \<and> hm_get (o_clients st) (rp_ip r) = Some ch \<and> \<not> has_outgoing_work (rp_ip r) k st \<and>
        (\<forall>(p', r') \<in> set (declared_replicas services). rp_ip r' = rp_ip r \<and> rp_docker r' = Some k \<longrightarrow>
           p' \<and> cs_clients (rp_clients r') = [] \<and> \<not> resume_pending r' st))" for ch m
  let ?blocked = "set (pause_blocked services st)"
  let ?f = "\<lambda>(pausable, r). reconcile_suspend (pausable \<and> (rp_ip r, rp_docker r) \<notin> ?blocked) r"
  have clear: "p' \<and> cs_clients (rp_clients r') = [] \<and> \<not> resume_pending r' st"
    if "(rp_ip r', rp_docker r') \<notin> ?blocked" "(p', r') \<in> set (declared_replicas services)" for p' r'
    using that unfolding pause_blocked_def by force
  have "pause_frame ok st (fold ?f xs st)" if "set xs \<subseteq> set (declared_replicas services)" for xs
    using that
  proof (induction xs rule: rev_induct)
    case (snoc x xs)
    obtain p r where x: "x = (p, r)" by force
    let ?st = "fold ?f xs st"
    have IH: "pause_frame ok st ?st" using snoc by simp
    have "pause_frame ok ?st (?f x ?st)"
      unfolding x prod.case
    proof (rule reconcile_suspend_frame)
      fix ch k
      assume a: "p \<and> (rp_ip r, rp_docker r) \<notin> ?blocked" "rp_docker r = Some k"
        "hm_get (o_clients ?st) (rp_ip r) = Some ch" "\<not> has_outgoing_work (rp_ip r) k ?st"
      have "hm_get (o_clients st) (rp_ip r) = Some ch" "\<not> has_outgoing_work (rp_ip r) k st"
        using IH a(3,4) by (simp_all add: pause_frame_def has_outgoing_work_frame [OF IH])
      moreover have "\<forall>(p', r') \<in> set (declared_replicas services). rp_ip r' = rp_ip r \<and> rp_docker r' = Some k \<longrightarrow>
           p' \<and> cs_clients (rp_clients r') = [] \<and> \<not> resume_pending r' st"
        using clear a(1,2) by (auto; metis)
      ultimately show "ok ch (ContainerSuspend k)" using a(2) snoc.prems x unfolding ok_def by auto
    qed
    with IH have "pause_frame ok st (?f x ?st)" by (rule pause_frame_trans)
    then show ?case by simp
  qed simp
  then have "pause_frame ok st (reconcile_container_pauses services st)"
    by (simp add: reconcile_container_pauses_def Let_def)
  then show ?thesis unfolding pause_frame_def ok_def by blast
qed

theorem pause_only_idle_containers_witness:
  "o_sent (reconcile_container_pauses [(''default'', [(''web'', Registered (ex_reg []))])]
     ((orch_new Vxlan False False [])\<lparr>o_clients := [(V4 9, 4)], o_pauses := [(1, \<lparr>ps_suspended = False, ps_resume = None\<rparr>)]\<rparr>))
   = [(4, ContainerSuspend ''web'')]"
proof -
  let ?st = "(orch_new Vxlan False False [])\<lparr>o_clients := [(V4 9, 4)], o_pauses := [(1, \<lparr>ps_suspended = False, ps_resume = None\<rparr>)]\<rparr>"
  have "o_sent ?st = []" by (simp add: orch_new_def)
  moreover have "o_sent (reconcile_container_pauses [(''default'', [(''web'', Registered (ex_reg []))])] ?st) \<noteq> []
      \<and> length (o_sent (reconcile_container_pauses [(''default'', [(''web'', Registered (ex_reg []))])] ?st)) = 1" by code_simp
  ultimately show ?thesis
    using pause_only_idle_containers [of "[(''default'', [(''web'', Registered (ex_reg []))])]" ?st]
    by (auto simp: length_Suc_conv declared_replicas_def ex_reg_def ex_replica_def hm_get_def)
qed

end
