(* ===== verification/Changes.thy ===== *)
theory Changes
  imports Service_Inv
begin

text \<open>
  Changes of the registry and the teardowns they cause (nullnet-server, \<^verbatim>\<open>services/changes.rs\<close>):
  detection of what changed, the walk over the dependency chain of a proxy client, the release of
  trigger chains and \<^verbatim>\<open>apply_changes\<close>.  The registry of the stack and the orchestrator are passed
  along; \<^const>\<open>None\<close> is a panic.
\<close>

section \<open>Changes and their detection\<close>

datatype service_change =
    Removed string
  | ProxyDepsChanged string
  | TriggersChanged string
  | ReachabilityChanged string bool
  | ReplicasRemoved string ip_addr
  | ReplicaRemoved string ip_addr "string option"
  | ProxyDisconnected ip_addr
  | ProxyClientTimedOut string client
  | StaleSessionEvicted string client
  | ForceSessionTeardown string client

datatype proxy_filter =
    FilterAll
  | ByIp ip_addr
  | ByClient client
  | OnReplica ip_addr "string option"
  | OnIp ip_addr

fun proxy_filter_matches :: "proxy_filter \<Rightarrow> client \<Rightarrow> ip_addr \<Rightarrow> string option \<Rightarrow> bool" where
  "proxy_filter_matches f c replica_ip replica_docker \<longleftrightarrow> cl_proxy c \<noteq> None \<and> (case f of
       FilterAll \<Rightarrow> True
     | ByIp ip \<Rightarrow> cl_proxy c = Some ip
     | ByClient c' \<Rightarrow> c = c'
     | OnReplica ip docker \<Rightarrow> replica_ip = ip \<and> replica_docker = docker
     | OnIp ip \<Rightarrow> replica_ip = ip)"

text \<open>\<^verbatim>\<open>==\<close> of two hash maps.\<close>

definition hm_eq :: "('k, 'v) hmap \<Rightarrow> ('k, 'v) hmap \<Rightarrow> bool" where
  "hm_eq m m' \<longleftrightarrow> length m = length m' \<and> (\<forall>(k, v) \<in> set m. hm_get m' k = Some v)"

text \<open>Seconds of the configuration in the milliseconds of instants.\<close>

definition from_secs :: "nat \<Rightarrow> nat" where
  "from_secs s = 1000 * s"

definition timeout_changes :: "instant \<Rightarrow> string \<Rightarrow> service_info \<Rightarrow> service_info \<Rightarrow> service_change list" where
  "timeout_changes now name loaded_info old_info =
     (if (si_timeout loaded_info \<noteq> None) \<noteq> (si_timeout old_info \<noteq> None)
      then [ReachabilityChanged name (si_timeout loaded_info \<noteq> None)]
      else (case (si_timeout loaded_info, si_timeout old_info) of
          (Some new_timeout, Some old_timeout) \<Rightarrow>
            if new_timeout \<noteq> old_timeout \<and> 0 < new_timeout \<and> (old_timeout = 0 \<or> new_timeout < old_timeout)
            then (case old_info of
                Registered reg \<Rightarrow> map (ProxyClientTimedOut name) (expired_proxy_clients now (from_secs new_timeout) reg)
              | Unregistered _ \<Rightarrow> [])
            else []
        | _ \<Rightarrow> []))"

definition detect_config_changes :: "instant \<Rightarrow> services \<Rightarrow> services \<Rightarrow> service_change list" where
  "detect_config_changes now current loaded =
     map Removed (filter (\<lambda>name. hm_get loaded name = None) (hm_keys current)) @
     concat (map (\<lambda>(name, loaded_info). case hm_get current name of
         None \<Rightarrow> []
       | Some old_info \<Rightarrow>
           (if si_timeout loaded_info \<noteq> None \<and> si_proxy_deps loaded_info \<noteq> si_proxy_deps old_info
            then [ProxyDepsChanged name] else []) @
           (if \<not> hm_eq (si_triggers loaded_info) (si_triggers old_info) then [TriggersChanged name] else []) @
           timeout_changes now name loaded_info old_info) loaded)"

definition detect_services_list_changes ::
  "services \<Rightarrow> ip_addr \<Rightarrow> (string \<times> u16 \<times> string option) list \<Rightarrow> service_change list" where
  "detect_services_list_changes current sender_ip service_list =
     concat (map (\<lambda>(name, si). case si of
         Unregistered _ \<Rightarrow> []
       | Registered reg \<Rightarrow> map (\<lambda>r. ReplicaRemoved name sender_ip (rp_docker r))
           (filter (\<lambda>r. rp_ip r = sender_ip \<and>
              \<not> list_ex (\<lambda>(n, _, dc). n = name \<and> dc = rp_docker r) service_list) (rg_replicas reg))) current)"

definition has_clients_of_proxy :: "ip_addr \<Rightarrow> service_info \<Rightarrow> bool" where
  "has_clients_of_proxy ip si = (case si of
       Unregistered _ \<Rightarrow> False
     | Registered reg \<Rightarrow> list_ex (\<lambda>r. list_ex (\<lambda>c. cl_proxy c = Some ip) (hm_keys (cs_clients (rp_clients r)))) (rg_replicas reg))"

definition detect_node_disconnect_changes :: "services \<Rightarrow> ip_addr \<Rightarrow> service_change list" where
  "detect_node_disconnect_changes current disconnected_ip =
     concat (map (\<lambda>(name, si). case si of
         Registered reg \<Rightarrow> if has_replica_on_ip disconnected_ip reg then [ReplicasRemoved name disconnected_ip] else []
       | Unregistered _ \<Rightarrow> []) current) @
     (if list_ex (\<lambda>(_, si). has_clients_of_proxy disconnected_ip si) current
      then [ProxyDisconnected disconnected_ip] else [])"

section \<open>Walking a dependency chain\<close>

text \<open>The edge from the current replica to a dependency, and the replica of the dependency it is
  live on.\<close>

definition emit_edge_and_probe_hop ::
  "string \<Rightarrow> ip_addr \<Rightarrow> string option \<Rightarrow> string \<Rightarrow> services \<Rightarrow> (client \<times> string) \<times> identity option" where
  "emit_edge_and_probe_hop current_name current_ip current_docker dep_name services = (let
       c = client_new_service current_name current_ip current_docker;
       hop = (case hm_get services dep_name of Some (Registered dep_reg) \<Rightarrow> client_replica_live c dep_reg | _ \<Rightarrow> None)
     in ((c, dep_name), hop))"

fun collect_branch ::
  "services \<Rightarrow> string \<Rightarrow> ip_addr \<Rightarrow> string option \<Rightarrow> string list \<Rightarrow> (client \<times> string) list" where
  "collect_branch services current_name current_ip current_docker [] = []"
| "collect_branch services current_name current_ip current_docker (dep_name # branch) =
     (let (edge, hop) = emit_edge_and_probe_hop current_name current_ip current_docker dep_name services
      in edge # (case hop of
          Some (ip, docker) \<Rightarrow> collect_branch services dep_name ip docker branch
        | None \<Rightarrow> []))"

definition collect_dep_chain_edges ::
  "string \<Rightarrow> ip_addr \<Rightarrow> string option \<Rightarrow> services \<Rightarrow> (client \<times> string) list" where
  "collect_dep_chain_edges service_name replica_ip replica_docker services =
     (case hm_get services service_name of
        None \<Rightarrow> []
      | Some si \<Rightarrow> concat (map (collect_branch services service_name replica_ip replica_docker) (si_proxy_deps si)))"

definition dep_chain_intact :: "string \<Rightarrow> ip_addr \<Rightarrow> string option \<Rightarrow> services \<Rightarrow> bool" where
  "dep_chain_intact service_name replica_ip replica_docker services =
     list_all (\<lambda>(c, dep_name). case hm_get services dep_name of
         Some (Registered dep_reg) \<Rightarrow> client_replica_live c dep_reg \<noteq> None
       | _ \<Rightarrow> False) (collect_dep_chain_edges service_name replica_ip replica_docker services)"

definition dep_chain_has_pending :: "string \<Rightarrow> ip_addr \<Rightarrow> string option \<Rightarrow> services \<Rightarrow> bool" where
  "dep_chain_has_pending service_name replica_ip replica_docker services =
     list_ex (\<lambda>(c, dep_name). case hm_get services dep_name of
         Some (Registered dep_reg) \<Rightarrow> pending_notify c dep_reg \<noteq> None
       | _ \<Rightarrow> False) (collect_dep_chain_edges service_name replica_ip replica_docker services)"

section \<open>Teardown of chains\<close>

type_synonym world = "services \<times> orch"

text \<open>\<^verbatim>\<open>if let Some(ServiceInfo::Registered(reg)) = services.get_mut(name)\<close>\<close>

definition on_registered :: "string \<Rightarrow> (registered \<Rightarrow> orch \<Rightarrow> (registered \<times> orch) option) \<Rightarrow> world \<Rightarrow> world option" where
  "on_registered name f w = (case hm_get (fst w) name of
       Some (Registered reg) \<Rightarrow> map_option (\<lambda>(reg', st'). (hm_insert name (Registered reg') (fst w), st')) (f reg (snd w))
     | _ \<Rightarrow> Some w)"

definition decrement_edges :: "(client \<times> string) list \<Rightarrow> world \<Rightarrow> world option" where
  "decrement_edges edges w = foldM (\<lambda>(c, dep_name). on_registered dep_name (decrement_chain c)) edges w"

definition teardown_dep_chain :: "string \<Rightarrow> ip_addr \<Rightarrow> string option \<Rightarrow> world \<Rightarrow> world option" where
  "teardown_dep_chain service_name replica_ip replica_docker w =
     decrement_edges (collect_dep_chain_edges service_name replica_ip replica_docker (fst w)) w"

text \<open>A collected proxy client: the client, the address, network and container of its near end,
  the replica of its far end and whether a group carries it.\<close>

type_synonym proxy_teardown = "client \<times> ip_addr \<times> u32 \<times> string option \<times> ip_addr \<times> string option \<times> bool"

definition proxy_teardowns :: "proxy_filter \<Rightarrow> registered \<Rightarrow> proxy_teardown list" where
  "proxy_teardowns f reg = map (\<lambda>(c, ci, rip, rd).
       (c, ci_client_ip ci, ci_net_id ci, ci_docker_container ci, rip, rd, ci_group_carrier ci \<noteq> None))
     (filter (\<lambda>(c, _, rip, rd). proxy_filter_matches f c rip rd) (all_clients_owned reg))"

definition remove_torn_clients :: "string \<Rightarrow> proxy_teardown list \<Rightarrow> world \<Rightarrow> world option" where
  "remove_torn_clients name tds w = on_registered name (\<lambda>reg st.
     map_option (\<lambda>reg. (reg, st)) (foldM (\<lambda>(c, _). reg_remove_client c) tds reg)) w"

definition net_shared :: "string \<Rightarrow> u32 \<Rightarrow> services \<Rightarrow> bool" where
  "net_shared name net_id services = (case hm_get services name of
     Some (Registered reg) \<Rightarrow> has_clients_with_net_id net_id reg | _ \<Rightarrow> False)"

fun close_networks :: "string \<Rightarrow> services \<Rightarrow> u32 list \<Rightarrow> proxy_teardown list \<Rightarrow> orch \<Rightarrow> orch" where
  "close_networks name services torn_down [] st = st"
| "close_networks name services torn_down ((_, client_ip, net_id, client_docker, service_ip, service_docker, grp) # tds) st =
     (if net_id \<in> set torn_down then close_networks name services torn_down tds st
      else close_networks name services (net_id # torn_down) tds
        (if net_shared name net_id services then st
         else (let st = send_net_teardown_kind client_ip client_docker service_ip service_docker net_id grp st
               in if o_diag st then emit (SessionTornDown net_id name client_ip) st else st)))"

definition teardown_chain :: "string \<Rightarrow> proxy_filter \<Rightarrow> world \<Rightarrow> world option" where
  "teardown_chain name f w = (case hm_get (fst w) name of
       Some (Registered reg) \<Rightarrow> do {
         let tds = proxy_teardowns f reg;
         w \<leftarrow> foldM (\<lambda>(_, _, _, _, ip, docker, _). teardown_dep_chain name ip docker) tds w;
         w \<leftarrow> remove_torn_clients name tds w;
         let st = fold (\<lambda>(c, _, net_id, _). history (CloseIngress net_id name (cl_name c))) tds (snd w);
         Some (fst w, close_networks name (fst w) [] tds st)
       }
     | _ \<Rightarrow> Some w)"

section \<open>Trigger chains\<close>

definition matching_trigger_ports :: "string \<Rightarrow> string option \<Rightarrow> u16 option \<Rightarrow> services \<Rightarrow> u16 list" where
  "matching_trigger_ports initiator_name only_through only_port services =
     (case hm_get services initiator_name of
        None \<Rightarrow> []
      | Some si \<Rightarrow> map fst (filter (\<lambda>(port, peer).
          (case only_port of None \<Rightarrow> True | Some p \<Rightarrow> port = p) \<and>
          (case only_through of None \<Rightarrow> True | Some dep \<Rightarrow> peer = dep)) (si_triggers si)))"

text \<open>The two index expressions panic on a missing key.\<close>

definition collect_backend_chain_edges ::
  "string \<Rightarrow> ip_addr \<Rightarrow> string option \<Rightarrow> string option \<Rightarrow> u16 option \<Rightarrow> services \<Rightarrow> (client \<times> string) list option" where
  "collect_backend_chain_edges initiator_name initiator_ip initiator_docker only_through only_port services =
     those (map (\<lambda>port. do {
         si \<leftarrow> hm_get services initiator_name;
         peer \<leftarrow> hm_get (si_triggers si) port;
         Some (client_new_service initiator_name initiator_ip initiator_docker, peer)
       }) (matching_trigger_ports initiator_name only_through only_port services))"

definition teardown_backend_chain ::
  "string \<Rightarrow> ip_addr \<Rightarrow> string option \<Rightarrow> string option \<Rightarrow> u16 option \<Rightarrow> world \<Rightarrow> world option" where
  "teardown_backend_chain initiator_name initiator_ip initiator_docker only_through only_port w = (let
       ports = matching_trigger_ports initiator_name only_through only_port (fst w)
     in do {
       (edges, st) \<leftarrow> foldM (\<lambda>port (edges, st).
           let (building, st) = cancel_backend_build (initiator_name, initiator_ip, initiator_docker, port) st
           in if building then Some (edges, st)
              else map_option (\<lambda>es. (edges @ es, st)) (collect_backend_chain_edges initiator_name initiator_ip
                initiator_docker only_through (Some port) (fst w))) ports ([], snd w);
       (services, st) \<leftarrow> decrement_edges edges (fst w, st);
       Some (services, forget_backend_sessions initiator_name initiator_ip initiator_docker ports st)
     })"

definition release_backend_chain :: "string \<Rightarrow> ip_addr \<Rightarrow> string option \<Rightarrow> u16 \<Rightarrow> world \<Rightarrow> world option" where
  "release_backend_chain initiator_name initiator_ip initiator_docker port w =
     teardown_backend_chain initiator_name initiator_ip initiator_docker None (Some port) w"

definition teardown_all_backend_chains_for :: "string \<Rightarrow> string option \<Rightarrow> world \<Rightarrow> world option" where
  "teardown_all_backend_chains_for initiator_name only_through w = (let
       replicas = (case hm_get (fst w) initiator_name of
           Some (Registered reg) \<Rightarrow> map (\<lambda>r. (rp_ip r, rp_docker r)) (rg_replicas reg)
         | _ \<Rightarrow> [])
     in foldM (\<lambda>(ip, docker). teardown_backend_chain initiator_name ip docker only_through None) replicas w)"

section \<open>Applying changes\<close>

definition teardown_invalidated_service :: "string \<Rightarrow> bool \<Rightarrow> world \<Rightarrow> world option" where
  "teardown_invalidated_service invalidated_service is_failed w = (let
       services_to_cleanup = map fst (filter (\<lambda>(service_name, si). invalidated_service = service_name \<or>
         (case si of Registered _ \<Rightarrow> deps_contain invalidated_service si | Unregistered _ \<Rightarrow> False)) (fst w))
     in do {
       w \<leftarrow> foldM (\<lambda>name w. do {
           w \<leftarrow> teardown_chain name FilterAll w;
           teardown_all_backend_chains_for name
             (if name = invalidated_service then None else Some invalidated_service) w
         }) services_to_cleanup w;
       Some (case hm_get (fst w) invalidated_service of
           Some (Registered reg) \<Rightarrow> if is_failed
             then (hm_insert invalidated_service (let c = rg_config reg in
                 with_pausable (sc_pausable c) (service_info_new (sc_proxy_deps c) (sc_triggers c) (sc_timeout c)
                   (sc_max_networks c) (sc_protocol c) (sc_listen_port c) (sc_egress_policy c) (sc_ingress_policy c))) (fst w), snd w)
             else w
         | _ \<Rightarrow> w)
     })"

definition teardown_partial_replicas :: "string \<Rightarrow> proxy_filter \<Rightarrow> world \<Rightarrow> world option" where
  "teardown_partial_replicas name f w = (case hm_get (fst w) name of
       Some (Registered reg) \<Rightarrow> (let affected = (case f of
             OnIp ip \<Rightarrow> service_clients_on_ip ip reg
           | OnReplica ip docker \<Rightarrow> service_clients_on_replica ip docker reg
           | _ \<Rightarrow> [])
         in do {
           w \<leftarrow> foldM (\<lambda>c w. case cl_replica c of
               Some (src_ip, src_docker) \<Rightarrow> do {
                 w \<leftarrow> teardown_chain (cl_name c) (OnReplica src_ip src_docker) w;
                 teardown_backend_chain (cl_name c) src_ip src_docker (Some name) None w
               }
             | None \<Rightarrow> Some w) affected w;
           teardown_chain name f w
         })
     | _ \<Rightarrow> Some w)"

definition modify_service :: "string \<Rightarrow> (service_info \<Rightarrow> service_info) \<Rightarrow> world \<Rightarrow> world" where
  "modify_service name f w = (hm_modify name f (fst w), snd w)"

definition replicas_removed :: "string \<Rightarrow> string \<Rightarrow> ip_addr \<Rightarrow> world \<Rightarrow> world option" where
  "replicas_removed stack name ip w = (case hm_get (fst w) name of
       Some (Registered reg) \<Rightarrow> if list_all (\<lambda>r. rp_ip r = ip) (rg_replicas reg)
         then teardown_invalidated_service name True (fst w, emit (AllReplicasRemoved name stack ip) (snd w))
         else do {
           w \<leftarrow> foldM (\<lambda>docker. teardown_backend_chain name ip docker None None)
                  (map rp_docker (filter (\<lambda>r. rp_ip r = ip) (rg_replicas reg))) w;
           w \<leftarrow> teardown_partial_replicas name (OnIp ip) w;
           Some (modify_service name (remove_replicas_on_ip ip) w)
         }
     | _ \<Rightarrow> do {
           w \<leftarrow> teardown_partial_replicas name (OnIp ip) w;
           Some (modify_service name (remove_replicas_on_ip ip) w)
         })"

definition replica_removed :: "string \<Rightarrow> ip_addr \<Rightarrow> string option \<Rightarrow> world \<Rightarrow> world option" where
  "replica_removed name ip docker w = (let
       is_last = (case hm_get (fst w) name of Some (Registered reg) \<Rightarrow> length (rg_replicas reg) = 1 | _ \<Rightarrow> False)
     in if is_last then teardown_invalidated_service name True w
        else do {
          w \<leftarrow> teardown_backend_chain name ip docker None None w;
          w \<leftarrow> teardown_partial_replicas name (OnReplica ip docker) w;
          Some (modify_service name (remove_replica ip docker) w)
        })"

definition emit_if_diag :: "event \<Rightarrow> world \<Rightarrow> world" where
  "emit_if_diag e w = (fst w, if o_diag (snd w) then emit e (snd w) else snd w)"

fun apply_change :: "string \<Rightarrow> service_change \<Rightarrow> world \<Rightarrow> world option" where
  "apply_change stack (Removed name) w = do {
     w \<leftarrow> teardown_invalidated_service name True (emit_if_diag (ServiceUnregistered name stack) w);
     Some (hm_remove name (fst w), snd w)
   }"
| "apply_change stack (ProxyDepsChanged name) w = teardown_invalidated_service name False w"
| "apply_change stack (TriggersChanged name) w = teardown_all_backend_chains_for name None w"
| "apply_change stack (ReachabilityChanged name now_reachable) w = do {
     w \<leftarrow> teardown_chain name FilterAll (fst w, emit (ServiceReachabilityToggled name stack now_reachable) (snd w));
     teardown_all_backend_chains_for name None w
   }"
| "apply_change stack (ReplicasRemoved name ip) w = replicas_removed stack name ip w"
| "apply_change stack (ReplicaRemoved name ip docker) w = replica_removed name ip docker w"
| "apply_change stack (ProxyDisconnected ip) w =
     foldM (\<lambda>name. teardown_chain name (ByIp ip))
       (map fst (filter (\<lambda>(_, si). has_clients_of_proxy ip si) (fst w))) w"
| "apply_change stack (ProxyClientTimedOut name c) w =
     teardown_chain name (ByClient c) (emit_if_diag (ProxyClientTimedOutEvent name c) w)"
| "apply_change stack (StaleSessionEvicted name c) w = teardown_chain name (ByClient c) w"
| "apply_change stack (ForceSessionTeardown name c) w = teardown_chain name (ByClient c) w"

definition apply_changes :: "service_change list \<Rightarrow> services option \<Rightarrow> string \<Rightarrow> world \<Rightarrow> world option" where
  "apply_changes changes loaded stack w = do {
     w \<leftarrow> foldM (apply_change stack) changes w;
     Some (case loaded of
         None \<Rightarrow> w
       | Some loaded \<Rightarrow> (fold (\<lambda>(name, loaded_info) services.
           (case hm_get services name of
              Some existing \<Rightarrow> hm_insert name (update_from_file loaded_info existing) services
            | None \<Rightarrow> hm_insert name loaded_info services)) loaded (fst w), snd w))
   }"

end
