(* ===== verification/Changes_Inv.thy ===== *)
theory Changes_Inv
  imports Changes
begin

text \<open>
  What applying changes does to the registry: it never panics, keeps the registry invariant and
  only ever takes replicas, clients and chain holds away.  The steps are composed in a small
  algebra of total shrinking transformers.
\<close>

section \<open>Shrinking\<close>

text \<open>An entry may lose holds, nothing else of it changes.\<close>

definition less_entry :: "client_info \<Rightarrow> client_info \<Rightarrow> bool" where
  "less_entry ci ci' \<longleftrightarrow> ci' = ci\<lparr>ci_active_chains := ci_active_chains ci'\<rparr> \<and> ci_active_chains ci' \<le> ci_active_chains ci"

definition less_replica :: "replica \<Rightarrow> replica \<Rightarrow> bool" where
  "less_replica r r' \<longleftrightarrow> rp_ip r' = rp_ip r \<and> rp_port r' = rp_port r \<and> rp_docker r' = rp_docker r \<and> rp_pause r' = rp_pause r \<and>
     (\<forall>c ci'. hm_get (entries_of r') c = Some ci' \<longrightarrow> (\<exists>ci. hm_get (entries_of r) c = Some ci \<and> less_entry ci ci'))"

definition less_reg :: "registered \<Rightarrow> registered \<Rightarrow> bool" where
  "less_reg reg reg' \<longleftrightarrow> rg_config reg' = rg_config reg \<and> (\<forall>r' \<in> set (rg_replicas reg'). \<exists>r \<in> set (rg_replicas reg). less_replica r r')"

fun less_si :: "service_info \<Rightarrow> service_info \<Rightarrow> bool" where
  "less_si (Registered reg) (Registered reg') = less_reg reg reg'"
| "less_si si (Unregistered c) = (si_config si = c)"
| "less_si (Unregistered _) (Registered _) = False"

definition less_services :: "services \<Rightarrow> services \<Rightarrow> bool" where
  "less_services m m' \<longleftrightarrow> (\<forall>n si'. hm_get m' n = Some si' \<longrightarrow> (\<exists>si. hm_get m n = Some si \<and> less_si si si'))"

lemma less_entry_refl [simp]: "less_entry ci ci"
  by (simp add: less_entry_def)

lemma less_entry_trans: "less_entry ci ci' \<Longrightarrow> less_entry ci' ci'' \<Longrightarrow> less_entry ci ci''"
  unfolding less_entry_def by (metis client_info.surjective client_info.update_convs(7) dual_order.trans)

lemma less_entry_fields:
  "less_entry ci ci' \<Longrightarrow> ci_net_id ci' = ci_net_id ci \<and> ci_pending ci' = ci_pending ci \<and> ci_group_carrier ci' = ci_group_carrier ci"
  by (cases ci; cases ci') (simp add: less_entry_def)

lemma less_replica_refl [simp]: "less_replica r r"
  by (simp add: less_replica_def)

lemma less_replica_trans: "less_replica r r' \<Longrightarrow> less_replica r' r'' \<Longrightarrow> less_replica r r''"
  unfolding less_replica_def by (simp, meson less_entry_trans)

lemma less_reg_refl [simp]: "less_reg reg reg"
  unfolding less_reg_def using less_replica_refl by blast

lemma less_reg_trans: "less_reg a b \<Longrightarrow> less_reg b c \<Longrightarrow> less_reg a c"
  unfolding less_reg_def using less_replica_trans by metis

lemma less_reg_config: "less_reg reg reg' \<Longrightarrow> rg_config reg' = rg_config reg"
  by (simp add: less_reg_def)

lemma less_si_refl [simp]: "less_si si si"
  by (cases si) simp_all

lemma less_si_trans: "less_si a b \<Longrightarrow> less_si b c \<Longrightarrow> less_si a c"
  by (cases a; cases b; cases c) (auto intro: less_reg_trans dest: less_reg_config)

lemma less_services_refl [simp]: "less_services m m"
  unfolding less_services_def using less_si_refl by blast

lemma less_services_trans: "less_services a b \<Longrightarrow> less_services b c \<Longrightarrow> less_services a c"
  unfolding less_services_def using less_si_trans by metis

lemma less_services_insert:
  "hm_get m n = Some si \<Longrightarrow> less_si si si' \<Longrightarrow> less_services m (hm_insert n si' m)"
  unfolding less_services_def by (auto intro: less_si_refl)

lemma less_services_remove: "less_services m (hm_remove n m)"
  unfolding less_services_def using less_si_refl by (auto simp: split: if_splits)

lemma less_services_getD:
  "less_services m m' \<Longrightarrow> hm_get m' n = Some (Registered reg') \<Longrightarrow> \<exists>reg. hm_get m n = Some (Registered reg) \<and> less_reg reg reg'"
  unfolding less_services_def by (metis less_si.simps(1) less_si.simps(3) service_info.exhaust)

lemma less_regD:
  "less_reg reg reg' \<Longrightarrow> r' \<in> set (rg_replicas reg') \<Longrightarrow> \<exists>r \<in> set (rg_replicas reg). less_replica r r'"
  by (simp add: less_reg_def)

lemma less_replica_client: "less_replica r r' \<Longrightarrow> has_client c r' \<Longrightarrow> has_client c r"
  by (auto simp: less_replica_def has_client_def)

lemma less_reg_sticky: "less_reg reg reg' \<Longrightarrow> sticky reg \<Longrightarrow> sticky reg'"
  unfolding sticky_def
proof (intro ballI allI impI)
  fix r1 r2 c
  assume a: "less_reg reg reg'" "\<forall>r \<in> set (rg_replicas reg). \<forall>r' \<in> set (rg_replicas reg). \<forall>c. has_client c r \<and> has_client c r' \<longrightarrow> ident r = ident r'"
    "r1 \<in> set (rg_replicas reg')" "r2 \<in> set (rg_replicas reg')" "has_client c r1 \<and> has_client c r2"
  obtain s1 s2 where s: "s1 \<in> set (rg_replicas reg)" "less_replica s1 r1" "s2 \<in> set (rg_replicas reg)" "less_replica s2 r2"
    using less_regD [OF a(1)] a(3,4) by blast
  then have "ident s1 = ident s2" using a(2,5) less_replica_client by blast
  then show "ident r1 = ident r2" using s by (simp add: less_replica_def)
qed

section \<open>Operations of a registered service\<close>

lemma list_all2_less_reg: "list_all2 less_replica rs rs' \<Longrightarrow> \<forall>r' \<in> set rs'. \<exists>r \<in> set rs. less_replica r r'"
  by (induction rule: list_all2_induct) auto

lemma less_replica_modify:
  assumes "clients_inv (rp_clients r)" "hm_get (entries_of r) c = Some ci" "cs_clients cs = hm_remove c (entries_of r) \<or>
     cs_clients cs = hm_modify c (remove_active_chains 1) (entries_of r)"
  shows "less_replica r (r\<lparr>rp_clients := cs\<rparr>)"
  using assms(3)
proof
  assume "cs_clients cs = hm_remove c (entries_of r)"
  then show ?thesis by (auto simp: less_replica_def split: if_splits)
next
  assume "cs_clients cs = hm_modify c (remove_active_chains 1) (entries_of r)"
  then show ?thesis by (auto simp: less_replica_def less_entry_def remove_active_chains_def split: if_splits)
qed

lemma hm_remove_modify: "hm_remove c (hm_modify c f m) = hm_remove c m"
  by (induction m) (auto simp: hm_remove_def hm_modify_def split: if_splits)

lemma decrement_replicas_less:
  "reps_inv rs \<Longrightarrow> decrement_replicas c rs st = Some (rs', st') \<Longrightarrow> list_all2 less_replica rs rs'"
proof (induction rs arbitrary: rs')
  case (Cons r rs)
  show ?case
  proof (cases "hm_get (entries_of r) c")
    case None
    then show ?thesis using Cons by auto
  next
    case (Some ci)
    define cs where "cs = cs_modify c (remove_active_chains 1) (rp_clients r)"
    have inv: "clients_inv cs" unfolding cs_def using Cons.prems by (intro cs_modify_ok) simp_all
    obtain cs' where cs': "remove_client c cs = Some (cs', hm_get (cs_clients cs) c)" "clients_inv cs'"
      "cs_clients cs' = hm_remove c (cs_clients cs)" using remove_client_ok [OF inv] .
    have "cs_clients cs' = hm_remove c (entries_of r)" using cs'(3)
      by (simp add: cs_def cs_modify_def hm_remove_modify)
    then have "less_replica r (r\<lparr>rp_clients := cs'\<rparr>)" "less_replica r (r\<lparr>rp_clients := cs\<rparr>)"
      using Cons.prems Some by (auto intro!: less_replica_modify simp: cs_def cs_modify_def)
    then show ?thesis using Cons.prems(2) Some cs'(1)
      by (auto simp: cs_def Let_def list_all2_refl split: if_splits option.splits)
  qed
qed simp

lemma reg_inv_nth_eq: "list_all2 less_replica rs rs' \<Longrightarrow> map ident rs' = map ident rs"
  by (induction rule: list_all2_induct) (auto simp: less_replica_def)

lemma decrement_chain_less:
  assumes "reg_inv reg"
  shows "\<exists>reg' st'. decrement_chain c reg st = Some (reg', st') \<and> reg_inv reg' \<and> less_reg reg reg'"
proof -
  obtain reg' st' where d: "decrement_chain c reg st = Some (reg', st')" "reg_inv reg'" "rg_config reg' = rg_config reg"
    using decrement_chain_ok [OF assms] .
  then have "list_all2 less_replica (rg_replicas reg) (rg_replicas reg')"
    using assms by (auto simp: decrement_chain_def reg_inv_def intro: decrement_replicas_less)
  then show ?thesis using d list_all2_less_reg by (auto simp: less_reg_def)
qed

lemma remove_client_replicas_less:
  "reps_inv rs \<Longrightarrow> remove_client_replicas c rs = Some rs' \<Longrightarrow> list_all2 less_replica rs rs'"
proof (induction rs arbitrary: rs')
  case (Cons r rs)
  have inv: "clients_inv (rp_clients r)" using Cons.prems by simp
  obtain cs' where cs': "remove_client c (rp_clients r) = Some (cs', hm_get (entries_of r) c)" "clients_inv cs'"
    "cs_clients cs' = hm_remove c (entries_of r)" using remove_client_ok [OF inv] .
  show ?case
  proof (cases "hm_get (entries_of r) c")
    case None
    then show ?thesis using Cons cs' by auto
  next
    case (Some ci)
    then show ?thesis using Cons.prems cs' inv by (auto intro: less_replica_modify simp: list_all2_refl)
  qed
qed simp

lemma reg_remove_client_less:
  assumes "reg_inv reg" "sticky reg"
  shows "\<exists>reg'. reg_remove_client c reg = Some reg' \<and> reg_inv reg' \<and> less_reg reg reg' \<and>
    (\<forall>r \<in> set (rg_replicas reg'). \<not> has_client c r)"
proof -
  obtain rs' where rs': "remove_client_replicas c (rg_replicas reg) = Some rs'"
    "length (filter (has_client c) rs') = length (filter (has_client c) (rg_replicas reg)) - 1"
    using remove_client_replicas_ok [of "rg_replicas reg" c] assms(1) unfolding reg_inv_def by blast
  obtain reg' where reg': "reg_remove_client c reg = Some reg'" "reg_inv reg'" "rg_config reg' = rg_config reg"
    using remove_client_ok' [OF assms(1)] .
  have "rg_replicas reg' = rs'" using reg'(1) rs'(1) by (auto simp: reg_remove_client_def)
  moreover have "less_reg reg reg'"
    using remove_client_replicas_less [of "rg_replicas reg" c rs'] list_all2_less_reg reg'(3) rs'(1) assms(1) calculation
    by (auto simp: less_reg_def reg_inv_def)
  moreover have "filter (has_client c) rs' = []"
    using rs'(2) sticky_filter [OF assms(2), of c] assms(1) by (simp add: reg_inv_def)
  ultimately show ?thesis using reg' by (auto simp: filter_empty_conv)
qed

lemma remove_clients_less:
  assumes "reg_inv reg" "sticky reg"
  shows "\<exists>reg'. foldM (\<lambda>(c, _). reg_remove_client c) tds reg = Some reg' \<and> reg_inv reg' \<and> sticky reg' \<and> less_reg reg reg' \<and>
    (\<forall>td \<in> set tds. \<forall>r \<in> set (rg_replicas reg'). \<not> has_client (fst td) r)"
  using assms
proof (induction tds arbitrary: reg)
  case (Cons td tds)
  obtain reg1 where r1: "reg_remove_client (fst td) reg = Some reg1" "reg_inv reg1" "less_reg reg reg1"
    "\<forall>r \<in> set (rg_replicas reg1). \<not> has_client (fst td) r"
    using reg_remove_client_less [OF Cons.prems] by blast
  then obtain reg' where r': "foldM (\<lambda>(c, _). reg_remove_client c) tds reg1 = Some reg'" "reg_inv reg'" "sticky reg'" "less_reg reg1 reg'"
    "\<forall>td \<in> set tds. \<forall>r \<in> set (rg_replicas reg'). \<not> has_client (fst td) r"
    using Cons.IH [of reg1] less_reg_sticky [OF r1(3) Cons.prems(2)] by blast
  have "\<not> has_client (fst td) r" if "r \<in> set (rg_replicas reg')" for r
    using less_regD [OF r'(4) that] r1(4) less_replica_client by blast
  moreover have "less_reg reg reg'" by (rule less_reg_trans [OF r1(3) r'(4)])
  ultimately show ?case using r1(1) r' by (cases td) auto
qed simp

section \<open>Total shrinking transformers\<close>

definition world_inv :: "services \<Rightarrow> bool" where
  "world_inv sv \<longleftrightarrow> services_inv sv \<and> (\<forall>n reg. hm_get sv n = Some (Registered reg) \<longrightarrow> sticky reg)"

lemma world_inv_get: "world_inv sv \<Longrightarrow> hm_get sv n = Some (Registered reg) \<Longrightarrow> reg_inv reg \<and> sticky reg"
  using services_inv_get by (auto simp: world_inv_def)

lemma world_inv_less: "world_inv sv \<Longrightarrow> services_inv sv' \<Longrightarrow> less_services sv sv' \<Longrightarrow> world_inv sv'"
  unfolding world_inv_def using less_services_getD less_reg_sticky by blast

text \<open>A transformer that does not panic, keeps the invariant and shrinks the registry.\<close>

definition shrinks :: "(world \<Rightarrow> world option) \<Rightarrow> bool" where
  "shrinks f \<longleftrightarrow> (\<forall>w. world_inv (fst w) \<longrightarrow>
     (\<exists>w'. f w = Some w' \<and> world_inv (fst w') \<and> less_services (fst w) (fst w')))"

lemma shrinksD:
  assumes "shrinks f" "world_inv (fst w)"
  obtains w' where "f w = Some w'" "world_inv (fst w')" "less_services (fst w) (fst w')"
  using assms unfolding shrinks_def by blast

lemma shrinks_Some [keeps]: "shrinks Some"
  by (simp add: shrinks_def)

lemma shrinks_state: "shrinks f \<Longrightarrow> shrinks (\<lambda>w. f (fst w, g w))"
  by (simp add: shrinks_def)

lemma shrinks_depends: "(\<And>w. world_inv (fst w) \<Longrightarrow> shrinks (f w)) \<Longrightarrow> shrinks (\<lambda>w. f w w)"
  by (auto simp: shrinks_def)

lemma shrinks_bind [keeps]: "shrinks f \<Longrightarrow> shrinks g \<Longrightarrow> shrinks (\<lambda>w. Option.bind (f w) g)"
  unfolding shrinks_def
proof (intro allI impI)
  fix w :: world
  assume f: "\<forall>w. world_inv (fst w) \<longrightarrow> (\<exists>w'. f w = Some w' \<and> world_inv (fst w') \<and> less_services (fst w) (fst w'))"
    and g: "\<forall>w. world_inv (fst w) \<longrightarrow> (\<exists>w'. g w = Some w' \<and> world_inv (fst w') \<and> less_services (fst w) (fst w'))"
    and w: "world_inv (fst w)"
  obtain w1 where w1: "f w = Some w1" "world_inv (fst w1)" "less_services (fst w) (fst w1)" using f w by blast
  obtain w2 where w2: "g w1 = Some w2" "world_inv (fst w2)" "less_services (fst w1) (fst w2)" using g w1(2) by blast
  have "less_services (fst w) (fst w2)" by (rule less_services_trans [OF w1(3) w2(3)])
  then show "\<exists>w'. Option.bind (f w) g = Some w' \<and> world_inv (fst w') \<and> less_services (fst w) (fst w')"
    using w1(1) w2 by simp
qed

lemma shrinks_foldM [keeps]: "(\<And>x. x \<in> set xs \<Longrightarrow> shrinks (f x)) \<Longrightarrow> shrinks (foldM f xs)"
proof (induction xs)
  case Nil
  then show ?case using shrinks_Some by simp
next
  case (Cons x xs)
  have "foldM f (x # xs) = (\<lambda>w. Option.bind (f x w) (foldM f xs))"
    by (auto simp: fun_eq_iff split: option.splits)
  then show ?case using shrinks_bind [of "f x" "foldM f xs"] Cons by simp
qed

lemma services_inv_less_insert:
  assumes "world_inv sv" "hm_get sv n = Some si" "si_inv si'" "less_si si si'"
  shows "world_inv (hm_insert n si' sv) \<and> less_services sv (hm_insert n si' sv)"
  using assms services_inv_insert [of sv si' n] less_services_insert [OF assms(2,4)] world_inv_less
  by (auto simp: world_inv_def)

lemma shrinks_on_registered [keeps]:
  assumes "\<And>reg st. reg_inv reg \<Longrightarrow> sticky reg \<Longrightarrow> \<exists>reg' st'. f reg st = Some (reg', st') \<and> reg_inv reg' \<and> less_reg reg reg'"
  shows "shrinks (on_registered n f)"
  unfolding shrinks_def
proof (intro allI impI)
  fix w :: world
  assume w: "world_inv (fst w)"
  show "\<exists>w'. on_registered n f w = Some w' \<and> world_inv (fst w') \<and> less_services (fst w) (fst w')"
  proof (cases "\<exists>reg. hm_get (fst w) n = Some (Registered reg)")
    case True
    then obtain reg where reg: "hm_get (fst w) n = Some (Registered reg)" by blast
    then obtain reg' st' where "f reg (snd w) = Some (reg', st')" "reg_inv reg'" "less_reg reg reg'"
      using assms [of reg "snd w"] world_inv_get [OF w reg] by blast
    then show ?thesis using services_inv_less_insert [OF w reg, of "Registered reg'"] reg
      by (simp add: on_registered_def)
  next
    case False
    then have "on_registered n f w = Some w" by (auto simp: on_registered_def split: option.splits service_info.splits)
    then show ?thesis using w by simp
  qed
qed

lemma shrinks_decrement_edges [keeps]: "shrinks (decrement_edges es)"
  unfolding decrement_edges_def
  by (rule shrinks_foldM) (auto intro: shrinks_on_registered decrement_chain_less)

lemma shrinks_dep_chain [keeps]: "shrinks (teardown_dep_chain n ip docker)"
  unfolding teardown_dep_chain_def by (rule shrinks_depends) (rule shrinks_decrement_edges)

lemma shrinks_remove_torn [keeps]: "shrinks (remove_torn_clients n tds)"
  unfolding remove_torn_clients_def by (rule shrinks_on_registered) (use remove_clients_less in fastforce)

lemma shrinks_registered [keeps]:
  assumes "\<And>reg. shrinks (f reg)" "shrinks g"
  shows "shrinks (\<lambda>w. case hm_get (fst w) n of None \<Rightarrow> g w
    | Some si \<Rightarrow> (case si of Unregistered _ \<Rightarrow> g w | Registered reg \<Rightarrow> f reg w))"
  using assms unfolding shrinks_def by (auto split: option.splits service_info.splits)

lemma shrinks_if [keeps]: "shrinks f \<Longrightarrow> shrinks g \<Longrightarrow> shrinks (\<lambda>w. if b w then f w else g w)"
  by (simp add: shrinks_def)

lemma shrinks_finish [keeps]: "shrinks (\<lambda>w. Some (fst w, g w))"
  by (simp add: shrinks_def)

lemma shrinks_teardown_chain [keeps]: "shrinks (teardown_chain n f)"
  unfolding teardown_chain_def Let_def
  by (intro shrinks_registered shrinks_bind shrinks_foldM shrinks_remove_torn shrinks_finish shrinks_Some)
    (auto intro: shrinks_dep_chain)

lemma matching_trigger_ports_get:
  assumes "port \<in> set (matching_trigger_ports n through p sv)"
  obtains si peer where "hm_get sv n = Some si" "hm_get (si_triggers si) port = Some peer"
proof -
  obtain si where si: "hm_get sv n = Some si" "port \<in> fst ` set (si_triggers si)"
    by (cases "hm_get sv n") (use assms in \<open>auto simp: matching_trigger_ports_def\<close>)
  then have "hm_get (si_triggers si) port \<noteq> None" by (simp add: hm_get_None_iff)
  then show thesis using that si by blast
qed

lemma those_Some: "(\<And>x. x \<in> set xs \<Longrightarrow> f x \<noteq> None) \<Longrightarrow> \<exists>ys. those (map f xs) = Some ys"
proof (induction xs)
  case (Cons x xs)
  obtain y where "f x = Some y" using Cons.prems [of x] by auto
  then show ?case using Cons by auto
qed simp

lemma collect_backend_total: "\<exists>es. collect_backend_chain_edges n ip docker through p sv = Some es"
  unfolding collect_backend_chain_edges_def
  by (rule those_Some) (erule matching_trigger_ports_get, simp)

lemma shrinks_backend_chain [keeps]: "shrinks (teardown_backend_chain n ip docker through p)"
proof -
  let ?step = "\<lambda>w port (edges, st).
           let (building, st) = cancel_backend_build (n, ip, docker, port) st
           in if building then Some (edges, st)
              else map_option (\<lambda>es. (edges @ es, st)) (collect_backend_chain_edges n ip docker through (Some port) (fst w))"
  have total: "\<exists>r. foldM (?step w) ports acc = Some r" for w :: world and ports acc
  proof -
    have "\<exists>r. ?step w port acc = Some r" for port acc
      using collect_backend_total [of n ip docker through "Some port" "fst w"]
      by (cases acc) (auto simp: Let_def split: prod.splits)
    then show ?thesis using foldM_inv [of ports "\<lambda>_. True" "?step w" acc] by auto
  qed
  have core: "shrinks (\<lambda>w. Option.bind (decrement_edges edges (fst w, st)) (\<lambda>(sv, st). Some (sv, h st)))"
    for edges and st :: orch and h :: "orch \<Rightarrow> orch"
  proof -
    have "shrinks (\<lambda>w. Option.bind (decrement_edges edges w) (\<lambda>w. Some (fst w, h (snd w))))"
      by (intro shrinks_bind shrinks_decrement_edges shrinks_finish)
    from shrinks_state [OF this, of "\<lambda>_. st"] show ?thesis unfolding split_def .
  qed
  show ?thesis unfolding shrinks_def
  proof (intro allI impI)
    fix w :: world
    assume w: "world_inv (fst w)"
    let ?ports = "matching_trigger_ports n through p (fst w)"
    obtain edges st where f: "foldM (?step w) ?ports ([], snd w) = Some (edges, st)"
      using total [of w ?ports "([], snd w)"] by (metis surj_pair)
    obtain w' where "Option.bind (decrement_edges edges (fst w, st))
        (\<lambda>(sv, st). Some (sv, forget_backend_sessions n ip docker ?ports st)) = Some w'"
      "world_inv (fst w')" "less_services (fst w) (fst w')"
      by (rule shrinksD [OF core [of edges st "forget_backend_sessions n ip docker ?ports"] w])
    then show "\<exists>w'. teardown_backend_chain n ip docker through p w = Some w' \<and> world_inv (fst w') \<and> less_services (fst w) (fst w')"
      using f by (simp add: teardown_backend_chain_def Let_def)
  qed
qed

lemma shrinks_all_backend [keeps]: "shrinks (teardown_all_backend_chains_for n through)"
  unfolding teardown_all_backend_chains_for_def Let_def
  by (rule shrinks_depends) (auto intro!: shrinks_foldM shrinks_backend_chain)

lemma shrinks_partial [keeps]: "shrinks (teardown_partial_replicas n f)"
proof -
  have "shrinks (\<lambda>w. case cl_replica c of None \<Rightarrow> Some w
      | Some (src_ip, src_docker) \<Rightarrow> Option.bind (teardown_chain (cl_name c) (OnReplica src_ip src_docker) w)
          (teardown_backend_chain (cl_name c) src_ip src_docker (Some n) None))" for c
    by (cases "cl_replica c") (auto intro!: shrinks_bind shrinks_teardown_chain shrinks_backend_chain shrinks_Some)
  then show ?thesis unfolding teardown_partial_replicas_def Let_def
    by (intro shrinks_registered shrinks_bind shrinks_foldM shrinks_teardown_chain shrinks_Some)
qed

lemma with_pausable_config:
  "with_pausable (sc_pausable c) (service_info_new (sc_proxy_deps c) (sc_triggers c) (sc_timeout c) (sc_max_networks c)
     (sc_protocol c) (sc_listen_port c) (sc_egress_policy c) (sc_ingress_policy c)) = Unregistered c"
  by (simp add: service_info_new_def)

lemma shrinks_unregister:
  "shrinks (\<lambda>w. Some (case hm_get (fst w) n of
           Some (Registered reg) \<Rightarrow> if b then (hm_insert n (Unregistered (rg_config reg)) (fst w), snd w) else w
         | _ \<Rightarrow> w))"
  unfolding shrinks_def
proof (intro allI impI)
  fix w :: world
  assume w: "world_inv (fst w)"
  show "\<exists>w'. Some (case hm_get (fst w) n of
           Some (Registered reg) \<Rightarrow> if b then (hm_insert n (Unregistered (rg_config reg)) (fst w), snd w) else w
         | _ \<Rightarrow> w) = Some w' \<and> world_inv (fst w') \<and> less_services (fst w) (fst w')"
    using w services_inv_less_insert [OF w, of n]
    by (auto split: option.splits service_info.splits)
qed

lemma shrinks_invalidated [keeps]: "shrinks (teardown_invalidated_service n b)"
  unfolding teardown_invalidated_service_def Let_def with_pausable_config
  by (rule shrinks_depends) (intro shrinks_bind shrinks_foldM shrinks_unregister shrinks_teardown_chain shrinks_all_backend)

lemma less_si_retain: "less_si si (retain_replicas keep si)"
  by (cases si) (auto simp: retain_replicas_def Let_def less_reg_def intro: less_replica_refl)

lemma shrinks_modify:
  assumes "\<And>si. si_inv si \<Longrightarrow> si_inv (f si)" "\<And>si. less_si si (f si)"
  shows "shrinks (\<lambda>w. Some (modify_service n f w))"
  unfolding shrinks_def
proof (intro allI impI)
  fix w :: world
  assume w: "world_inv (fst w)"
  have less: "less_services (fst w) (fst (modify_service n f w))"
    using assms(2) by (auto simp: less_services_def modify_service_def split: if_splits)
  have "services_inv (fst (modify_service n f w))"
  proof -
    have "hm_inv (hm_modify n f (fst w))" using w by (simp add: world_inv_def services_inv_def)
    moreover have "\<forall>(n, si) \<in> set (hm_modify n f (fst w)). si_inv si"
      using w assms(1) by (auto simp: world_inv_def services_inv_def hm_modify_def split: if_splits)
    ultimately show ?thesis by (simp add: services_inv_def modify_service_def)
  qed
  then show "\<exists>w'. Some (modify_service n f w) = Some w' \<and> world_inv (fst w') \<and> less_services (fst w) (fst w')"
    using world_inv_less [OF w _ less] less by simp
qed

lemma shrinks_remove_on_ip [keeps]: "shrinks (\<lambda>w. Some (modify_service n (remove_replicas_on_ip ip) w))"
  by (rule shrinks_modify) (simp_all add: remove_replicas_on_ip_def less_si_retain retain_replicas_inv)

lemma shrinks_remove_replica [keeps]: "shrinks (\<lambda>w. Some (modify_service n (remove_replica ip docker) w))"
  by (rule shrinks_modify) (simp_all add: remove_replica_def less_si_retain retain_replicas_inv)

lemma shrinks_replicas_removed [keeps]: "shrinks (replicas_removed stack n ip)"
  unfolding replicas_removed_def
  by (intro shrinks_registered shrinks_if shrinks_bind shrinks_foldM shrinks_remove_on_ip shrinks_partial shrinks_backend_chain
      shrinks_state [OF shrinks_invalidated])

lemma shrinks_replica_removed [keeps]: "shrinks (replica_removed n ip docker)"
  unfolding replica_removed_def Let_def
  by (intro shrinks_if shrinks_bind shrinks_remove_replica shrinks_partial shrinks_backend_chain shrinks_invalidated)

lemma shrinks_remove: "shrinks (\<lambda>w. Some (hm_remove n (fst w), snd w))"
  unfolding shrinks_def using less_services_remove world_inv_less services_inv_remove
  by (auto simp: world_inv_def)

lemma shrinks_ext: "shrinks g \<Longrightarrow> (\<And>w. f w = g w) \<Longrightarrow> shrinks f"
  by (simp add: shrinks_def)

lemma shrinks_apply_change [keeps]: "shrinks (apply_change stack ch)"
proof -
  have diag: "shrinks (\<lambda>w. f (emit_if_diag e w))" if "shrinks f" for f e
    using shrinks_state [OF that] unfolding emit_if_diag_def .
  show ?thesis
  proof (cases ch)
    case (Removed n)
    show ?thesis unfolding Removed
      by (rule shrinks_ext [OF shrinks_bind [OF diag [OF shrinks_invalidated] shrinks_remove]]) simp
  next
    case (ReachabilityChanged n b)
    show ?thesis unfolding ReachabilityChanged
      by (rule shrinks_ext [OF shrinks_bind [OF shrinks_state [OF shrinks_teardown_chain] shrinks_all_backend]]) simp
  next
    case (ProxyDisconnected ip)
    have "shrinks (\<lambda>w. foldM (\<lambda>n. teardown_chain n (ByIp ip)) (map fst (filter (\<lambda>(_, si). has_clients_of_proxy ip si) (fst w))) w)"
      by (rule shrinks_depends) (intro shrinks_foldM shrinks_teardown_chain)
    then show ?thesis unfolding ProxyDisconnected by (rule shrinks_ext) simp
  next
    case (ProxyClientTimedOut n c)
    show ?thesis unfolding ProxyClientTimedOut by (rule shrinks_ext [OF diag [OF shrinks_teardown_chain]]) simp
  qed (auto intro: shrinks_ext [OF shrinks_invalidated] shrinks_ext [OF shrinks_all_backend] shrinks_ext [OF shrinks_teardown_chain]
      shrinks_ext [OF shrinks_replicas_removed] shrinks_ext [OF shrinks_replica_removed])
qed

end
