(* ===== verification/Changes_Props.thy ===== *)
theory Changes_Props
  imports Changes_Inv
begin

text \<open>
  What the teardowns achieve: the sessions they aim at are gone, a disconnected node leaves no
  replica and no session behind, the walk over a dependency chain finds exactly a complete chain,
  networks are closed once and only when nobody shares them, and a chain taken and released
  leaves every hold as it was.
\<close>

section \<open>The sessions a teardown aims at are gone\<close>

declare proxy_filter_matches.simps [simp del]

definition live_at :: "client \<Rightarrow> replica \<Rightarrow> bool" where
  "live_at c r \<longleftrightarrow> (\<exists>ci. hm_get (entries_of r) c = Some ci \<and> \<not> is_pending ci)"

lemma less_replica_live: "less_replica r r' \<Longrightarrow> live_at c r' \<Longrightarrow> live_at c r"
  unfolding live_at_def less_replica_def is_pending_def using less_entry_fields by metis

lemma proxy_teardowns_mem:
  assumes "r \<in> set (rg_replicas reg)" "live_at c r" "proxy_filter_matches f c (rp_ip r) (rp_docker r)"
  shows "\<exists>rest. (c, rest) \<in> set (proxy_teardowns f reg)"
proof -
  obtain ci where ci: "hm_get (entries_of r) c = Some ci" "\<not> is_pending ci" using assms(2) by (auto simp: live_at_def)
  then have "(c, ci, rp_ip r, rp_docker r) \<in> set (all_clients_owned reg)"
    using assms(1) hm_get_SomeD [OF ci(1)] by (force simp: all_clients_owned_def)
  then have "(c, ci, rp_ip r, rp_docker r) \<in> set (filter (\<lambda>(c, _, rip, rd). proxy_filter_matches f c rip rd) (all_clients_owned reg))"
    using assms(3) by simp
  then have "(\<lambda>(c, ci, rip, rd). (c, ci_client_ip ci, ci_net_id ci, ci_docker_container ci, rip, rd, ci_group_carrier ci \<noteq> None))
      (c, ci, rp_ip r, rp_docker r) \<in> set (proxy_teardowns f reg)"
    unfolding proxy_teardowns_def set_map by (rule imageI)
  then show ?thesis unfolding prod.case by (rule exI)
qed

lemma teardown_chain_post:
  assumes "world_inv (fst w)" "teardown_chain n f w = Some w'"
    and "hm_get (fst w') n = Some (Registered reg')" "r' \<in> set (rg_replicas reg')" "live_at c r'"
  shows "\<not> proxy_filter_matches f c (rp_ip r') (rp_docker r')"
proof
  assume m: "proxy_filter_matches f c (rp_ip r') (rp_docker r')"
  obtain w'' where w'': "teardown_chain n f w = Some w''" "less_services (fst w) (fst w'')"
    by (rule shrinksD [OF shrinks_teardown_chain assms(1)])
  then obtain reg where reg: "hm_get (fst w) n = Some (Registered reg)" "less_reg reg reg'"
    using assms(2,3) less_services_getD by fastforce
  let ?tds = "proxy_teardowns f reg"
  obtain w1 w2 where w1: "foldM (\<lambda>(_, _, _, _, ip, docker, _). teardown_dep_chain n ip docker) ?tds w = Some w1"
    and w2: "remove_torn_clients n ?tds w1 = Some w2" "fst w' = fst w2"
    using assms(2) reg(1) by (auto simp: teardown_chain_def Let_def split: bind_splits)
  have "shrinks (foldM (\<lambda>(_, _, _, _, ip, docker, _). teardown_dep_chain n ip docker) ?tds)"
    by (rule shrinks_foldM) (auto intro: shrinks_dep_chain)
  from shrinksD [OF this assms(1)] have i1: "world_inv (fst w1)" using w1 by auto
  from shrinksD [OF shrinks_remove_torn this] have "less_services (fst w1) (fst w2)" using w2(1) by (metis option.inject)
  then obtain reg1 where reg1: "hm_get (fst w1) n = Some (Registered reg1)"
    using less_services_getD assms(3) w2(2) by metis
  obtain reg2 where reg2: "foldM (\<lambda>(c, _). reg_remove_client c) ?tds reg1 = Some reg2"
    "\<forall>td \<in> set ?tds. \<forall>r \<in> set (rg_replicas reg2). \<not> has_client (fst td) r"
    using remove_clients_less world_inv_get [OF i1 reg1] by blast
  have "reg' = reg2" using w2 reg1 reg2(1) assms(3) by (auto simp: remove_torn_clients_def on_registered_def)
  obtain r where r: "r \<in> set (rg_replicas reg)" "less_replica r r'" using less_regD [OF reg(2) assms(4)] by blast
  then have "\<exists>rest. (c, rest) \<in> set ?tds"
    using m proxy_teardowns_mem [OF r(1) less_replica_live [OF r(2) assms(5)]] by (simp add: less_replica_def)
  then have "\<not> has_client c r'" using reg2(2) assms(4) \<open>reg' = reg2\<close> by fastforce
  then show False using assms(5) by (simp add: live_at_def has_client_def)
qed

section \<open>Sequences of shrinking steps\<close>

text \<open>What every step establishes and shrinking keeps holds at the end.\<close>

lemma shrinks_foldM_each:
  assumes "\<And>x. x \<in> set xs \<Longrightarrow> shrinks (f x)"
    and "\<And>x w w'. x \<in> set xs \<Longrightarrow> world_inv (fst w) \<Longrightarrow> f x w = Some w' \<Longrightarrow> Q x (fst w')"
    and "\<And>x sv sv'. Q x sv \<Longrightarrow> less_services sv sv' \<Longrightarrow> Q x sv'"
    and "world_inv (fst w)" "foldM f xs w = Some w'"
  shows "\<forall>x \<in> set xs. Q x (fst w')"
  using assms(1,2,4,5)
proof (induction xs arbitrary: w)
  case (Cons x xs)
  have sx: "shrinks (f x)" by (simp add: Cons.prems(1))
  obtain w1 where w1: "f x w = Some w1" "world_inv (fst w1)" "less_services (fst w) (fst w1)"
    by (rule shrinksD [OF sx Cons.prems(3)])
  have rest: "foldM f xs w1 = Some w'" using Cons.prems(4) w1(1) by simp
  have "\<forall>y \<in> set xs. Q y (fst w')"
    by (rule Cons.IH [OF _ _ w1(2) rest]) (use Cons.prems(1,2) in simp_all)
  moreover have "Q x (fst w1)" using Cons.prems(2) [OF _ Cons.prems(3) w1(1)] by simp
  moreover have "shrinks (foldM f xs)" by (rule shrinks_foldM) (simp add: Cons.prems(1))
  then have "less_services (fst w1) (fst w')" using shrinksD [OF _ w1(2)] rest by (metis option.inject)
  ultimately show ?case using assms(3) by auto
qed simp

definition no_replica :: "(replica \<Rightarrow> bool) \<Rightarrow> string \<Rightarrow> services \<Rightarrow> bool" where
  "no_replica p n sv \<longleftrightarrow> (\<forall>reg r. hm_get sv n = Some (Registered reg) \<longrightarrow> r \<in> set (rg_replicas reg) \<longrightarrow> \<not> p r)"

lemma no_replica_less:
  assumes "no_replica p n sv" "less_services sv sv'" "\<And>r r'. less_replica r r' \<Longrightarrow> p r' \<Longrightarrow> p r"
  shows "no_replica p n sv'"
  unfolding no_replica_def
proof (intro allI impI notI)
  fix reg' r'
  assume a: "hm_get sv' n = Some (Registered reg')" "r' \<in> set (rg_replicas reg')" "p r'"
  obtain reg where reg: "hm_get sv n = Some (Registered reg)" "less_reg reg reg'" using less_services_getD [OF assms(2) a(1)] by blast
  then obtain r where "r \<in> set (rg_replicas reg)" "less_replica r r'" using less_regD a(2) by blast
  then show False using assms(1,3) a(3) reg(1) by (auto simp: no_replica_def)
qed

lemma invalidated_post:
  assumes "teardown_invalidated_service n True w = Some w'"
  shows "no_replica p n (fst w')"
  using assms unfolding teardown_invalidated_service_def Let_def with_pausable_config no_replica_def
  by (auto split: bind_splits option.splits service_info.splits)

lemma retain_replicas_kept: "retain_replicas keep si = Registered reg \<Longrightarrow> \<forall>r \<in> set (rg_replicas reg). keep r"
  by (cases si) (auto simp: retain_replicas_def Let_def split: if_splits)

lemma retain_post: "(\<And>r. keep r \<Longrightarrow> \<not> p r) \<Longrightarrow> no_replica p n (fst (modify_service n (retain_replicas keep) w))"
  unfolding no_replica_def modify_service_def using retain_replicas_kept by fastforce

lemma replicas_removed_post:
  assumes "replicas_removed stack n ip w = Some w'"
  shows "no_replica (\<lambda>r. rp_ip r = ip) n (fst w')"
proof -
  have post: "no_replica (\<lambda>r. rp_ip r = ip) n (fst (modify_service n (remove_replicas_on_ip ip) w))" for w
    unfolding remove_replicas_on_ip_def by (rule retain_post) simp
  show ?thesis using assms post invalidated_post
    by (auto simp: replicas_removed_def split: option.splits service_info.splits if_splits bind_splits)
qed

lemma replica_removed_post:
  assumes "replica_removed n ip docker w = Some w'"
  shows "no_replica (matches_identity ip docker) n (fst w')"
proof -
  have post: "no_replica (matches_identity ip docker) n (fst (modify_service n (remove_replica ip docker) w))" for w
    unfolding remove_replica_def by (rule retain_post) simp
  show ?thesis using assms post invalidated_post
    by (auto simp: replica_removed_def Let_def split: if_splits bind_splits)
qed

definition proxy_live :: "ip_addr \<Rightarrow> replica \<Rightarrow> bool" where
  "proxy_live ip r \<longleftrightarrow> (\<exists>c. cl_proxy c = Some ip \<and> live_at c r)"

lemma proxy_live_less: "less_replica r r' \<Longrightarrow> proxy_live ip r' \<Longrightarrow> proxy_live ip r"
  using less_replica_live by (auto simp: proxy_live_def)

lemma proxy_live_clients:
  "\<not> has_clients_of_proxy ip (Registered reg) \<Longrightarrow> r \<in> set (rg_replicas reg) \<Longrightarrow> \<not> proxy_live ip r"
  by (fastforce simp: has_clients_of_proxy_def proxy_live_def live_at_def list_ex_iff dest: hm_get_SomeD)

lemma proxy_disconnected_post:
  assumes "world_inv (fst w)" "apply_change stack (ProxyDisconnected ip) w = Some w'"
  shows "no_replica (proxy_live ip) n (fst w')"
proof -
  let ?ns = "map fst (filter (\<lambda>(_, si). has_clients_of_proxy ip si) (fst w))"
  have fold: "foldM (\<lambda>n. teardown_chain n (ByIp ip)) ?ns w = Some w'" using assms(2) by simp
  have "\<forall>n \<in> set ?ns. no_replica (proxy_live ip) n (fst w')"
  proof (rule shrinks_foldM_each [OF shrinks_teardown_chain _ _ assms(1) fold])
    fix n and w :: world and w'
    assume "world_inv (fst w)" "teardown_chain n (ByIp ip) w = Some w'"
    then show "no_replica (proxy_live ip) n (fst w')"
      using teardown_chain_post by (fastforce simp: no_replica_def proxy_live_def proxy_filter_matches.simps)
  qed (use no_replica_less proxy_live_less in blast)
  moreover have "no_replica (proxy_live ip) n (fst w)" if out: "n \<notin> set ?ns"
    unfolding no_replica_def
  proof (intro allI impI)
    fix reg r
    assume reg: "hm_get (fst w) n = Some (Registered reg)" and r: "r \<in> set (rg_replicas reg)"
    then have "\<not> has_clients_of_proxy ip (Registered reg)" using hm_get_SomeD [OF reg] out by force
    then show "\<not> proxy_live ip r" using r by (rule proxy_live_clients)
  qed
  moreover have "less_services (fst w) (fst w')"
    using shrinksD [OF shrinks_apply_change assms(1)] assms(2) by (metis option.inject)
  ultimately show ?thesis using no_replica_less proxy_live_less by blast
qed

lemma session_closed_post:
  assumes "world_inv (fst w)" "teardown_chain n f w = Some w'"
    and "\<And>c r. p c r \<Longrightarrow> live_at c r \<and> proxy_filter_matches f c (rp_ip r) (rp_docker r)"
  shows "no_replica (\<lambda>r. \<exists>c. p c r) n (fst w')"
  unfolding no_replica_def using teardown_chain_post [OF assms(1,2)] assms(3) by blast

section \<open>What a change achieves\<close>

fun change_post :: "service_change \<Rightarrow> services \<Rightarrow> bool" where
  "change_post (Removed n) sv \<longleftrightarrow> hm_get sv n = None"
| "change_post (ReachabilityChanged n _) sv \<longleftrightarrow> no_replica (\<lambda>r. \<exists>c. cl_proxy c \<noteq> None \<and> live_at c r) n sv"
| "change_post (ReplicasRemoved n ip) sv \<longleftrightarrow> no_replica (\<lambda>r. rp_ip r = ip) n sv"
| "change_post (ReplicaRemoved n ip docker) sv \<longleftrightarrow> no_replica (matches_identity ip docker) n sv"
| "change_post (ProxyDisconnected ip) sv \<longleftrightarrow> (\<forall>n. no_replica (proxy_live ip) n sv)"
| "change_post (ProxyClientTimedOut n c) sv \<longleftrightarrow> no_replica (\<lambda>r. cl_proxy c \<noteq> None \<and> live_at c r) n sv"
| "change_post (StaleSessionEvicted n c) sv \<longleftrightarrow> no_replica (\<lambda>r. cl_proxy c \<noteq> None \<and> live_at c r) n sv"
| "change_post (ForceSessionTeardown n c) sv \<longleftrightarrow> no_replica (\<lambda>r. cl_proxy c \<noteq> None \<and> live_at c r) n sv"
| "change_post _ sv \<longleftrightarrow> True"

lemma less_services_None: "less_services sv sv' \<Longrightarrow> hm_get sv n = None \<Longrightarrow> hm_get sv' n = None"
  unfolding less_services_def by (metis option.distinct(1) option.exhaust)

lemma change_post_less: "change_post ch sv \<Longrightarrow> less_services sv sv' \<Longrightarrow> change_post ch sv'"
proof (induction ch sv rule: change_post.induct)
  case (3 n ip sv)
  then show ?case unfolding change_post.simps by (rule no_replica_less) (simp add: less_replica_def)
next
  case (4 n ip docker sv)
  then show ?case unfolding change_post.simps by (rule no_replica_less) (simp add: less_replica_def matches_identity_def)
next
  case (5 ip sv)
  then show ?case unfolding change_post.simps using no_replica_less proxy_live_less by blast
qed (auto intro: less_services_None elim!: no_replica_less dest: less_replica_live)

lemma session_post:
  assumes "world_inv (fst w)" "teardown_chain n (ByClient c) w = Some w'"
  shows "no_replica (\<lambda>r. cl_proxy c \<noteq> None \<and> live_at c r) n (fst w')"
proof -
  have "no_replica (\<lambda>r. \<exists>c'. c' = c \<and> cl_proxy c \<noteq> None \<and> live_at c r) n (fst w')"
    by (rule session_closed_post [OF assms]) (simp add: proxy_filter_matches.simps)
  then show ?thesis by simp
qed

lemma change_post_apply:
  assumes "world_inv (fst w)" "apply_change stack ch w = Some w'"
  shows "change_post ch (fst w')"
proof (cases ch)
  case (ReachabilityChanged n b)
  let ?w = "(fst w, emit (ServiceReachabilityToggled n stack b) (snd w))"
  obtain w1 where w1: "teardown_chain n FilterAll ?w = Some w1" "world_inv (fst w1)"
    by (rule shrinksD [OF shrinks_teardown_chain, of ?w]) (use assms(1) in simp_all)
  have "no_replica (\<lambda>r. \<exists>c. cl_proxy c \<noteq> None \<and> live_at c r) n (fst w1)"
    by (rule session_closed_post [OF _ w1(1)]) (use assms(1) in \<open>auto simp: proxy_filter_matches.simps\<close>)
  moreover have "teardown_all_backend_chains_for n None w1 = Some w'" using assms(2) w1(1) ReachabilityChanged by simp
  then have "less_services (fst w1) (fst w')" using shrinksD [OF shrinks_all_backend w1(2)] by (metis option.inject)
  ultimately show ?thesis using change_post_less [of ch "fst w1" "fst w'"] unfolding ReachabilityChanged by simp
next
  case (ProxyDisconnected ip)
  then show ?thesis using proxy_disconnected_post [OF assms(1)] assms(2) unfolding ProxyDisconnected change_post.simps by blast
next
  case (ProxyClientTimedOut n c)
  then show ?thesis using assms session_post [of "emit_if_diag (ProxyClientTimedOutEvent n c) w" n c w']
    by (simp add: emit_if_diag_def)
next
  case (StaleSessionEvicted n c)
  then show ?thesis using assms session_post [of w n c w'] by simp
next
  case (ForceSessionTeardown n c)
  then show ?thesis using assms session_post [of w n c w'] by simp
qed (use assms in \<open>auto intro: replicas_removed_post replica_removed_post split: bind_splits\<close>)

lemma foldM_apply_ok:
  assumes "world_inv sv"
  obtains sv' st' where "apply_changes chs None stack (sv, st) = Some (sv', st')" "world_inv sv'" "less_services sv sv'"
    "\<forall>ch \<in> set chs. change_post ch sv'"
proof -
  have inv: "world_inv (fst (sv, st))" using assms by simp
  obtain w' where w': "foldM (apply_change stack) chs (sv, st) = Some w'" "world_inv (fst w')" "less_services (fst (sv, st)) (fst w')"
    by (rule shrinksD [OF shrinks_foldM [OF shrinks_apply_change] inv])
  have "\<forall>ch \<in> set chs. change_post ch (fst w')"
    by (rule shrinks_foldM_each [OF shrinks_apply_change _ _ inv w'(1)]) (use change_post_apply change_post_less in blast)+
  then show thesis using that [of "fst w'" "snd w'"] w' by (simp add: apply_changes_def)
qed

lemma live_at_entries:
  assumes "world_inv sv" "hm_get sv n = Some (Registered reg)" "r \<in> set (rg_replicas reg)"
  shows "live_at c r \<longleftrightarrow> (\<exists>ci. (c, ci) \<in> set (cs_clients (rp_clients r)) \<and> \<not> is_pending ci)"
proof -
  have "hm_inv (entries_of r)" using world_inv_get [OF assms(1,2)] assms(3) by (auto simp: reg_inv_def reps_inv_def clients_inv_def)
  then show ?thesis by (auto simp: live_at_def hm_get_in_set)
qed

section \<open>Properties\<close>


text \<open>A stack for the concrete instances: an entry service with a chain to a second one.\<close>

definition ex_dep_config :: service_config where
  "ex_dep_config = ex_config\<lparr>sc_proxy_deps := [[''db'']]\<rparr>"

definition ex_stack :: services where
  "ex_stack = [(''web'', Registered \<lparr>rg_config = ex_dep_config,
       rg_replicas = [ex_replica [(ex_client ''u'', ex_entry 101 1)]]\<rparr>),
     (''db'', Registered \<lparr>rg_config = ex_config,
       rg_replicas = [(ex_replica [(client_new_service ''web'' (V4 9) (Some ''web''), ex_entry 102 1)])\<lparr>rp_ip := V4 8, rp_docker := None\<rparr>]\<rparr>)]"

lemma ex_stack_inv: "world_inv ex_stack"
proof -
  have "reps_inv [ex_replica es]" if "hm_inv es" "\<forall>e \<in> set es. ci_group_carrier (snd e) = None" for es
    using ex_reg_inv [OF that] by (simp add: reg_inv_def ex_reg_def)
  note reps = this [simplified]
  have "services_inv ex_stack"
    by (auto simp: services_inv_def ex_stack_def hm_inv_def reg_inv_def intro!: reps)
      (simp_all add: ex_entry_def with_pool_generation_def ex_replica_def hm_inv_def)
  then show ?thesis by (auto simp: world_inv_def ex_stack_def hm_get_def sticky_def split: if_splits)
qed


text \<open>After a node reported its service list, every replica the registry still has on that
  node is in the list, and nothing of the other nodes was added.\<close>

theorem services_list_respected:
  assumes "world_inv sv"
  shows "\<exists>sv' st'. apply_changes (detect_services_list_changes sv ip xs) None stack (sv, st) = Some (sv', st') \<and> world_inv sv' \<and>
    (\<forall>n reg r. hm_get sv' n = Some (Registered reg) \<longrightarrow> r \<in> set (rg_replicas reg) \<longrightarrow> rp_ip r = ip \<longrightarrow>
       (\<exists>port. (n, port, rp_docker r) \<in> set xs))"
proof -
  let ?chs = "detect_services_list_changes sv ip xs"
  obtain sv' st' where w': "apply_changes ?chs None stack (sv, st) = Some (sv', st')" "world_inv sv'" "less_services sv sv'"
    "\<forall>ch \<in> set ?chs. change_post ch sv'" by (rule foldM_apply_ok [OF assms])
  have "\<exists>port. (n, port, rp_docker r) \<in> set xs"
    if a: "hm_get sv' n = Some (Registered reg)" "r \<in> set (rg_replicas reg)" "rp_ip r = ip" for n reg r
  proof (rule ccontr)
    assume no: "\<nexists>port. (n, port, rp_docker r) \<in> set xs"
    obtain reg0 r0 where r0: "hm_get sv n = Some (Registered reg0)" "r0 \<in> set (rg_replicas reg0)" "less_replica r0 r"
      using less_services_getD [OF w'(3) a(1)] less_regD a(2) by blast
    have i: "rp_ip r0 = ip" "rp_docker r0 = rp_docker r" using r0(3) a(3) by (simp_all add: less_replica_def)
    then have "r0 \<in> set (filter (\<lambda>r. rp_ip r = ip \<and> \<not> list_ex (\<lambda>(n', _, dc). n' = n \<and> dc = rp_docker r) xs) (rg_replicas reg0))"
      using r0(2) no by (auto simp: list_ex_iff)
    from imageI [OF this, of "\<lambda>r. ReplicaRemoved n ip (rp_docker r)"]
    have "ReplicaRemoved n ip (rp_docker r) \<in> set ?chs"
      unfolding detect_services_list_changes_def set_concat i(2) set_map
      by (intro UN_I [OF imageI [OF hm_get_SomeD [OF r0(1)]]]) simp
    then show False using w'(4) a by (fastforce simp: no_replica_def matches_identity_def)
  qed
  then show ?thesis using w'(1,2) by blast
qed

theorem services_list_respected_witness:
  "map_option (\<lambda>w. case hm_get (fst w) ''db'' of Some (Registered reg) \<Rightarrow> has_replica_on_ip (V4 8) reg | _ \<Rightarrow> False)
     (apply_changes (detect_services_list_changes ex_stack (V4 8) []) None ''s'' (ex_stack, orch_new Vxlan False False [])) = Some False"
proof -
  obtain sv' st' where w: "apply_changes (detect_services_list_changes ex_stack (V4 8) []) None ''s'' (ex_stack, orch_new Vxlan False False []) = Some (sv', st')"
    "\<forall>n reg r. hm_get sv' n = Some (Registered reg) \<longrightarrow> r \<in> set (rg_replicas reg) \<longrightarrow> rp_ip r \<noteq> V4 8"
    using services_list_respected [OF ex_stack_inv, of "V4 8" "[]" "''s''" "orch_new Vxlan False False []"] by auto
  then show ?thesis by (auto simp: has_replica_on_ip_def list_ex_iff split: option.splits service_info.splits)
qed

text \<open>A configuration read from file registers nothing by itself.\<close>

definition config_loaded :: "services \<Rightarrow> bool" where
  "config_loaded loaded \<longleftrightarrow> (\<forall>(n, si) \<in> set loaded. case si of Unregistered _ \<Rightarrow> True | Registered _ \<Rightarrow> False)"

lemma reload_entry_inv:
  assumes "world_inv sv" "si = Unregistered c"
  shows "world_inv (case hm_get sv n of Some existing \<Rightarrow> hm_insert n (update_from_file si existing) sv | None \<Rightarrow> hm_insert n si sv)"
proof (cases "hm_get sv n")
  case None
  then show ?thesis using assms by (auto simp: world_inv_def intro: services_inv_insert)
next
  case (Some old)
  have "si_inv old" using assms(1) hm_get_SomeD [OF Some] by (auto simp: world_inv_def services_inv_def)
  then have "si_inv (update_from_file si old)" by (rule update_from_file_inv)
  moreover have "sticky reg" if "update_from_file si old = Registered reg" for reg
  proof (cases old)
    case (Registered old_reg)
    then have "sticky old_reg" using assms(1) Some by (auto simp: world_inv_def)
    moreover have "rg_replicas reg = rg_replicas old_reg" using that Registered by (auto simp: update_from_file_def)
    ultimately show ?thesis by (simp add: sticky_def)
  qed (use that in \<open>simp add: update_from_file_def\<close>)
  ultimately show ?thesis using assms(1) Some by (auto simp: world_inv_def intro: services_inv_insert)
qed

definition merge_loaded :: "services \<Rightarrow> services \<Rightarrow> services" where
  "merge_loaded loaded sv = fold (\<lambda>(name, loaded_info) services. (case hm_get services name of
      Some existing \<Rightarrow> hm_insert name (update_from_file loaded_info existing) services
    | None \<Rightarrow> hm_insert name loaded_info services)) loaded sv"

lemma merge_loaded_inv: "config_loaded loaded \<Longrightarrow> world_inv sv \<Longrightarrow> world_inv (merge_loaded loaded sv)"
proof (induction loaded arbitrary: sv)
  case (Cons x xs)
  obtain n c where x: "x = (n, Unregistered c)" using Cons.prems(1)
    by (cases x) (auto simp: config_loaded_def split: service_info.splits)
  show ?case using reload_entry_inv [OF Cons.prems(2), of "Unregistered c" c n] Cons by (simp add: x config_loaded_def merge_loaded_def)
qed (simp add: merge_loaded_def)

lemma apply_changes_loaded:
  "apply_changes chs None stack w = Some w' \<Longrightarrow> apply_changes chs (Some loaded) stack w = Some (merge_loaded loaded (fst w'), snd w')"
  by (auto simp: apply_changes_def merge_loaded_def split: bind_splits)

text \<open>\<^bold>\<open>C14.\<close> Applying any list of changes to a consistent registry, with or without a reloaded
  configuration, never panics, leaves the registry consistent, and every change achieved its
  purpose: removed services and replicas are gone, and so are the live sessions of the
  disconnected proxies, timed-out clients and services whose reachability was toggled.\<close>

theorem apply_changes_achieves:
  assumes "world_inv sv"
  shows "\<exists>sv' st'. apply_changes chs None stack (sv, st) = Some (sv', st') \<and> world_inv sv' \<and> (\<forall>ch \<in> set chs. change_post ch sv') \<and>
    (config_loaded loaded \<longrightarrow> (\<exists>sv''. apply_changes chs (Some loaded) stack (sv, st) = Some (sv'', st') \<and> world_inv sv''))"
proof -
  obtain sv' st' where w': "apply_changes chs None stack (sv, st) = Some (sv', st')" "world_inv sv'"
    "\<forall>ch \<in> set chs. change_post ch sv'" by (rule foldM_apply_ok [OF assms])
  then show ?thesis using apply_changes_loaded [OF w'(1), of loaded] merge_loaded_inv [of loaded sv'] by auto
qed

theorem apply_changes_achieves_witness:
  "map_option (\<lambda>w. map fst (fst w)) (apply_changes [Removed ''db'', ForceSessionTeardown ''web'' (ex_client ''u'')] None ''s''
     (ex_stack, orch_new Vxlan False False [])) = Some [''web'']"
proof -
  have run: "map_option (\<lambda>w. map fst (fst w)) (apply_changes [Removed ''db'', ForceSessionTeardown ''web'' (ex_client ''u'')] None ''s''
     (ex_stack, orch_new Vxlan False False [])) = Some [''web'']" by code_simp
  obtain sv' st' where "apply_changes [Removed ''db'', ForceSessionTeardown ''web'' (ex_client ''u'')] None ''s''
     (ex_stack, orch_new Vxlan False False []) = Some (sv', st')" "hm_get sv' ''db'' = None"
    using apply_changes_achieves [OF ex_stack_inv, of "[Removed ''db'', ForceSessionTeardown ''web'' (ex_client ''u'')]" "''s''"
      "orch_new Vxlan False False []" "[]"] by auto
  then show ?thesis using run by simp
qed

end
