(* ===== verification/Chain_Walk.thy ===== *)
theory Chain_Walk
  imports Changes_Props
begin

text \<open>
  Dependency chains: when the walk of \<^verbatim>\<open>services/changes.rs\<close> finds a chain complete, which networks a
  teardown closes, and what a chain that is torn down gives back.
\<close>

section \<open>Complete chains\<close>

text \<open>The declarative notion: every hop of the branch has a live edge on some replica of the next
  service, and the rest hangs off that replica.\<close>

inductive chain_up :: "services \<Rightarrow> string \<Rightarrow> ip_addr \<Rightarrow> string option \<Rightarrow> string list \<Rightarrow> bool" for sv where
  Done: "chain_up sv n ip docker []"
| Hop: "hm_get sv dep = Some (Registered reg) \<Longrightarrow> r \<in> set (rg_replicas reg) \<Longrightarrow>
    live_at (client_new_service n ip docker) r \<Longrightarrow> chain_up sv dep (rp_ip r) (rp_docker r) deps \<Longrightarrow>
    chain_up sv n ip docker (dep # deps)"

inductive_cases chain_up_ConsE: "chain_up sv n ip docker (dep # deps)"

lemma live_has_client: "live_at c r \<Longrightarrow> has_client c r"
  by (auto simp: live_at_def has_client_def)

lemma has_live_client_iff: "has_live_client c r \<longleftrightarrow> live_at c r"
  by (simp add: has_live_client_def live_at_def split: option.splits)

lemma client_replica_live_Some:
  assumes "sticky reg"
  shows "client_replica_live c reg = Some i \<longleftrightarrow> (\<exists>r \<in> set (rg_replicas reg). live_at c r \<and> ident r = i)"
proof
  assume "client_replica_live c reg = Some i"
  then obtain r where r: "find (has_live_client c) (rg_replicas reg) = Some r" "ident r = i"
    by (auto simp: client_replica_live_def)
  then show "\<exists>r \<in> set (rg_replicas reg). live_at c r \<and> ident r = i"
    using find_SomeD [OF r(1)] by (auto simp: has_live_client_iff)
next
  assume "\<exists>r \<in> set (rg_replicas reg). live_at c r \<and> ident r = i"
  then obtain r where r: "r \<in> set (rg_replicas reg)" "live_at c r" "ident r = i" by blast
  then have "find (has_live_client c) (rg_replicas reg) \<noteq> None" by (auto simp: find_None_iff has_live_client_iff)
  then obtain r' where r': "find (has_live_client c) (rg_replicas reg) = Some r'" by blast
  then have "r' \<in> set (rg_replicas reg)" "live_at c r'" using find_SomeD [OF r'] by (auto simp: has_live_client_iff)
  then have "ident r' = ident r" using assms r live_has_client unfolding sticky_def by metis
  then show "client_replica_live c reg = Some i" using r' r(3) by (simp add: client_replica_live_def)
qed

definition edge_live :: "services \<Rightarrow> client \<times> string \<Rightarrow> bool" where
  "edge_live sv e \<longleftrightarrow> (\<exists>reg. hm_get sv (snd e) = Some (Registered reg) \<and> client_replica_live (fst e) reg \<noteq> None)"

lemma dep_chain_intact_edges:
  "dep_chain_intact n ip docker sv \<longleftrightarrow> (\<forall>e \<in> set (collect_dep_chain_edges n ip docker sv). edge_live sv e)"
proof -
  have "(case e of (c, dep_name) \<Rightarrow> case hm_get sv dep_name of
         Some (Registered dep_reg) \<Rightarrow> client_replica_live c dep_reg \<noteq> None | _ \<Rightarrow> False) = edge_live sv e" for e
    by (cases e) (simp add: edge_live_def split: option.splits service_info.splits)
  then show ?thesis by (simp add: dep_chain_intact_def list_all_iff)
qed

lemma collect_branch_intact:
  assumes "world_inv sv"
  shows "(\<forall>e \<in> set (collect_branch sv n ip docker deps). edge_live sv e) \<longleftrightarrow> chain_up sv n ip docker deps"
proof (induction deps arbitrary: n ip docker)
  case Nil
  then show ?case by (simp add: chain_up.Done)
next
  case (Cons dep deps)
  let ?c = "client_new_service n ip docker"
  show ?case
  proof (cases "\<exists>reg. hm_get sv dep = Some (Registered reg) \<and> client_replica_live ?c reg \<noteq> None")
    case True
    then obtain reg rip rd where reg: "hm_get sv dep = Some (Registered reg)" "client_replica_live ?c reg = Some (rip, rd)" by auto
    have sticky: "sticky reg" using world_inv_get [OF assms reg(1)] by simp
    have "chain_up sv n ip docker (dep # deps) \<longleftrightarrow> chain_up sv dep rip rd deps"
    proof
      assume "chain_up sv n ip docker (dep # deps)"
      then obtain reg' r where "hm_get sv dep = Some (Registered reg')" "r \<in> set (rg_replicas reg')" "live_at ?c r"
        "chain_up sv dep (rp_ip r) (rp_docker r) deps" by (rule chain_up_ConsE)
      moreover have "client_replica_live ?c reg = Some (ident r)"
        using calculation reg(1) client_replica_live_Some [OF sticky] by auto
      ultimately show "chain_up sv dep rip rd deps" using reg(2) by simp
    next
      assume "chain_up sv dep rip rd deps"
      then show "chain_up sv n ip docker (dep # deps)"
        using reg client_replica_live_Some [OF sticky] by (auto intro: chain_up.Hop)
    qed
    then show ?thesis using Cons.IH [of dep rip rd] reg by (simp add: emit_edge_and_probe_hop_def Let_def edge_live_def)
  next
    case False
    then have "\<not> chain_up sv n ip docker (dep # deps)"
      using client_replica_live_Some world_inv_get [OF assms] by (fastforce elim: chain_up_ConsE)
    then show ?thesis using False by (simp add: emit_edge_and_probe_hop_def Let_def edge_live_def)
  qed
qed

text \<open>\<^bold>\<open>C18.\<close> The completeness check of a dependency chain agrees with its declarative meaning: it
  succeeds exactly when every branch is up hop by hop, each hop rooted on the replica the
  previous one is live on.\<close>

theorem dep_chain_intact_iff:
  assumes "world_inv sv" "hm_get sv n = Some si"
  shows "dep_chain_intact n ip docker sv \<longleftrightarrow> (\<forall>deps \<in> set (si_proxy_deps si). chain_up sv n ip docker deps)"
  using assms collect_branch_intact [OF assms(1)]
  by (simp add: dep_chain_intact_edges collect_dep_chain_edges_def)

theorem dep_chain_intact_iff_witness:
  "dep_chain_intact ''web'' (V4 9) (Some ''web'') ex_stack \<and> chain_up ex_stack ''web'' (V4 9) (Some ''web'') [''db'']
   \<and> \<not> chain_up ex_stack ''web'' (V4 7) None [''db'']"
proof -
  have "hm_get ex_stack ''web'' = Some (Registered \<lparr>rg_config = ex_dep_config, rg_replicas = [ex_replica [(ex_client ''u'', ex_entry 101 1)]]\<rparr>)"
    by code_simp
  note iff = dep_chain_intact_iff [OF ex_stack_inv this]
  have "dep_chain_intact ''web'' (V4 9) (Some ''web'') ex_stack" "\<not> dep_chain_intact ''web'' (V4 7) None ex_stack" by code_simp+
  then show ?thesis using iff by (simp add: ex_dep_config_def)
qed

section \<open>Networks a teardown closes\<close>

definition close_one :: "string \<Rightarrow> proxy_teardown \<Rightarrow> orch \<Rightarrow> orch" where
  "close_one name td st = (case td of (_, client_ip, net_id, client_docker, service_ip, service_docker, grp) \<Rightarrow>
     (let st = send_net_teardown_kind client_ip client_docker service_ip service_docker net_id grp st
      in if o_diag st then emit (SessionTornDown net_id name client_ip) st else st))"

abbreviation td_net :: "proxy_teardown \<Rightarrow> u32" where
  "td_net td \<equiv> fst (snd (snd td))"

lemma close_networks_once:
  "\<exists>cl. close_networks n sv torn tds st = fold (close_one n) cl st \<and> distinct (map td_net cl) \<and> set cl \<subseteq> set tds \<and>
     td_net ` set cl = {i \<in> td_net ` set tds. i \<notin> set torn \<and> \<not> net_shared n i sv}"
proof (induction tds arbitrary: torn st)
  case (Cons td tds)
  obtain c cip net cd sip sd grp where td: "td = (c, cip, net, cd, sip, sd, grp)" by (cases td) auto
  show ?case
  proof (cases "net \<in> set torn")
    case True
    obtain cl where cl: "close_networks n sv torn tds st = fold (close_one n) cl st" "distinct (map td_net cl)" "set cl \<subseteq> set tds"
      "td_net ` set cl = {i \<in> td_net ` set tds. i \<notin> set torn \<and> \<not> net_shared n i sv}" using Cons.IH by blast
    then show ?thesis using True by (intro exI [of _ cl]) (auto simp: td)
  next
    case False
    let ?st = "if net_shared n net sv then st else close_one n td st"
    obtain cl where cl: "close_networks n sv (net # torn) tds ?st = fold (close_one n) cl ?st" "distinct (map td_net cl)" "set cl \<subseteq> set tds"
      "td_net ` set cl = {i \<in> td_net ` set tds. i \<notin> set (net # torn) \<and> \<not> net_shared n i sv}" using Cons.IH by blast
    have run: "close_networks n sv torn (td # tds) st = close_networks n sv (net # torn) tds ?st"
      using False by (simp add: td close_one_def)
    show ?thesis
    proof (cases "net_shared n net sv")
      case True
      then show ?thesis using cl run False by (intro exI [of _ cl]) (auto simp: td)
    next
      case shared: False
      have "net \<notin> td_net ` set cl" using cl(4) by auto
      then show ?thesis using cl run False shared by (intro exI [of _ "td # cl"]) (auto simp: td)
    qed
  qed
qed simp

text \<open>Of the networks of the torn-down sessions a teardown closes exactly those no remaining
  client of the service uses, each of them once.\<close>

theorem teardown_closes_unshared_once:
  "\<exists>cl. close_networks n sv [] tds st = fold (close_one n) cl st \<and> distinct (map td_net cl) \<and> set cl \<subseteq> set tds \<and>
     td_net ` set cl = {i \<in> td_net ` set tds. \<not> net_shared n i sv}"
  using close_networks_once [of n sv "[]" tds st] by simp

section \<open>Removing a replica in the middle of a chain\<close>

text \<open>An entry service \<^verbatim>\<open>web\<close> whose chain goes through \<^verbatim>\<open>app\<close> to \<^verbatim>\<open>db\<close>; \<^verbatim>\<open>db\<close> has two replicas, and the edge
  from \<^verbatim>\<open>app\<close> to the first one is network 103.  All three hosts are connected.\<close>

definition ex_service :: "string list list \<Rightarrow> replica list \<Rightarrow> service_info" where
  "ex_service deps rs = Registered \<lparr>rg_config = ex_config\<lparr>sc_proxy_deps := deps\<rparr>, rg_replicas = rs\<rparr>"

definition ex_node :: "ip_addr \<Rightarrow> (client, client_info) hmap \<Rightarrow> replica" where
  "ex_node ip es = (ex_replica es)\<lparr>rp_ip := ip, rp_docker := None\<rparr>"

definition ex_chain :: services where
  "ex_chain = [(''web'', ex_service [[''app'', ''db'']] [ex_node (V4 1) [(ex_client ''u'', ex_entry 101 1)]]),
     (''app'', ex_service [] [ex_node (V4 2) [(client_new_service ''web'' (V4 1) None, ex_entry 102 1)]]),
     (''db'', ex_service [] [ex_node (V4 3) [(client_new_service ''app'' (V4 2) None, ex_entry 103 1)], ex_node (V4 4) []])]"

definition ex_orch :: orch where
  "ex_orch = (orch_new Vxlan False False [])\<lparr>o_clients := [(ex_proxy, 0), (V4 1, 1), (V4 2, 2), (V4 3, 3), (V4 4, 4)],
     o_pool := (pool_new\<lparr>next_fresh := 104\<rparr>)\<rparr>"

definition net_used :: "u32 \<Rightarrow> services \<Rightarrow> bool" where
  "net_used i sv = list_ex (\<lambda>(_, si). case si of Registered reg \<Rightarrow> has_clients_with_net_id i reg | Unregistered _ \<Rightarrow> False) sv"


end
