(* ===== verification/Timeouts.thy ===== *)
theory Timeouts
  imports Chain_Walk
begin

text \<open>
  The reaping loop (nullnet-server, \<^verbatim>\<open>timeout.rs\<close>): how long it sleeps, which proxy sessions it
  collects, the second look at every candidate under the lock, the release of idle trigger chains
  and one full turn of the loop.
\<close>

section \<open>The loop\<close>

definition MAX_POLL_INTERVAL :: nat where
  "MAX_POLL_INTERVAL = from_secs 60"

definition LIVENESS_REAP_DEBOUNCE :: nat where
  "LIVENESS_REAP_DEBOUNCE = from_secs 30"

definition client_timed_out :: "instant \<Rightarrow> services \<Rightarrow> string \<Rightarrow> client \<Rightarrow> bool" where
  "client_timed_out now services name c = (case hm_get services name of
       Some (Registered reg) \<Rightarrow> (case sc_timeout (rg_config reg) of
           None \<Rightarrow> False
         | Some timeout \<Rightarrow> timeout \<noteq> 0 \<and> proxy_client_expired now c (from_secs timeout) reg \<and>
             \<not> (case client_replica c reg of None \<Rightarrow> False
                | Some (ip, docker) \<Rightarrow> dep_chain_has_pending name ip docker services))
     | _ \<Rightarrow> False)"

definition apply_timeout_candidate :: "instant \<Rightarrow> service_change \<Rightarrow> string \<Rightarrow> world \<Rightarrow> world option" where
  "apply_timeout_candidate now change stack w = (case change of
       ProxyClientTimedOut name c \<Rightarrow> if client_timed_out now (fst w) name c
         then apply_changes [change] None stack w else Some w
     | _ \<Rightarrow> Some w)"

definition timed_out_of :: "instant \<Rightarrow> services \<Rightarrow> string \<times> service_info \<Rightarrow> service_change list" where
  "timed_out_of now services e = (let (name, si) = e in case (si_timeout si, si) of
       (Some timeout, Registered reg) \<Rightarrow> if timeout = 0 then []
         else map (ProxyClientTimedOut name) (filter (\<lambda>c. \<not> (case client_replica c reg of None \<Rightarrow> False
             | Some (ip, docker) \<Rightarrow> dep_chain_has_pending name ip docker services))
           (expired_proxy_clients now (from_secs timeout) reg))
     | _ \<Rightarrow> [])"

definition collect_timed_out_clients :: "instant \<Rightarrow> services \<Rightarrow> service_change list" where
  "collect_timed_out_clients now services = concat (map (timed_out_of now services) services)"

text \<open>The two phases of \<^verbatim>\<open>reap_ingress_timeouts\<close>: the candidates of all stacks, then one locked pass
  per candidate.\<close>

definition ingress_candidates :: "instant \<Rightarrow> stack_map \<Rightarrow> (string \<times> service_change) list" where
  "ingress_candidates now stacks = concat (map (\<lambda>(stack, services).
     map (\<lambda>change. (stack, change)) (collect_timed_out_clients now services)) stacks)"

definition on_stack :: "string \<Rightarrow> (world \<Rightarrow> world option) \<Rightarrow> stack_map \<times> orch \<Rightarrow> (stack_map \<times> orch) option" where
  "on_stack stack f w = (case hm_get (fst w) stack of
       None \<Rightarrow> Some w
     | Some services \<Rightarrow> map_option (\<lambda>(services', st'). (hm_insert stack services' (fst w), st')) (f (services, snd w)))"

definition reap_ingress_timeouts :: "instant \<Rightarrow> stack_map \<times> orch \<Rightarrow> (stack_map \<times> orch) option" where
  "reap_ingress_timeouts now w = foldM (\<lambda>(stack, change). on_stack stack (apply_timeout_candidate now change stack))
     (ingress_candidates now (fst w)) w"

definition reap_idle_backend_chains :: "instant \<Rightarrow> nat \<Rightarrow> stack_map \<times> orch \<Rightarrow> (stack_map \<times> orch) option" where
  "reap_idle_backend_chains now debounce w = (let (expired, st) = take_due_backend_sessions now debounce (snd w) in do {
     (stacks, st) \<leftarrow> foldM (\<lambda>((service, ip, docker, port), stack, _). on_stack stack (release_backend_chain service ip docker port))
       expired (fst w, st);
     Some (stacks, fold (\<lambda>(_, _, history_id). history (CloseBackend history_id)) expired st)
   })"

definition nearest_timeout :: "instant \<Rightarrow> services \<Rightarrow> nat" where
  "nearest_timeout now services = fold (\<lambda>si nearest. case si_timeout si of
       None \<Rightarrow> nearest
     | Some timeout \<Rightarrow> if timeout = 0 then nearest
         else (let nearest = min nearest (from_secs timeout) in case si of
             Registered reg \<Rightarrow> (case nearest_proxy_expiry now (from_secs timeout) reg of
                 Some expiry \<Rightarrow> min nearest expiry | None \<Rightarrow> nearest)
           | Unregistered _ \<Rightarrow> nearest)) (hm_values services) MAX_POLL_INTERVAL"

definition sleep_duration :: "instant \<Rightarrow> stack_map \<Rightarrow> orch \<Rightarrow> nat" where
  "sleep_duration now stacks st = (let
       ingress = (case iter_min (map (nearest_timeout now) (hm_values stacks)) of Some d \<Rightarrow> d | None \<Rightarrow> MAX_POLL_INTERVAL);
       egress = nearest_egress_expiry now LIVENESS_REAP_DEBOUNCE (o_egress st);
       backend = nearest_backend_expiry now LIVENESS_REAP_DEBOUNCE (o_backend st)
     in fold (\<lambda>d acc. min acc d) (List.map_filter (\<lambda>x. x) [egress, backend]) ingress)"

text \<open>One turn after the sleep, nothing else running in between.\<close>

definition timeouts_turn :: "instant \<Rightarrow> stack_map \<times> orch \<Rightarrow> (stack_map \<times> orch) option" where
  "timeouts_turn now w = do {
     w \<leftarrow> reap_idle_backend_chains now LIVENESS_REAP_DEBOUNCE (fst w, reap_idle_egress_edges now LIVENESS_REAP_DEBOUNCE (snd w));
     w \<leftarrow> reap_ingress_timeouts now w;
     Some (fst w, reconcile_container_pauses (fst w) (snd w))
   }"

section \<open>Sleeping\<close>

lemma fold_min_le:
  fixes g :: "'a \<Rightarrow> nat \<Rightarrow> nat"
  assumes "\<And>x m. g x m \<le> m" "\<And>x m. P x \<Longrightarrow> g x m \<le> b x"
  shows "fold g xs m \<le> m" "x \<in> set xs \<Longrightarrow> P x \<Longrightarrow> fold g xs m \<le> b x"
proof -
  show le: "fold g xs m \<le> m" for xs m using assms(1) by (induction xs arbitrary: m) (auto intro: le_trans)
  show "x \<in> set xs \<Longrightarrow> P x \<Longrightarrow> fold g xs m \<le> b x"
  proof (induction xs arbitrary: m)
    case (Cons y ys)
    then show ?case using le [of ys "g y m"] assms(2) [of y m] by (cases "x = y") (auto intro: le_trans)
  qed simp
qed

lemma nearest_timeout_le:
  assumes "hm_inv services" "hm_get services n = Some (Registered reg)" "sc_timeout (rg_config reg) = Some t" "t \<noteq> 0"
  shows "nearest_timeout now services \<le> from_secs t"
    and "nearest_proxy_expiry now (from_secs t) reg = Some e \<Longrightarrow> nearest_timeout now services \<le> e"
proof -
  let ?g = "\<lambda>si nearest. case si_timeout si of
       None \<Rightarrow> nearest
     | Some timeout \<Rightarrow> if timeout = 0 then nearest
         else (let nearest = min nearest (from_secs timeout) in case si of
             Registered reg \<Rightarrow> (case nearest_proxy_expiry now (from_secs timeout) reg of
                 Some expiry \<Rightarrow> min nearest expiry | None \<Rightarrow> nearest)
           | Unregistered _ \<Rightarrow> nearest)"
  have mem: "Registered reg \<in> set (hm_values services)" using hm_get_SomeD [OF assms(2)] by force
  have le: "?g si m \<le> m" for si m by (auto simp: Let_def split: option.splits service_info.splits)
  show "nearest_timeout now services \<le> from_secs t" unfolding nearest_timeout_def
    by (rule fold_min_le(2) [of ?g "\<lambda>si. si = Registered reg" "\<lambda>_. from_secs t", OF le _ mem])
      (use assms in \<open>auto simp: Let_def split: option.splits\<close>)
  show "nearest_timeout now services \<le> e" if "nearest_proxy_expiry now (from_secs t) reg = Some e"
    unfolding nearest_timeout_def
    by (rule fold_min_le(2) [of ?g "\<lambda>si. si = Registered reg" "\<lambda>_. e", OF le _ mem])
      (use assms that in \<open>auto simp: Let_def\<close>)
qed

lemma expiry_le:
  assumes "(c, ci) \<in> set (reg_entries reg)" "cl_proxy c \<noteq> None" "\<not> is_pending ci" "ci_open_connections ci = 0"
  obtains e where "nearest_proxy_expiry now t reg = Some e" "e \<le> t - (now - ci_latest ci)"
proof -
  let ?l = "map (\<lambda>(_, ci). t - (now - ci_latest ci))
     (filter (\<lambda>(c, ci). cl_proxy c \<noteq> None \<and> \<not> is_pending ci \<and> ci_open_connections ci = 0) (reg_entries reg))"
  have "(c, ci) \<in> set (filter (\<lambda>(c, ci). cl_proxy c \<noteq> None \<and> \<not> is_pending ci \<and> ci_open_connections ci = 0) (reg_entries reg))"
    using assms by simp
  then have mem: "t - (now - ci_latest ci) \<in> set ?l" by force
  then have "?l \<noteq> []" by (metis empty_iff list.set(1))
  then obtain e where "iter_min ?l = Some e" using iter_min_None [of ?l] by blast
  moreover from this have "e \<le> t - (now - ci_latest ci)" using mem unfolding iter_min_Some by blast
  ultimately show thesis using that [of e] unfolding nearest_proxy_expiry_def by blast
qed

lemma timed_out_of_expired:
  "timed_out_of now services (name, si) \<noteq> [] \<Longrightarrow> \<exists>t reg. si = Registered reg \<and> sc_timeout (rg_config reg) = Some t \<and> t \<noteq> 0 \<and>
     expired_proxy_clients now (from_secs t) reg \<noteq> []"
  by (cases si; cases "si_timeout si") (auto simp: timed_out_of_def split: if_splits)

section \<open>Properties\<close>

lemma no_client_due:
  assumes "hm_inv services" "d < nearest_timeout now services"
  shows "collect_timed_out_clients (now + d) services = []"
proof (rule ccontr)
  assume "collect_timed_out_clients (now + d) services \<noteq> []"
  then obtain name si where e: "(name, si) \<in> set services" "timed_out_of (now + d) services (name, si) \<noteq> []"
    by (fastforce simp: collect_timed_out_clients_def)
  then obtain t reg where si: "si = Registered reg" "sc_timeout (rg_config reg) = Some t" "t \<noteq> 0"
    "expired_proxy_clients (now + d) (from_secs t) reg \<noteq> []"
    using timed_out_of_expired by blast
  then obtain c ci where ci: "(c, ci) \<in> set (reg_entries reg)" "cl_proxy c \<noteq> None" "idle_expired (now + d) (from_secs t) ci"
    by (fastforce simp: expired_proxy_clients_def filter_empty_conv)
  obtain x where x: "nearest_proxy_expiry now (from_secs t) reg = Some x" "x \<le> from_secs t - (now - ci_latest ci)"
    by (rule expiry_le [OF ci(1,2)]) (use ci(3) in \<open>auto simp: idle_expired_def\<close>)
  have get: "hm_get services name = Some (Registered reg)" using e(1) si(1) assms(1) by (simp add: hm_get_in_set)
  have "nearest_timeout now services \<le> x" "nearest_timeout now services \<le> from_secs t"
    using nearest_timeout_le [OF assms(1) get si(2,3)] x(1) by blast+
  moreover have "from_secs t \<le> now + d - ci_latest ci" using ci(3) by (simp add: idle_expired_def)
  ultimately show False using assms(2) x(2) by linarith
qed

lemma sleep_duration_le:
  "(n, sv) \<in> set stacks \<Longrightarrow> sleep_duration now stacks st \<le> nearest_timeout now sv"
  "nearest_egress_expiry now LIVENESS_REAP_DEBOUNCE (o_egress st) = Some w \<Longrightarrow> sleep_duration now stacks st \<le> w"
  "nearest_backend_expiry now LIVENESS_REAP_DEBOUNCE (o_backend st) = Some w \<Longrightarrow> sleep_duration now stacks st \<le> w"
proof -
  let ?l = "map (nearest_timeout now) (hm_values stacks)"
  have le: "sleep_duration now stacks st \<le> (case iter_min ?l of Some d \<Rightarrow> d | None \<Rightarrow> MAX_POLL_INTERVAL)"
    by (auto simp: sleep_duration_def Let_def map_filter_def min_le_iff_disj split: option.splits)
  show "sleep_duration now stacks st \<le> nearest_timeout now sv" if "(n, sv) \<in> set stacks"
  proof -
    have mem: "nearest_timeout now sv \<in> set ?l" using that by force
    then have "?l \<noteq> []" by (metis empty_iff list.set(1))
    then obtain e where e: "iter_min ?l = Some e" using iter_min_None [of ?l] by blast
    then have "e \<le> nearest_timeout now sv" using mem unfolding iter_min_Some by blast
    then show ?thesis using le e by simp
  qed
qed (auto simp: sleep_duration_def Let_def map_filter_def min_le_iff_disj split: option.splits)

text \<open>\<^bold>\<open>C16.\<close> While the loop sleeps nothing falls due: strictly before the computed sleep has passed
  no proxy session of any stack has timed out, and no egress edge and no trigger session has
  been idle for the debounce.\<close>

theorem nothing_due_while_asleep:
  assumes "\<forall>(n, sv) \<in> set stacks. hm_inv sv" "d < sleep_duration now stacks st"
  shows "ingress_candidates (now + d) stacks = [] \<and> due_egress_edges (now + d) LIVENESS_REAP_DEBOUNCE (o_egress st) = [] \<and>
    due_backend_sessions (now + d) LIVENESS_REAP_DEBOUNCE (o_backend st) = []"
proof (intro conjI)
  have "collect_timed_out_clients (now + d) sv = []" if "(n, sv) \<in> set stacks" for n sv
    using no_client_due [of sv d now] assms that sleep_duration_le(1) [OF that, of now st] by fastforce
  then show "ingress_candidates (now + d) stacks = []" by (auto simp: ingress_candidates_def)
  show "due_egress_edges (now + d) LIVENESS_REAP_DEBOUNCE (o_egress st) = []"
    by (rule egress_reaper.not_due_before) (use assms(2) sleep_duration_le(2) in \<open>meson order_less_le_trans\<close>)
  show "due_backend_sessions (now + d) LIVENESS_REAP_DEBOUNCE (o_backend st) = []"
    by (rule backend_reaper.not_due_before) (use assms(2) sleep_duration_le(3) in \<open>meson order_less_le_trans\<close>)
qed

lemmas ex_timeout_defs = ex_stack_def ex_dep_config_def ex_defs MAX_POLL_INTERVAL_def from_secs_def
  nearest_proxy_expiry_def reg_entries_def is_pending_def iter_min_def

theorem nothing_due_while_asleep_witness:
  "let st = (orch_new Vxlan False False [])\<lparr>o_egress := [((V4 1, None), demo_edge 101 (Some 5))]\<rparr> in
   sleep_duration 10 [(''s'', ex_stack)] st = 29995 \<and> ingress_candidates (10 + 29994) [(''s'', ex_stack)] = [] \<and>
   due_egress_edges (10 + 29994) LIVENESS_REAP_DEBOUNCE (o_egress st) = []"
proof -
  let ?st = "(orch_new Vxlan False False [])\<lparr>o_egress := [((V4 1, None), demo_edge 101 (Some 5))]\<rparr>"
  have n: "nearest_timeout 10 ex_stack = 59990" by (simp add: nearest_timeout_def ex_timeout_defs)
  have "sleep_duration 10 [(''s'', ex_stack)] ?st = 29995"
    by (simp add: sleep_duration_def n iter_min_def nearest_egress_expiry_def nearest_backend_expiry_def demo_edge_def orch_new_def
        LIVENESS_REAP_DEBOUNCE_def from_secs_def map_filter_def)
  moreover have "hm_inv ex_stack" using ex_stack_inv by (simp add: world_inv_def services_inv_def)
  ultimately show ?thesis using nothing_due_while_asleep [of "[(''s'', ex_stack)]" 29994 10 ?st] by (simp add: Let_def)
qed

text \<open>A candidate is judged again under the lock: a session that meanwhile got a connection
  or was used within its timeout, or whose service has no timeout or the timeout zero, is left
  alone however it became a candidate.\<close>

theorem timeout_spares_active:
  assumes "hm_get (fst w) name = Some (Registered reg)" "client_entry c reg = Some ci"
    and "case sc_timeout (rg_config reg) of None \<Rightarrow> True
      | Some t \<Rightarrow> t = 0 \<or> 0 < ci_open_connections ci \<or> now - ci_latest ci < from_secs t"
  shows "apply_timeout_candidate now (ProxyClientTimedOut name c) stack w = Some w"
  using assms by (auto simp: apply_timeout_candidate_def client_timed_out_def proxy_client_expired_def idle_expired_def
      split: option.splits)

theorem timeout_spares_active_witness:
  "apply_timeout_candidate 59999 (ProxyClientTimedOut ''web'' (ex_client ''u'')) ''s'' (ex_stack, ex_orch) = Some (ex_stack, ex_orch)"
proof (rule timeout_spares_active)
  show "hm_get (fst (ex_stack, ex_orch)) ''web'' = Some (Registered \<lparr>rg_config = ex_dep_config,
      rg_replicas = [ex_replica [(ex_client ''u'', ex_entry 101 1)]]\<rparr>)" by code_simp
  show "client_entry (ex_client ''u'') \<lparr>rg_config = ex_dep_config,
      rg_replicas = [ex_replica [(ex_client ''u'', ex_entry 101 1)]]\<rparr> = Some (ex_entry 101 1)" by code_simp
  show "case sc_timeout (rg_config \<lparr>rg_config = ex_dep_config, rg_replicas = [ex_replica [(ex_client ''u'', ex_entry 101 1)]]\<rparr>) of
      None \<Rightarrow> True | Some t \<Rightarrow> t = 0 \<or> 0 < ci_open_connections (ex_entry 101 1) \<or> 59999 - ci_latest (ex_entry 101 1) < from_secs t"
    by (simp add: ex_timeout_defs)
qed

section \<open>A turn never fails\<close>

definition stacks_inv :: "stack_map \<Rightarrow> bool" where
  "stacks_inv stacks \<longleftrightarrow> hm_inv stacks \<and> (\<forall>s sv. hm_get stacks s = Some sv \<longrightarrow> world_inv sv)"

lemma on_stack_ok:
  assumes "shrinks f" "stacks_inv (fst w)"
  shows "\<exists>w'. on_stack stack f w = Some w' \<and> stacks_inv (fst w')"
proof (cases "hm_get (fst w) stack")
  case None
  then show ?thesis using assms(2) by (simp add: on_stack_def)
next
  case (Some sv)
  have inv: "world_inv (fst (sv, snd w))" using assms(2) Some by (simp add: stacks_inv_def)
  obtain w' where w': "f (sv, snd w) = Some w'" "world_inv (fst w')" by (rule shrinksD [OF assms(1) inv])
  then have "on_stack stack f w = Some (hm_insert stack (fst w') (fst w), snd w')"
    using Some by (simp add: on_stack_def case_prod_beta)
  moreover have "stacks_inv (hm_insert stack (fst w') (fst w))"
    using assms(2) w'(2) by (auto simp: stacks_inv_def split: if_splits)
  ultimately show ?thesis by simp
qed

lemma shrinks_apply_changes: "shrinks (apply_changes chs None stack)"
  by (rule shrinks_ext [OF shrinks_foldM [OF shrinks_apply_change]]) (simp add: apply_changes_def)

lemma shrinks_timeout_candidate: "shrinks (apply_timeout_candidate now change stack)"
  unfolding apply_timeout_candidate_def
  by (cases change) (auto intro: shrinks_if shrinks_Some shrinks_apply_changes)

lemma shrinks_release: "shrinks (release_backend_chain n ip docker port)"
  by (rule shrinks_ext [OF shrinks_backend_chain]) (simp add: release_backend_chain_def)

lemma on_stacks_ok:
  assumes "\<And>x. shrinks (f x)" "stacks_inv (fst w)"
  shows "\<exists>w'. foldM (\<lambda>x. on_stack (stack x) (f x)) xs w = Some w' \<and> stacks_inv (fst w')"
  by (rule foldM_inv [where P = "\<lambda>w. stacks_inv (fst w)"]) (use assms on_stack_ok in blast)+

lemma reap_ingress_ok: "stacks_inv (fst w) \<Longrightarrow> \<exists>w'. reap_ingress_timeouts now w = Some w' \<and> stacks_inv (fst w')"
  unfolding reap_ingress_timeouts_def split_def by (rule on_stacks_ok) (rule shrinks_timeout_candidate)

lemma reap_backend_ok:
  assumes "stacks_inv (fst w)"
  shows "\<exists>w'. reap_idle_backend_chains now debounce w = Some w' \<and> stacks_inv (fst w')"
proof -
  obtain expired st where t: "take_due_backend_sessions now debounce (snd w) = (expired, st)" by force
  have "\<exists>w1. foldM (\<lambda>((service, ip, docker, port), stack, _). on_stack stack (release_backend_chain service ip docker port))
       expired (fst w, st) = Some w1 \<and> stacks_inv (fst w1)"
    unfolding split_def by (rule on_stacks_ok) (use assms shrinks_release in simp_all)
  then obtain w1 where "foldM (\<lambda>((service, ip, docker, port), stack, _). on_stack stack (release_backend_chain service ip docker port))
       expired (fst w, st) = Some w1" "stacks_inv (fst w1)" by blast
  then show ?thesis using t by (cases w1) (simp add: reap_idle_backend_chains_def Let_def)
qed

text \<open>\<^bold>\<open>C23.\<close> A whole turn of the reaping loop, over all stacks, never panics and keeps every registry
  consistent.\<close>

theorem timeouts_turn_total:
  assumes "stacks_inv stacks"
  shows "\<exists>stacks' st'. timeouts_turn now (stacks, st) = Some (stacks', st') \<and> stacks_inv stacks'"
proof -
  let ?w = "(stacks, reap_idle_egress_edges now LIVENESS_REAP_DEBOUNCE st)"
  obtain w1 where w1: "reap_idle_backend_chains now LIVENESS_REAP_DEBOUNCE ?w = Some w1" "stacks_inv (fst w1)"
    using reap_backend_ok [of ?w now LIVENESS_REAP_DEBOUNCE] assms by auto
  obtain w2 where w2: "reap_ingress_timeouts now w1 = Some w2" "stacks_inv (fst w2)" using reap_ingress_ok [OF w1(2)] by blast
  show ?thesis using w1(1) w2 by (simp add: timeouts_turn_def)
qed

theorem timeouts_turn_total_witness:
  "\<exists>stacks' st'. timeouts_turn 60000 ([(''s'', ex_stack)], ex_orch) = Some (stacks', st') \<and> stacks_inv stacks'"
proof (rule timeouts_turn_total)
  show "stacks_inv [(''s'', ex_stack)]" using ex_stack_inv by (auto simp: stacks_inv_def hm_inv_def hm_get_def split: if_splits)
qed

end
