(* ===== verification/Chain_Setup.thy ===== *)
theory Chain_Setup
  imports Timeouts
begin

text \<open>
  Building the edges of a chain (nullnet-server, \<^verbatim>\<open>nullnet_grpc_impl.rs\<close>, \<^verbatim>\<open>setup_edge\<close> and
  \<^verbatim>\<open>run_net_chain_setup\<close>).  An edge is built by a task that holds the registry lock only in two
  passes: it claims the edge, waits for a resume and for the endpoints, and promotes its
  reservation.  Every pass is one function here; between them other tasks run.  Keys, pool
  generations and the answers of the endpoints are arguments.
\<close>

section \<open>Claiming an edge\<close>

datatype edge_target = Dependency | Fixed ip_addr "string option"

fun target_resolve :: "edge_target \<Rightarrow> registered \<Rightarrow> identity option" where
  "target_resolve (Fixed ip docker) reg = Some (ip, docker)"
| "target_resolve Dependency reg = map_option (\<lambda>r. (rp_ip r, rp_docker r)) (pick_replica_least_clients reg)"

text \<open>The outcomes of the locked pass: nothing to build on, a live edge whose hold was taken, an edge
  somebody else is building, or a reservation of our own with the replica to resume first.\<close>

datatype edge_claim =
    ClaimFailed
  | ClaimLive u32 identity
  | ClaimWait notify
  | ClaimReserved identity "uuid option" notify "u64 option"

definition reserve_edge ::
  "instant \<Rightarrow> client \<Rightarrow> ip_addr \<Rightarrow> bool \<Rightarrow> identity \<Rightarrow> registered \<Rightarrow> orch \<Rightarrow> (edge_claim \<times> registered \<times> orch) option" where
  "reserve_edge now c client_ethernet policy target reg st = (let
       carrier = (if policy then (case cl_proxy c of None \<Rightarrow> None | Some proxy_ip \<Rightarrow> group_carrier proxy_ip reg) else None);
       (token, st) = fresh st;
       info = reservation now token client_ethernet policy;
       info = (case carrier of Some k \<Rightarrow> set_group_carrier k info | None \<Rightarrow> info)
     in do {
       (landed, reg, st) \<leftarrow> add_client_to_replica (fst target) (snd target) c info reg st;
       if \<not> landed then Some (ClaimFailed, reg, st)
       else (let (res, st) = (case find (matches_identity (fst target) (snd target)) (rg_replicas reg) of
                 None \<Rightarrow> (None, st) | Some r \<Rightarrow> resume r st)
             in do {
               reservation \<leftarrow> pending_notify c reg;
               Some (ClaimReserved target res reservation carrier, reg, st)
             })
     })"

definition claim_registered ::
  "instant \<Rightarrow> client \<Rightarrow> ip_addr \<Rightarrow> edge_target \<Rightarrow> bool \<Rightarrow> registered \<Rightarrow> orch \<Rightarrow> (edge_claim \<times> registered \<times> orch) option" where
  "claim_registered now c client_ethernet target policy reg st = (case client_replica_live c reg of
       Some bound \<Rightarrow> (let reg = add_chain now c reg in do {
           net_id \<leftarrow> client_net_id c reg;
           Some (ClaimLive net_id bound, reg, st)
         })
     | None \<Rightarrow> (case pending_notify c reg of
           Some token \<Rightarrow> Some (ClaimWait token, reg, st)
         | None \<Rightarrow> (case target_resolve target reg of
               None \<Rightarrow> Some (ClaimFailed, reg, st)
             | Some t \<Rightarrow> reserve_edge now c client_ethernet policy t reg st)))"

definition claim_edge ::
  "instant \<Rightarrow> client \<Rightarrow> ip_addr \<Rightarrow> string \<Rightarrow> edge_target \<Rightarrow> bool \<Rightarrow> world \<Rightarrow> (edge_claim \<times> world) option" where
  "claim_edge now c client_ethernet server_name target policy w = (case hm_get (fst w) server_name of
       Some (Registered reg) \<Rightarrow> map_option (\<lambda>(r, reg', st'). (r, hm_insert server_name (Registered reg') (fst w), st'))
         (claim_registered now c client_ethernet target policy reg (snd w))
     | _ \<Rightarrow> Some (ClaimFailed, w))"

text \<open>The rollback of a reservation, by whoever made it.\<close>

definition rollback_edge :: "client \<Rightarrow> string \<Rightarrow> notify \<Rightarrow> world \<Rightarrow> world option" where
  "rollback_edge c server_name owner w = on_registered server_name (remove_pending_client_if c owner) w"

section \<open>Building and promoting\<close>

record edge_build =
  eb_net_id :: u32
  eb_group :: bool
  eb_carrier :: "u64 option"
  eb_server :: "(u32 \<times> msg_id) option"
  eb_client :: "(u32 \<times> msg_id) option"

definition edge_encrypted_group :: "client \<Rightarrow> u32 option \<Rightarrow> bool \<Rightarrow> orch \<Rightarrow> bool" where
  "edge_encrypted_group c entry_port egress st \<longleftrightarrow>
     o_encryption st \<and> o_net_type st = Vxlan \<and> cl_proxy c \<noteq> None \<and> entry_port = None \<and> \<not> egress"

definition edge_transport ::
  "key \<Rightarrow> bool \<Rightarrow> u32 \<Rightarrow> u64 option \<Rightarrow> ip_addr \<Rightarrow> ip_addr \<Rightarrow> orch \<Rightarrow> (group_transport option \<times> key \<times> u32 option) \<times> orch" where
  "edge_transport generated_key grp net_id carrier client_ethernet server_ethernet st =
     (if grp then (let (t, st) = new_group_transport generated_key net_id carrier st in ((Some t, gt_encryption_key t, None), st))
      else if o_encryption st \<and> o_net_type st = Vxlan \<and> client_ethernet \<noteq> server_ethernet
      then (let ((xfrm_id, k), st) = xfrm_transport generated_key client_ethernet server_ethernet st in ((None, k, Some xfrm_id), st))
      else ((None, if o_encryption st then generated_key else replicate 32 0, None), st))"

definition edge_build_start ::
  "key \<Rightarrow> client \<Rightarrow> ip_addr \<Rightarrow> string option \<Rightarrow> string \<Rightarrow> identity \<Rightarrow> u32 option \<Rightarrow> bool \<Rightarrow> u64 option \<Rightarrow> orch
   \<Rightarrow> edge_build option \<times> orch" where
  "edge_build_start generated_key c client_ethernet client_docker server_name server entry_port egress carrier st =
     (case allocate_net_id st of
        (None, st) \<Rightarrow> (None, emit (NetIdPoolExhausted server_name client_ethernet) st)
      | (Some net_id, st) \<Rightarrow> (let
          (server_ethernet, server_docker) = server;
          st = (if cl_proxy c \<noteq> None \<and> o_diag st then emit (SetupStarted net_id server_name client_ethernet) st else st);
          encrypted = o_encryption st;
          grp = edge_encrypted_group c entry_port egress st;
          ((transport, ekey, xfrm_id), st) = edge_transport generated_key grp net_id carrier client_ethernet server_ethernet st;
          (server_egress, client_egress) = (if egress then (Intercept, Steer) else (RoleNone, RoleNone));
          dockers = (client_docker, server_docker);
          (server_res, st) = send_net_setup_start server_ethernet None net_id client_ethernet dockers None ekey xfrm_id None
            encrypted server_egress (map_option (\<lambda>t. t\<lparr>gt_peer_container := client_docker \<noteq> None\<rparr>) transport) st;
          (client_res, st) = send_net_setup_start client_ethernet (Some server_name) net_id server_ethernet dockers entry_port ekey xfrm_id None
            encrypted client_egress (map_option (\<lambda>t. t\<lparr>gt_peer_container := server_docker \<noteq> None\<rparr>) transport) st
        in (Some \<lparr>eb_net_id = net_id, eb_group = grp, eb_carrier = map_option gt_carrier_id transport,
              eb_server = server_res, eb_client = client_res\<rparr>, st)))"

text \<open>The endpoints that are told to start, once both are set up.\<close>

definition edge_ready_dests :: "bool \<Rightarrow> ip_addr \<Rightarrow> ip_addr \<Rightarrow> u32 option \<Rightarrow> bool \<Rightarrow> orch \<Rightarrow> ip_addr list" where
  "edge_ready_dests grp server_ethernet client_ethernet entry_port egress st =
     (if grp then [server_ethernet, client_ethernet]
      else if o_net_type st = Vxlan \<and> (entry_port \<noteq> None \<or> egress) then [client_ethernet] else [])"

record pending_ingress =
  pi_setup_ms :: nat
  pi_client :: u32
  pi_server :: u32

datatype edge_outcome = EdgeFailed | EdgeSuccess u32 identity "pending_ingress option"

text \<open>Promotion puts the built edge in the place of the reservation that is still ours.\<close>

definition promoted_entry ::
  "instant \<Rightarrow> u64 \<Rightarrow> ip_addr \<Rightarrow> u32 \<times> u32 \<Rightarrow> u32 \<Rightarrow> nat \<Rightarrow> string option \<Rightarrow> bool \<Rightarrow> u64 option \<Rightarrow> client_info" where
  "promoted_entry now generation client_ethernet nets net_id setup_ms client_docker policy carrier = (let
       ci = with_pool_generation now client_ethernet (fst nets) (snd nets) net_id setup_ms client_docker generation;
       ci = (if policy then set_policy ci else ci)
     in case carrier of Some k \<Rightarrow> set_group_carrier k ci | None \<Rightarrow> ci)"

definition promote_registered ::
  "client \<Rightarrow> client_info \<Rightarrow> identity \<Rightarrow> notify \<Rightarrow> registered \<Rightarrow> orch \<Rightarrow> (bool \<times> registered \<times> orch) option" where
  "promote_registered c ci server owner reg st = (if pending_notify c reg = Some owner
     then add_client_to_replica (fst server) (snd server) c ci reg st else Some (False, reg, st))"

definition promote_edge :: "client \<Rightarrow> client_info \<Rightarrow> string \<Rightarrow> identity \<Rightarrow> notify \<Rightarrow> world \<Rightarrow> (bool \<times> world) option" where
  "promote_edge c ci server_name server owner w = (case hm_get (fst w) server_name of
       Some (Registered reg) \<Rightarrow> map_option (\<lambda>(ok, reg', st'). (ok, hm_insert server_name (Registered reg') (fst w), st'))
         (promote_registered c ci server owner reg (snd w))
     | _ \<Rightarrow> Some (False, w))"

text \<open>The end of \<^verbatim>\<open>setup_edge\<close>: \<^verbatim>\<open>ready\<close> is whether all endpoints answered, \<^verbatim>\<open>ci\<close> the entry to be promoted.\<close>

definition edge_finish ::
  "bool \<Rightarrow> client \<Rightarrow> client_info \<Rightarrow> string \<Rightarrow> identity \<Rightarrow> notify \<Rightarrow> bool \<Rightarrow> world \<Rightarrow> (edge_outcome \<times> world) option" where
  "edge_finish ready c ci server_name server owner grp w = (let
       net_id = ci_net_id ci; proxy = (cl_proxy c \<noteq> None);
       teardown = send_net_teardown_kind (ci_client_ip ci) (ci_docker_container ci) (fst server) (snd server) net_id grp
     in if \<not> ready then (let st = (if proxy then emit (SetupTimeout net_id server_name) (snd w) else snd w) in
          map_option (\<lambda>w. (EdgeFailed, w)) (rollback_edge c server_name owner (fst w, teardown st)))
        else (let st = (if proxy \<and> o_diag (snd w) then emit (SetupAck net_id server_name (ci_time_ms ci)) (snd w) else snd w) in do {
          (promoted, w) \<leftarrow> promote_edge c ci server_name server owner (fst w, st);
          if promoted
          then Some (EdgeSuccess net_id server (if proxy then Some \<lparr>pi_setup_ms = ci_time_ms ci, pi_client = ci_client_net ci,
                 pi_server = ci_server_net ci\<rparr> else None), w)
          else do {
            w \<leftarrow> rollback_edge c server_name owner w;
            Some (EdgeFailed, fst w, teardown (emit (EdgePromotionLost net_id server_name (fst server)) (snd w)))
          }
        }))"

section \<open>The end of a chain\<close>

record successful_edge =
  se_net_id :: u32
  se_client :: client
  se_server_name :: string
  se_ingress :: "pending_ingress option"

datatype chain_outcome = ChainFailed | OwnerLost | ChainBuilt "u32 option" "pending_backend_history option"

definition backend_history ::
  "(backend_key \<times> uuid) option \<Rightarrow> bool \<Rightarrow> successful_edge list \<Rightarrow> world \<Rightarrow> (pending_backend_history option \<times> orch) option" where
  "backend_history owner any_failure successful w = (case owner of
       None \<Rightarrow> Some (None, snd w)
     | Some (k, generation) \<Rightarrow> if any_failure then Some (None, snd w)
         else (let (name, ip, docker, _) = k; source = client_new_service name ip docker in do {
           first \<leftarrow> find (\<lambda>e. se_client e = source) successful;
           let setup_ms = (case hm_get (fst w) (se_server_name first) of
               Some (Registered reg) \<Rightarrow> map_option ci_time_ms (client_entry (se_client first) reg) | _ \<Rightarrow> None);
           Some (finish_backend_session k generation (se_net_id first) (se_server_name first) setup_ms (snd w))
         }))"

definition edge_owned :: "services \<Rightarrow> successful_edge \<Rightarrow> bool" where
  "edge_owned services e = (case hm_get services (se_server_name e) of
     Some (Registered reg) \<Rightarrow> client_replica_live (se_client e) reg \<noteq> None | _ \<Rightarrow> False)"

definition unwind_edge :: "successful_edge \<Rightarrow> registered \<Rightarrow> orch \<Rightarrow> (registered \<times> orch) option" where
  "unwind_edge e reg st = (if client_net_id (se_client e) reg = Some (se_net_id e)
     then decrement_chain (se_client e) reg st else Some (reg, st))"

definition unwind_chain :: "successful_edge list \<Rightarrow> world \<Rightarrow> world option" where
  "unwind_chain successful w = foldM (\<lambda>e. on_registered (se_server_name e) (unwind_edge e)) successful w"

definition open_ingress :: "string \<Rightarrow> successful_edge \<Rightarrow> orch \<Rightarrow> orch" where
  "open_ingress stack e st = (case (se_ingress e, cl_proxy (se_client e)) of
       (Some i, Some proxy_ip) \<Rightarrow> (let
           st = (if o_diag st then emit (SessionCreated (se_net_id e) (se_server_name e) proxy_ip) st else st)
         in history (OpenIngress stack (se_server_name e) (se_net_id e) (cl_name (se_client e)) (pi_client i) (pi_server i)
              proxy_ip (pi_setup_ms i)) st)
     | _ \<Rightarrow> st)"

definition chain_finish ::
  "string \<Rightarrow> (backend_key \<times> uuid) option \<Rightarrow> bool \<Rightarrow> successful_edge list \<Rightarrow> world \<Rightarrow> (chain_outcome \<times> world) option" where
  "chain_finish stack owner any_failure successful w = do {
     (hist, st) \<leftarrow> backend_history owner any_failure successful w;
     let lost = (owner \<noteq> None \<and> \<not> any_failure \<and> hist = None);
     let orphaned = (lost \<or> list_ex (\<lambda>e. cl_proxy (se_client e) \<noteq> None \<and> \<not> edge_owned (fst w) e) successful);
     if any_failure \<or> orphaned
     then map_option (\<lambda>w. (if orphaned \<and> \<not> any_failure then OwnerLost else ChainFailed, w)) (unwind_chain successful (fst w, st))
     else Some (ChainBuilt (find_map (\<lambda>e. map_option pi_server (se_ingress e)) successful) hist,
                fst w, fold (open_ingress stack) successful st)
   }"

end
