(* ===== verification/Fresh_Ids.thy ===== *)
theory Fresh_Ids
  imports Chain_Setup
begin

text \<open>
  Identities are never drawn twice: every operation on a registry and its orchestrator only moves
  the counter of fresh identities forward.
\<close>

definition later :: "(world \<Rightarrow> world option) \<Rightarrow> bool" where
  "later f \<longleftrightarrow> (\<forall>w w'. f w = Some w' \<longrightarrow> o_next (snd w) \<le> o_next (snd w'))"

named_theorems laters

lemma later_Some [laters]: "later Some"
  by (simp add: later_def)

lemma later_finish [laters]: "(\<And>w. o_next (snd w) \<le> o_next (g w)) \<Longrightarrow> later (\<lambda>w. Some (h w, g w))"
  by (simp add: later_def)

lemma later_state: "later f \<Longrightarrow> (\<And>w. o_next (snd w) \<le> o_next (g w)) \<Longrightarrow> later (\<lambda>w. f (fst w, g w))"
  unfolding later_def
proof (intro allI impI)
  fix w w'
  assume f: "\<forall>w w'. f w = Some w' \<longrightarrow> o_next (snd w) \<le> o_next (snd w')" and g: "\<And>w. o_next (snd w) \<le> o_next (g w)"
    and r: "f (fst w, g w) = Some w'"
  have "o_next (snd (fst w, g w)) \<le> o_next (snd w')" using f r by blast
  then show "o_next (snd w) \<le> o_next (snd w')" using g [of w] by simp
qed

lemma later_bind [laters]: "later f \<Longrightarrow> later g \<Longrightarrow> later (\<lambda>w. Option.bind (f w) g)"
  unfolding later_def
proof (intro allI impI)
  fix w w'
  assume f: "\<forall>w w'. f w = Some w' \<longrightarrow> o_next (snd w) \<le> o_next (snd w')"
    and g: "\<forall>w w'. g w = Some w' \<longrightarrow> o_next (snd w) \<le> o_next (snd w')" and r: "Option.bind (f w) g = Some w'"
  then obtain w1 where w1: "f w = Some w1" "g w1 = Some w'" by (cases "f w") auto
  have "o_next (snd w) \<le> o_next (snd w1)" "o_next (snd w1) \<le> o_next (snd w')" using f g w1 by blast+
  then show "o_next (snd w) \<le> o_next (snd w')" by simp
qed

lemma later_foldM [laters]: "(\<And>x. x \<in> set xs \<Longrightarrow> later (f x)) \<Longrightarrow> later (foldM f xs)"
  unfolding later_def
  by (intro allI impI, rule foldM_rel [where R = "\<lambda>w w'. o_next (snd w) \<le> o_next (snd w')"]) auto

lemma later_depends: "(\<And>w. later (f w)) \<Longrightarrow> later (\<lambda>w. f w w)"
  by (auto simp: later_def)

lemma later_ext: "later g \<Longrightarrow> (\<And>w. f w = g w) \<Longrightarrow> later f"
  by (simp add: later_def)

lemma later_if [laters]: "later f \<Longrightarrow> later g \<Longrightarrow> later (\<lambda>w. if b w then f w else g w)"
  by (simp add: later_def)

lemma later_registered [laters]:
  assumes "\<And>reg. later (f reg)" "later g"
  shows "later (\<lambda>w. case hm_get (fst w) n of None \<Rightarrow> g w
    | Some si \<Rightarrow> (case si of Unregistered _ \<Rightarrow> g w | Registered reg \<Rightarrow> f reg w))"
  using assms unfolding later_def by (auto split: option.splits service_info.splits)

lemma later_on_registered [laters]:
  assumes "\<And>reg st reg' st'. f reg st = Some (reg', st') \<Longrightarrow> o_next st \<le> o_next st'"
  shows "later (on_registered n f)"
  unfolding later_def on_registered_def using assms by (auto split: option.splits service_info.splits)

section \<open>The orchestrator\<close>

lemma fold_next: "(\<And>x st. o_next st \<le> o_next (f x st)) \<Longrightarrow> o_next st \<le> o_next (fold f xs st)"
  by (induction xs arbitrary: st) (auto intro: le_trans)

lemma next_simps [simp]: "o_next (emit e st) = o_next st" "o_next (history h st) = o_next st" "o_next (notify_waiters t st) = o_next st"
  "o_next (free_net_id i st) = o_next st" "o_next (spawn_deferred_net_id_free i acks st) = o_next st"
  by (simp_all add: emit_def history_def notify_waiters_def free_net_id_def spawn_deferred_net_id_free_def split: option.splits)

lemma teardown_endpoint_next: "o_next (fst acc) \<le> o_next (fst (teardown_endpoint i g e acc))"
  by (cases acc; cases e) (simp add: teardown_endpoint_def fresh_def Let_def split: option.splits)

lemma teardown_next: "o_next st \<le> o_next (send_net_teardown_kind cip cd sip sd i g st)"
proof -
  define a where "a = teardown_endpoint i g (cip, sip, ''c'', cd) (st, [])"
  define b where "b = teardown_endpoint i g (sip, cip, ''s'', sd) a"
  have "o_next st \<le> o_next (fst a)" using teardown_endpoint_next [of "(st, [])"] unfolding a_def by simp
  also have "\<dots> \<le> o_next (fst b)" unfolding b_def by (rule teardown_endpoint_next)
  finally show ?thesis by (simp add: send_net_teardown_kind_def case_prod_beta flip: a_def b_def)
qed

lemma decrement_replicas_next: "decrement_replicas c rs st = Some (rs', st') \<Longrightarrow> o_next st \<le> o_next st'"
proof (induction rs arbitrary: rs')
  case (Cons r rs)
  show ?case
  proof (cases "hm_get (cs_clients (rp_clients r)) c")
    case None
    then show ?thesis using Cons by auto
  next
    case (Some ci)
    show ?thesis
    proof (cases "is_pending ci \<or> ci_active_chains (remove_active_chains 1 ci) \<noteq> 0")
      case True
      then show ?thesis using Cons.prems Some by (auto simp: Let_def split: if_splits)
    next
      case False
      have "o_next st \<le> o_next (case x of None \<Rightarrow> st | Some ci \<Rightarrow> send_net_teardown_kind (ci_client_ip ci) (ci_docker_container ci)
          (rp_ip r) (rp_docker r) (ci_net_id ci) (ci_group_carrier ci \<noteq> None) st)" for x
        using teardown_next by (simp split: option.splits)
      then show ?thesis using Cons.prems Some False by (auto simp: Let_def split: if_splits bind_splits)
    qed
  qed
qed simp

lemma decrement_chain_next: "decrement_chain c reg st = Some (reg', st') \<Longrightarrow> o_next st \<le> o_next st'"
  by (auto simp: decrement_chain_def dest: decrement_replicas_next)

lemma close_networks_next: "o_next st \<le> o_next (close_networks n sv torn tds st)"
proof -
  obtain cl where "close_networks n sv torn tds st = fold (close_one n) cl st" using close_networks_once by blast
  moreover have "o_next st \<le> o_next (close_one n td st)" for td st
    by (cases td) (simp add: close_one_def Let_def teardown_next)
  ultimately show ?thesis using fold_next by metis
qed

lemma cancel_build_next [simp]: "o_next (snd (cancel_backend_build k st)) = o_next st"
  by (simp add: cancel_backend_build_def split: option.splits)

lemma forget_next: "o_next (forget_backend_sessions n ip docker ports st) = o_next st"
proof -
  have "o_next (fold (\<lambda>(_, _, h). history (CloseBackend h)) xs st) = o_next st" for xs :: "(backend_key \<times> string \<times> uuid option) list" and st
    by (induction xs arbitrary: st) auto
  then show ?thesis by (simp add: forget_backend_sessions_def case_prod_beta)
qed

section \<open>The registry\<close>

lemma later_decrement_edges [laters]: "later (decrement_edges es)"
  unfolding decrement_edges_def by (rule later_foldM) (auto intro!: later_on_registered decrement_chain_next)

lemma later_dep_chain [laters]: "later (teardown_dep_chain n ip docker)"
  unfolding teardown_dep_chain_def by (rule later_depends) (rule later_decrement_edges)

lemma later_remove_torn [laters]: "later (remove_torn_clients n tds)"
  unfolding remove_torn_clients_def by (rule later_on_registered) auto

lemma later_teardown_chain [laters]: "later (teardown_chain n f)"
  unfolding teardown_chain_def Let_def
proof (intro later_registered later_bind later_foldM later_remove_torn later_Some later_finish)
  show "o_next (snd w) \<le> o_next (close_networks n (fst w) [] tds (fold (\<lambda>(c, _, net_id, _). history (CloseIngress net_id n (cl_name c))) tds (snd w)))"
    for w :: world and tds :: "proxy_teardown list"
    by (rule le_trans [OF fold_next close_networks_next]) (simp add: case_prod_beta)
qed (auto intro: later_dep_chain)

lemma cancel_builds_next:
  assumes "foldM (\<lambda>port (edges, st).
           let (building, st) = cancel_backend_build (n, ip, docker, port) st
           in if building then Some (edges, st)
              else map_option (\<lambda>es. (edges @ es, st)) (g port)) ports (es, st) = Some (es', st')"
  shows "o_next st' = o_next st"
proof -
  have "o_next (snd acc') = o_next (snd acc)" if "(let (building, st) = cancel_backend_build (n, ip, docker, port) (snd acc)
           in if building then Some (fst acc, st) else map_option (\<lambda>es. (fst acc @ es, st)) (g port)) = Some acc'" for port acc acc'
    using that cancel_build_next [of "(n, ip, docker, port)" "snd acc"]
    by (cases "cancel_backend_build (n, ip, docker, port) (snd acc)") (auto split: if_splits)
  then show ?thesis
    using foldM_rel [of ports _ "\<lambda>a b. o_next (snd b) = o_next (snd a)", OF _ _ _ assms] by (simp add: case_prod_beta)
qed

lemma later_backend_chain [laters]: "later (teardown_backend_chain n ip docker through p)"
  unfolding later_def
proof (intro allI impI)
  fix w w' :: world
  let ?ports = "matching_trigger_ports n through p (fst w)"
  assume r: "teardown_backend_chain n ip docker through p w = Some w'"
  then obtain es st w1 where "foldM (\<lambda>port (edges, st).
           let (building, st) = cancel_backend_build (n, ip, docker, port) st
           in if building then Some (edges, st)
              else map_option (\<lambda>es. (edges @ es, st)) (collect_backend_chain_edges n ip docker through (Some port) (fst w)))
         ?ports ([], snd w) = Some (es, st)"
    and w1: "decrement_edges es (fst w, st) = Some w1" "snd w' = forget_backend_sessions n ip docker ?ports (snd w1)"
    by (auto simp: teardown_backend_chain_def Let_def split: bind_splits)
  from cancel_builds_next [OF this(1)] have "o_next st = o_next (snd w)" by simp
  moreover have "o_next (snd (fst w, st)) \<le> o_next (snd w1)" using later_decrement_edges w1(1) unfolding later_def by blast
  ultimately show "o_next (snd w) \<le> o_next (snd w')" by (simp add: w1(2) forget_next)
qed

lemma later_all_backend [laters]: "later (teardown_all_backend_chains_for n through)"
  unfolding teardown_all_backend_chains_for_def Let_def
  by (rule later_depends) (auto intro!: later_foldM later_backend_chain)

lemma later_partial [laters]: "later (teardown_partial_replicas n f)"
proof -
  have "later (\<lambda>w. case cl_replica c of None \<Rightarrow> Some w
      | Some (src_ip, src_docker) \<Rightarrow> Option.bind (teardown_chain (cl_name c) (OnReplica src_ip src_docker) w)
          (teardown_backend_chain (cl_name c) src_ip src_docker (Some n) None))" for c
    by (cases "cl_replica c") (auto intro!: later_bind later_teardown_chain later_backend_chain later_Some)
  then show ?thesis unfolding teardown_partial_replicas_def Let_def
    by (intro later_registered later_bind later_foldM later_teardown_chain later_Some)
qed

lemma later_unregister:
  "later (\<lambda>w. Some (case hm_get (fst w) n of None \<Rightarrow> w
     | Some si \<Rightarrow> (case si of Unregistered _ \<Rightarrow> w | Registered reg \<Rightarrow> if b then (hm_insert n (g reg) (fst w), snd w) else w)))"
  unfolding later_def by (auto split: option.splits service_info.splits)

lemma later_invalidated [laters]: "later (teardown_invalidated_service n b)"
  unfolding teardown_invalidated_service_def Let_def
  by (rule later_depends) (intro later_bind later_foldM later_teardown_chain later_all_backend later_unregister)

lemma later_modify [laters]: "later (\<lambda>w. Some (modify_service n f w))"
  by (simp add: later_def modify_service_def)

lemma later_replicas_removed [laters]: "later (replicas_removed stack n ip)"
  unfolding replicas_removed_def
  by (intro later_registered later_if later_bind later_foldM later_modify later_partial later_backend_chain
      later_state [OF later_invalidated]) simp

lemma later_replica_removed [laters]: "later (replica_removed n ip docker)"
  unfolding replica_removed_def Let_def
  by (intro later_if later_bind later_modify later_partial later_backend_chain later_invalidated)

lemma later_apply_change [laters]: "later (apply_change stack ch)"
proof -
  have diag: "later (\<lambda>w. f (emit_if_diag e w))" if "later f" for f e
    unfolding emit_if_diag_def by (rule later_state [OF that]) simp
  show ?thesis
  proof (cases ch)
    case (Removed n)
    have l: "later (\<lambda>w. Some (hm_remove n (fst w), snd w))" by (simp add: later_def)
    show ?thesis unfolding Removed
      by (rule later_ext [OF later_bind [OF diag [OF later_invalidated] l]]) simp
  next
    case (ReachabilityChanged n b)
    show ?thesis unfolding ReachabilityChanged
      by (rule later_ext [OF later_bind [OF later_state [OF later_teardown_chain,
            where g = "\<lambda>w. emit (ServiceReachabilityToggled n stack b) (snd w)"] later_all_backend]]) simp_all
  next
    case (ProxyDisconnected ip)
    have "later (\<lambda>w. foldM (\<lambda>n. teardown_chain n (ByIp ip)) (map fst (filter (\<lambda>(_, si). has_clients_of_proxy ip si) (fst w))) w)"
      by (rule later_depends) (intro later_foldM later_teardown_chain)
    then show ?thesis unfolding ProxyDisconnected by (rule later_ext) simp
  next
    case (ProxyClientTimedOut n c)
    show ?thesis unfolding ProxyClientTimedOut by (rule later_ext [OF diag [OF later_teardown_chain]]) simp
  qed (auto intro: later_ext [OF later_invalidated] later_ext [OF later_all_backend] later_ext [OF later_teardown_chain]
      later_ext [OF later_replicas_removed] later_ext [OF later_replica_removed])
qed

lemma later_apply_changes [laters]: "later (apply_changes chs loaded stack)"
proof -
  have "later (\<lambda>w. Some (case loaded of None \<Rightarrow> w | Some l \<Rightarrow> (g l w, snd w)))" for g
    by (cases loaded) (simp_all add: later_def)
  then show ?thesis unfolding apply_changes_def by (intro later_bind later_foldM later_apply_change)
qed

end
