(* ===== verification/Chain_Steps.thy ===== *)
theory Chain_Steps
  imports Fresh_Ids
begin

text \<open>
  Chain setups interleaved with everything else that changes a registry: claims, rollbacks,
  promotions, unwinds, registrations, connection reports and applied changes are steps of one
  relation, and the registry invariant, including that a client sits on one replica, holds in
  every state it reaches.
\<close>

section \<open>Where reservations are\<close>

definition pend_at :: "services \<Rightarrow> string \<Rightarrow> client \<Rightarrow> notify \<Rightarrow> replica \<Rightarrow> bool" where
  "pend_at sv n c t r \<longleftrightarrow> (\<exists>reg ci. hm_get sv n = Some (Registered reg) \<and> r \<in> set (rg_replicas reg) \<and>
     hm_get (entries_of r) c = Some ci \<and> ci_pending ci = Some t)"

definition pend_sub :: "services \<Rightarrow> services \<Rightarrow> bool" where
  "pend_sub sv sv' \<longleftrightarrow> (\<forall>n c t r'. pend_at sv' n c t r' \<longrightarrow> (\<exists>r. pend_at sv n c t r \<and> ident r = ident r'))"

lemma pend_sub_refl [simp]: "pend_sub sv sv"
  by (auto simp: pend_sub_def)

lemma pend_sub_trans: "pend_sub a b \<Longrightarrow> pend_sub b c \<Longrightarrow> pend_sub a c"
  unfolding pend_sub_def by metis

lemma less_pend_sub:
  assumes "less_services sv sv'"
  shows "pend_sub sv sv'"
  unfolding pend_sub_def
proof (intro allI impI)
  fix n c t r'
  assume "pend_at sv' n c t r'"
  then obtain reg' ci' where a: "hm_get sv' n = Some (Registered reg')" "r' \<in> set (rg_replicas reg')"
    "hm_get (entries_of r') c = Some ci'" "ci_pending ci' = Some t" by (auto simp: pend_at_def)
  obtain reg where reg: "hm_get sv n = Some (Registered reg)" "less_reg reg reg'" using less_services_getD [OF assms a(1)] by blast
  obtain r where r: "r \<in> set (rg_replicas reg)" "less_replica r r'" using less_regD [OF reg(2) a(2)] by blast
  then obtain ci where ci: "hm_get (entries_of r) c = Some ci" "less_entry ci ci'" using a(3) by (auto simp: less_replica_def)
  then have "pend_at sv n c t r" using reg(1) r(1) a(4) less_entry_fields [OF ci(2)] by (auto simp: pend_at_def)
  then show "\<exists>r. pend_at sv n c t r \<and> ident r = ident r'" using r(2) by (auto simp: less_replica_def)
qed

lemma pend_sub_insert:
  assumes "hm_get sv n = Some (Registered reg)"
    and "\<And>r' c ci' t. r' \<in> set (rg_replicas reg') \<Longrightarrow> hm_get (entries_of r') c = Some ci' \<Longrightarrow> ci_pending ci' = Some t \<Longrightarrow>
      \<exists>r \<in> set (rg_replicas reg). ident r = ident r' \<and> (\<exists>ci. hm_get (entries_of r) c = Some ci \<and> ci_pending ci = Some t)"
  shows "pend_sub sv (hm_insert n (Registered reg') sv)"
  unfolding pend_sub_def
proof (intro allI impI)
  fix n' c t r'
  assume "pend_at (hm_insert n (Registered reg') sv) n' c t r'"
  then show "\<exists>r. pend_at sv n' c t r \<and> ident r = ident r'"
  proof (cases "n' = n")
    case True
    then obtain ci' where "r' \<in> set (rg_replicas reg')" "hm_get (entries_of r') c = Some ci'" "ci_pending ci' = Some t"
      using \<open>pend_at _ _ _ _ _\<close> by (auto simp: pend_at_def)
    from assms(2) [OF this] show ?thesis using assms(1) True unfolding pend_at_def by blast
  next
    case False
    then have "pend_at sv n' c t r'" using \<open>pend_at _ _ _ _ _\<close> by (simp add: pend_at_def)
    then show ?thesis by blast
  qed
qed

lemma world_inv_insert:
  "world_inv sv \<Longrightarrow> reg_inv reg' \<Longrightarrow> sticky reg' \<Longrightarrow> world_inv (hm_insert n (Registered reg') sv)"
  by (auto simp: world_inv_def intro: services_inv_insert)

section \<open>Adding a client to a replica\<close>

definition placed :: "identity \<Rightarrow> client \<Rightarrow> client_info \<Rightarrow> replica \<Rightarrow> replica \<Rightarrow> bool" where
  "placed i c info r r' \<longleftrightarrow> ident r' = ident r \<and> (\<forall>c'. c' \<noteq> c \<longrightarrow> hm_get (entries_of r') c' = hm_get (entries_of r) c') \<and>
     (hm_get (entries_of r') c = hm_get (entries_of r) c \<or>
      ident r = i \<and> hm_get (entries_of r') c = Some (kept_counts (hm_get (entries_of r) c) info))"

lemma placed_refl [simp]: "placed i c info r r"
  by (simp add: placed_def)

lemma add_client_replicas_placed:
  assumes "reps_inv rs" "add_client_replicas (fst i) (snd i) c info rs st = Some (landed, rs', st')"
  shows "list_all2 (placed i c info) rs rs' \<and> o_next st' = o_next st \<and>
    (landed \<longrightarrow> (\<exists>r' \<in> set rs'. ident r' = i \<and> (\<exists>old. hm_get (entries_of r') c = Some (kept_counts old info))))"
  using assms
proof (induction rs arbitrary: rs')
  case (Cons r rs)
  have inv: "clients_inv (rp_clients r)" using Cons.prems by simp
  obtain cs' where cs': "add_client c info (rp_clients r) = Some (cs', cs_pending_notify c (rp_clients r))"
    "cs_clients cs' = hm_insert c (kept_counts (hm_get (entries_of r) c) info) (entries_of r)"
    using add_client_ok [OF inv] .
  show ?case
  proof (cases "matches_identity (fst i) (snd i) r")
    case True
    then have i: "ident r = i" by (auto simp: matches_identity_def)
    have "placed i c info r (r\<lparr>rp_clients := cs'\<rparr>)" using cs'(2) i by (simp add: placed_def)
    moreover have "rs' = r\<lparr>rp_clients := cs'\<rparr> # rs" "o_next st' = o_next st" using Cons.prems(2) True cs'(1) by auto
    ultimately show ?thesis using cs'(2) i by (auto simp: list_all2_refl)
  next
    case False
    then show ?thesis using Cons by auto
  qed
qed simp

lemma list_all2_placedD: "list_all2 R rs rs' \<Longrightarrow> r' \<in> set rs' \<Longrightarrow> \<exists>r \<in> set rs. R r r'"
  by (induction rule: list_all2_induct) auto

lemma add_client_to_replica_ok:
  assumes "reg_inv reg" "sticky reg" "\<forall>r \<in> set (rg_replicas reg). has_client c r \<longrightarrow> ident r = i"
  obtains landed reg' st' where "add_client_to_replica (fst i) (snd i) c info reg st = Some (landed, reg', st')" "reg_inv reg'" "sticky reg'"
    "list_all2 (placed i c info) (rg_replicas reg) (rg_replicas reg')" "o_next st' = o_next st" "rg_config reg' = rg_config reg"
    "landed \<longrightarrow> (\<exists>r' \<in> set (rg_replicas reg'). ident r' = i \<and> (\<exists>old. hm_get (entries_of r') c = Some (kept_counts old info)))"
    "landed \<longleftrightarrow> list_ex (matches_identity (fst i) (snd i)) (rg_replicas reg)"
proof -
  obtain landed rs' st' where a: "add_client_replicas (fst i) (snd i) c info (rg_replicas reg) st = Some (landed, rs', st')"
    "reps_inv rs'" "same_but c (rg_replicas reg) rs'" "landed \<longleftrightarrow> list_ex (matches_identity (fst i) (snd i)) (rg_replicas reg)"
    using add_client_replicas_ok [of "rg_replicas reg" "fst i" "snd i" c info st] assms(1) unfolding reg_inv_def by blast
  note p = add_client_replicas_placed [OF _ a(1)]
  have pl: "list_all2 (placed i c info) (rg_replicas reg) rs'" using p assms(1) by (simp add: reg_inv_def)
  let ?reg' = "reg\<lparr>rg_replicas := rs'\<rparr>"
  have inv': "reg_inv ?reg'" using assms(1) a(2) same_but_ident [OF a(3)] same_but_nonempty [OF a(3)] by (simp add: reg_inv_def)
  have "sticky ?reg'" unfolding sticky_def
  proof (intro ballI allI impI)
    fix r1 r2 c'
    assume r: "r1 \<in> set (rg_replicas ?reg')" "r2 \<in> set (rg_replicas ?reg')" "has_client c' r1 \<and> has_client c' r2"
    obtain s1 s2 where s: "s1 \<in> set (rg_replicas reg)" "placed i c info s1 r1" "s2 \<in> set (rg_replicas reg)" "placed i c info s2 r2"
      using list_all2_placedD [OF pl] r(1,2) by (simp, blast)
    show "ident r1 = ident r2"
    proof (cases "c' = c")
      case True
      have "ident s1 = i" "ident s2 = i" using s r(3) assms(3) True by (auto simp: placed_def has_client_def)
      then show ?thesis using s by (simp add: placed_def)
    next
      case False
      then have "has_client c' s1" "has_client c' s2" using s r(3) by (auto simp: placed_def has_client_def)
      then have "ident s1 = ident s2" using assms(2) s(1,3) unfolding sticky_def by blast
      then show ?thesis using s by (simp add: placed_def)
    qed
  qed
  moreover have "add_client_to_replica (fst i) (snd i) c info reg st = Some (landed, ?reg', st')"
    using a(1) by (simp add: add_client_to_replica_def)
  ultimately show thesis using that [of landed ?reg' st'] inv' pl p assms(1) a(4) by (simp add: reg_inv_def)
qed

section \<open>Claims\<close>

lemma pending_notify_Some: "pending_notify c reg = Some t \<Longrightarrow>
    \<exists>r \<in> set (rg_replicas reg). \<exists>ci. hm_get (entries_of r) c = Some ci \<and> ci_pending ci = Some t"
  by (auto simp: pending_notify_def cs_pending_notify_def bind_eq_Some_conv dest!: find_map_SomeD)

lemma pending_notify_None: "pending_notify c reg = None \<longleftrightarrow>
    (\<forall>r \<in> set (rg_replicas reg). \<forall>ci. hm_get (entries_of r) c = Some ci \<longrightarrow> ci_pending ci = None)"
proof -
  have "Option.bind x ci_pending = None \<longleftrightarrow> (\<forall>ci. x = Some ci \<longrightarrow> ci_pending ci = None)" for x :: "client_info option" by (cases x) auto
  then show ?thesis by (simp add: pending_notify_def cs_pending_notify_def)
qed

lemma client_replica_live_None: "client_replica_live c reg = None \<longleftrightarrow> (\<forall>r \<in> set (rg_replicas reg). \<not> live_at c r)"
  by (auto simp: client_replica_live_def find_None_iff has_live_client_iff)

lemma no_holder:
  assumes "client_replica_live c reg = None" "pending_notify c reg = None" "r \<in> set (rg_replicas reg)"
  shows "\<not> has_client c r"
  using assms by (auto simp: client_replica_live_None pending_notify_None live_at_def has_client_def is_pending_def)

lemma pending_unique:
  assumes "sticky reg" "pending_notify c reg = Some t" "r \<in> set (rg_replicas reg)" "has_client c r"
  obtains r' ci where "r' \<in> set (rg_replicas reg)" "hm_get (entries_of r') c = Some ci" "ci_pending ci = Some t" "ident r' = ident r"
proof -
  obtain r' ci where r': "r' \<in> set (rg_replicas reg)" "hm_get (entries_of r') c = Some ci" "ci_pending ci = Some t"
    using pending_notify_Some [OF assms(2)] by blast
  then have "has_client c r'" by (simp add: has_client_def)
  then have "ident r' = ident r" using assms(1,3,4) r'(1) unfolding sticky_def by blast
  then show thesis using that r' by blast
qed

lemma modify_client_rel:
  "list_all2 (\<lambda>r r'. ident r' = ident r \<and> (\<forall>c'. (c' \<noteq> c \<longrightarrow> hm_get (entries_of r') c' = hm_get (entries_of r) c')) \<and>
     (hm_get (entries_of r') c = hm_get (entries_of r) c \<or> hm_get (entries_of r') c = map_option f (hm_get (entries_of r) c)))
   (rg_replicas reg) (rg_replicas (modify_client c f reg))"
  unfolding modify_client_def by (simp, rule update_first_all2) (auto simp: cs_modify_def)

text \<open>An update of an entry that leaves its reservation and carrier alone.\<close>

lemma modify_client_steps:
  assumes "reg_inv reg" "sticky reg" "\<And>ci. ci_group_carrier (f ci) = ci_group_carrier ci" "\<And>ci. ci_pending (f ci) = ci_pending ci"
    and "hm_get sv n = Some (Registered reg)"
  shows "reg_inv (modify_client c f reg) \<and> sticky (modify_client c f reg) \<and> pend_sub sv (hm_insert n (Registered (modify_client c f reg)) sv)"
proof -
  note rel = list_all2_placedD [OF modify_client_rel [where c = c and reg = reg and f = f]]
  have "sticky (modify_client c f reg)" unfolding sticky_def
  proof (intro ballI allI impI)
    fix r1 r2 c'
    assume a: "r1 \<in> set (rg_replicas (modify_client c f reg))" "r2 \<in> set (rg_replicas (modify_client c f reg))" "has_client c' r1 \<and> has_client c' r2"
    obtain s1 where s1: "s1 \<in> set (rg_replicas reg)" "ident r1 = ident s1" "has_client c' s1"
      using rel [OF a(1)] a(3) by (cases "c' = c") (auto simp: has_client_def)
    obtain s2 where s2: "s2 \<in> set (rg_replicas reg)" "ident r2 = ident s2" "has_client c' s2"
      using rel [OF a(2)] a(3) by (cases "c' = c") (auto simp: has_client_def)
    show "ident r1 = ident r2" using assms(2) s1 s2 unfolding sticky_def by metis
  qed
  moreover have "pend_sub sv (hm_insert n (Registered (modify_client c f reg)) sv)"
  proof (rule pend_sub_insert [OF assms(5)])
    fix r' c' ci' t
    assume a: "r' \<in> set (rg_replicas (modify_client c f reg))" "hm_get (entries_of r') c' = Some ci'" "ci_pending ci' = Some t"
    obtain r where r: "r \<in> set (rg_replicas reg)" "ident r' = ident r" "c' \<noteq> c \<longrightarrow> hm_get (entries_of r') c' = hm_get (entries_of r) c'"
      "hm_get (entries_of r') c = hm_get (entries_of r) c \<or> hm_get (entries_of r') c = map_option f (hm_get (entries_of r) c)"
      using rel [OF a(1)] by blast
    have "\<exists>ci. hm_get (entries_of r) c' = Some ci \<and> ci_pending ci = Some t"
    proof (cases "c' = c")
      case True
      then show ?thesis using r(4) a(2,3) assms(4) by (cases "hm_get (entries_of r) c") auto
    next
      case False
      then show ?thesis using r(3) a(2,3) by metis
    qed
    then show "\<exists>r \<in> set (rg_replicas reg). ident r = ident r' \<and> (\<exists>ci. hm_get (entries_of r) c' = Some ci \<and> ci_pending ci = Some t)"
      using r(1,2) by auto
  qed
  ultimately show ?thesis using modify_client_inv [OF assms(1,3)] by blast
qed

lemma add_chain_net_id:
  assumes "client_replica_live c reg \<noteq> None"
  shows "client_net_id c (add_chain now c reg) \<noteq> None"
proof -
  obtain r where r: "r \<in> set (rg_replicas reg)" "live_at c r" using assms unfolding client_replica_live_None by auto
  then obtain ci where ci: "hm_get (entries_of r) c = Some ci" "\<not> is_pending ci" by (auto simp: live_at_def)
  obtain i where i: "i < length (rg_replicas reg)" "rg_replicas reg ! i = r" using r(1) by (auto simp: in_set_conv_nth)
  let ?r' = "rg_replicas (add_chain now c reg) ! i"
  have rel: "list_all2 (\<lambda>r r'. hm_get (entries_of r') c = hm_get (entries_of r) c \<or> hm_get (entries_of r') c = map_option (add_active_chain now) (hm_get (entries_of r) c))
      (rg_replicas reg) (rg_replicas (add_chain now c reg))"
    using modify_client_rel [where c = c and reg = reg and f = "add_active_chain now"] unfolding add_chain_def by (rule list_all2_mono) blast
  have "live_entry c ?r' \<noteq> None"
    using list_all2_nthD [OF rel i(1)] i(2) ci by (auto simp: live_entry_def is_pending_def add_active_chain_def ci_set_latest_now_def)
  moreover have "?r' \<in> set (rg_replicas (add_chain now c reg))" using list_all2_lengthD [OF rel] i(1) by simp
  ultimately have "find_map (live_entry c) (rg_replicas (add_chain now c reg)) \<noteq> None" unfolding find_map_None by metis
  then show ?thesis by (simp add: client_net_id_def client_entry_def)
qed

section \<open>The interleaving\<close>

record build =
  b_client :: client
  b_server :: string
  b_target :: identity
  b_token :: notify

definition steps_inv :: "world \<Rightarrow> build list \<Rightarrow> bool" where
  "steps_inv w bs \<longleftrightarrow> world_inv (fst w) \<and> (\<forall>n c t r. pend_at (fst w) n c t r \<longrightarrow> t < o_next (snd w)) \<and>
     (\<forall>b \<in> set bs. b_token b < o_next (snd w) \<and> (\<forall>r. pend_at (fst w) (b_server b) (b_client b) (b_token b) r \<longrightarrow> ident r = b_target b))"

lemma steps_inv_sub:
  assumes "steps_inv w bs" "world_inv (fst w')" "pend_sub (fst w) (fst w')" "o_next (snd w) \<le> o_next (snd w')" "set bs' \<subseteq> set bs"
  shows "steps_inv w' bs'"
  unfolding steps_inv_def
proof (intro conjI allI impI ballI)
  show "t < o_next (snd w')" if p: "pend_at (fst w') n c t r" for n c t r
  proof -
    obtain r0 where "pend_at (fst w) n c t r0" using assms(3) p unfolding pend_sub_def by blast
    then have "t < o_next (snd w)" using assms(1) unfolding steps_inv_def by blast
    then show ?thesis using assms(4) by simp
  qed
  show "b_token b < o_next (snd w')" if "b \<in> set bs'" for b
    using assms(1,4,5) that unfolding steps_inv_def by (meson in_mono order_less_le_trans)
  show "ident r = b_target b" if b: "b \<in> set bs'" and p: "pend_at (fst w') (b_server b) (b_client b) (b_token b) r" for b r
  proof -
    obtain r0 where r0: "pend_at (fst w) (b_server b) (b_client b) (b_token b) r0" "ident r0 = ident r"
      using assms(3) p unfolding pend_sub_def by blast
    have "b \<in> set bs" using assms(5) b by blast
    then have "ident r0 = b_target b" using assms(1) r0(1) unfolding steps_inv_def by blast
    then show ?thesis using r0(2) by simp
  qed
qed (rule assms(2))

lemma steps_inv_shrinks:
  assumes "steps_inv w bs" "shrinks f" "later f" "f w = Some w'" "set bs' \<subseteq> set bs"
  shows "steps_inv w' bs'"
proof -
  have inv: "world_inv (fst w)" using assms(1) by (simp add: steps_inv_def)
  obtain w'' where w'': "f w = Some w''" "world_inv (fst w'')" "less_services (fst w) (fst w'')" by (rule shrinksD [OF assms(2) inv])
  then have e: "w'' = w'" using assms(4) by simp
  have "o_next (snd w) \<le> o_next (snd w')" using assms(3,4) unfolding later_def by blast
  then show ?thesis using w''(2,3) unfolding e by (intro steps_inv_sub [OF assms(1) _ less_pend_sub _ assms(5)])
qed

lemma resume_next: "o_next st \<le> o_next (snd (resume r st))"
  by (simp add: resume_def fresh_def split: option.splits)

lemma kept_pending [simp]: "ci_pending (kept_counts old ci) = ci_pending ci"
  by (simp add: kept_counts_def split: option.splits)

definition claim_builds :: "client \<Rightarrow> string \<Rightarrow> edge_claim \<Rightarrow> build list" where
  "claim_builds c n r = (case r of ClaimReserved i _ t _ \<Rightarrow> [\<lparr>b_client = c, b_server = n, b_target = i, b_token = t\<rparr>] | _ \<Rightarrow> [])"

text \<open>A reservation lands on its target, under a token never used before.\<close>

lemma reserve_edge_ok:
  assumes "reg_inv reg" "sticky reg" "\<forall>r \<in> set (rg_replicas reg). \<not> has_client c r"
  obtains out reg' st' info where "reserve_edge now c ce policy i reg st = Some (out, reg', st')" "reg_inv reg'" "sticky reg'"
    "list_all2 (placed i c info) (rg_replicas reg) (rg_replicas reg')" "ci_pending info = Some (o_next st)" "o_next st < o_next st'"
    "out = ClaimFailed \<or> (\<exists>res k. out = ClaimReserved i res (o_next st) k)"
    "out = ClaimFailed \<longleftrightarrow> \<not> list_ex (matches_identity (fst i) (snd i)) (rg_replicas reg)" "rg_config reg' = rg_config reg"
proof -
  define carrier where "carrier = (if policy then (case cl_proxy c of None \<Rightarrow> None | Some proxy_ip \<Rightarrow> group_carrier proxy_ip reg) else None)"
  define info where "info = (case carrier of Some k \<Rightarrow> set_group_carrier k (reservation now (o_next st) ce policy) | None \<Rightarrow> reservation now (o_next st) ce policy)"
  define st0 where "st0 = st\<lparr>o_next := Suc (o_next st)\<rparr>"
  have pend: "ci_pending info = Some (o_next st)"
    by (simp add: info_def reservation_def set_group_carrier_def split: option.splits)
  have none: "\<forall>r \<in> set (rg_replicas reg). has_client c r \<longrightarrow> ident r = i" using assms(3) by blast
  obtain landed reg' st' where a: "add_client_to_replica (fst i) (snd i) c info reg st0 = Some (landed, reg', st')" "reg_inv reg'" "sticky reg'"
    "list_all2 (placed i c info) (rg_replicas reg) (rg_replicas reg')" "o_next st' = o_next st0" "rg_config reg' = rg_config reg"
    "landed \<longrightarrow> (\<exists>r' \<in> set (rg_replicas reg'). ident r' = i \<and> (\<exists>old. hm_get (entries_of r') c = Some (kept_counts old info)))"
    "landed \<longleftrightarrow> list_ex (matches_identity (fst i) (snd i)) (rg_replicas reg)"
    by (rule add_client_to_replica_ok [OF assms(1,2) none])
  have run: "reserve_edge now c ce policy i reg st = (if \<not> landed then Some (ClaimFailed, reg', st')
       else (let (res, st) = (case find (matches_identity (fst i) (snd i)) (rg_replicas reg') of
                 None \<Rightarrow> (None, st') | Some r \<Rightarrow> resume r st')
             in Option.bind (pending_notify c reg') (\<lambda>t. Some (ClaimReserved i res t carrier, reg', st))))"
    using a(1) by (simp add: reserve_edge_def carrier_def [symmetric] fresh_def info_def [symmetric] st0_def [symmetric] Let_def)
  show thesis
  proof (cases landed)
    case False
    then show thesis using that [of ClaimFailed reg' st' info] run a pend by (simp add: st0_def)
  next
    case True
    obtain r' old where r': "r' \<in> set (rg_replicas reg')" "hm_get (entries_of r') c = Some (kept_counts old info)" using a(7) True by blast
    then have "pending_notify c reg' \<noteq> None" using pend unfolding pending_notify_None by force
    then obtain t where t: "pending_notify c reg' = Some t" by blast
    obtain r2 ci2 where r2: "r2 \<in> set (rg_replicas reg')" "hm_get (entries_of r2) c = Some ci2" "ci_pending ci2 = Some t"
      using pending_notify_Some [OF t] by blast
    obtain r0 where "r0 \<in> set (rg_replicas reg)" "placed i c info r0 r2" using list_all2_placedD [OF a(4) r2(1)] by blast
    then have "t = o_next st" using assms(3) r2 pend by (auto simp: placed_def has_client_def)
    define p where "p = (case find (matches_identity (fst i) (snd i)) (rg_replicas reg') of None \<Rightarrow> (None, st') | Some r \<Rightarrow> resume r st')"
    have "o_next st' \<le> o_next (snd p)" using resume_next by (simp add: p_def split: option.splits)
    then show thesis
      using that [of "ClaimReserved i (fst p) t carrier" reg' "snd p" info] run True t a pend \<open>t = o_next st\<close>
      by (simp add: p_def [symmetric] case_prod_beta st0_def)
  qed
qed

lemma claim_reserved_pend:
  assumes "world_inv sv" "hm_get sv n = Some (Registered reg)" "list_all2 (placed i c info) (rg_replicas reg) (rg_replicas reg')"
    and "ci_pending info = Some t0" "pend_at (hm_insert n (Registered reg') sv) n' c' t r'"
  shows "(\<exists>r. pend_at sv n' c' t r \<and> ident r = ident r') \<or> (n' = n \<and> c' = c \<and> t = t0 \<and> ident r' = i)"
proof (cases "n' = n")
  case True
  then obtain ci' where a: "r' \<in> set (rg_replicas reg')" "hm_get (entries_of r') c' = Some ci'" "ci_pending ci' = Some t"
    using assms(5) by (auto simp: pend_at_def)
  obtain r where r: "r \<in> set (rg_replicas reg)" "placed i c info r r'" using list_all2_placedD [OF assms(3) a(1)] by blast
  show ?thesis
  proof (cases "hm_get (entries_of r') c' = hm_get (entries_of r) c'")
    case same: True
    then have "hm_get (entries_of r) c' = Some ci'" using a(2) by simp
    then have "pend_at sv n c' t r" using assms(2) r(1) a(3) by (auto simp: pend_at_def)
    then show ?thesis using True r(2) by (auto simp: placed_def)
  next
    case False
    then have "c' = c" "ident r = i" "hm_get (entries_of r') c = Some (kept_counts (hm_get (entries_of r) c) info)"
      using r(2) by (auto simp: placed_def)
    then show ?thesis using True a r(2) assms(4) by (auto simp: placed_def)
  qed
next
  case False
  then show ?thesis using assms(5) by (auto simp: pend_at_def)
qed

lemma steps_inv_reserve:
  assumes inv: "steps_inv w bs" and "hm_get (fst w) n = Some (Registered reg)" "reg_inv reg'" "sticky reg'"
    and "list_all2 (placed i c info) (rg_replicas reg) (rg_replicas reg')" "ci_pending info = Some (o_next (snd w))"
    and "o_next (snd w) < o_next st'" "out = ClaimFailed \<or> (\<exists>res k. out = ClaimReserved i res (o_next (snd w)) k)"
  shows "steps_inv (hm_insert n (Registered reg') (fst w), st') (claim_builds c n out @ bs)"
proof -
  have winv: "world_inv (fst w)" using inv by (simp add: steps_inv_def)
  let ?sv = "hm_insert n (Registered reg') (fst w)"
  have pend: "(\<exists>r. pend_at (fst w) n' c' t r \<and> ident r = ident r') \<or> (n' = n \<and> c' = c \<and> t = o_next (snd w) \<and> ident r' = i)"
    if "pend_at ?sv n' c' t r'" for n' c' t r'
    using claim_reserved_pend [OF winv assms(2) assms(5,6) that] .
  show ?thesis unfolding steps_inv_def fst_conv snd_conv
  proof (intro conjI allI impI ballI)
    show "world_inv ?sv" by (rule world_inv_insert [OF winv assms(3,4)])
    show "t < o_next st'" if "pend_at ?sv n' c' t r'" for n' c' t r'
      using pend [OF that] inv assms(7) unfolding steps_inv_def by (meson order_less_trans)
    show "b_token b < o_next st'" if "b \<in> set (claim_builds c n out @ bs)" for b
      using that assms(7,8) inv by (auto simp: claim_builds_def steps_inv_def)
    show "ident r' = b_target b" if b: "b \<in> set (claim_builds c n out @ bs)" and p: "pend_at ?sv (b_server b) (b_client b) (b_token b) r'" for b r'
    proof (cases "b \<in> set bs")
      case True
      then have "b_token b \<noteq> o_next (snd w)" using inv by (auto simp: steps_inv_def)
      then show ?thesis using pend [OF p] inv True unfolding steps_inv_def by metis
    next
      case False
      then have "b_target b = i" "b_token b = o_next (snd w)" using b assms(8) by (auto simp: claim_builds_def)
      moreover have "\<not> pend_at (fst w) (b_server b) (b_client b) (b_token b) r" for r
        using inv calculation(2) unfolding steps_inv_def by (metis less_irrefl)
      ultimately show ?thesis using pend [OF p] by blast
    qed
  qed
qed

lemma steps_inv_claim:
  assumes inv: "steps_inv w bs"
  shows "\<exists>out w'. claim_edge now c ce n target policy w = Some (out, w') \<and> steps_inv w' (claim_builds c n out @ bs) \<and>
    (\<forall>b \<in> set (claim_builds c n out). b_token b = o_next (snd w))"
proof (cases "\<exists>reg. hm_get (fst w) n = Some (Registered reg)")
  case False
  then have "claim_edge now c ce n target policy w = Some (ClaimFailed, w)"
    by (auto simp: claim_edge_def split: option.splits service_info.splits)
  then show ?thesis using inv by (simp add: claim_builds_def)
next
  case True
  then obtain reg where reg: "hm_get (fst w) n = Some (Registered reg)" by blast
  have winv: "world_inv (fst w)" using inv by (simp add: steps_inv_def)
  have ri: "reg_inv reg" "sticky reg" using world_inv_get [OF winv reg] by auto
  have same: "steps_inv (hm_insert n (Registered reg) (fst w), snd w) bs"
    by (rule steps_inv_sub [OF inv]) (use reg ri winv in \<open>auto intro: world_inv_insert pend_sub_insert\<close>)
  have run: "claim_edge now c ce n target policy w = map_option (\<lambda>(r, reg', st'). (r, hm_insert n (Registered reg') (fst w), st'))
         (claim_registered now c ce target policy reg (snd w))" using reg by (simp add: claim_edge_def)
  show ?thesis
  proof (cases "client_replica_live c reg")
    case (Some bound)
    obtain net where net: "client_net_id c (add_chain now c reg) = Some net" using add_chain_net_id [of c reg now] Some by auto
    have "reg_inv (add_chain now c reg) \<and> sticky (add_chain now c reg) \<and> pend_sub (fst w) (hm_insert n (Registered (add_chain now c reg)) (fst w))"
      unfolding add_chain_def by (rule modify_client_steps [OF ri _ _ reg]) (simp_all add: add_active_chain_def ci_set_latest_now_def)
    then have "steps_inv (hm_insert n (Registered (add_chain now c reg)) (fst w), snd w) bs"
      by (intro steps_inv_sub [OF inv]) (use winv in \<open>auto intro: world_inv_insert\<close>)
    then show ?thesis using run Some net by (simp add: claim_registered_def claim_builds_def)
  next
    case None
    show ?thesis
    proof (cases "pending_notify c reg = None \<and> target_resolve target reg \<noteq> None")
      case False
      define out where "out = (case pending_notify c reg of Some t \<Rightarrow> ClaimWait t | None \<Rightarrow> ClaimFailed)"
      have "claim_registered now c ce target policy reg (snd w) = Some (out, reg, snd w)"
        using None False by (cases "pending_notify c reg"; cases "target_resolve target reg") (simp_all add: claim_registered_def out_def)
      moreover have "claim_builds c n out = []" by (simp add: claim_builds_def out_def split: option.splits)
      ultimately show ?thesis using run same by simp
    next
      case True
      then obtain i where i: "target_resolve target reg = Some i" by blast
      have no: "\<forall>r \<in> set (rg_replicas reg). \<not> has_client c r" using no_holder None True by blast
      obtain out reg' st' info where r: "reserve_edge now c ce policy i reg (snd w) = Some (out, reg', st')" "reg_inv reg'" "sticky reg'"
        "list_all2 (placed i c info) (rg_replicas reg) (rg_replicas reg')" "ci_pending info = Some (o_next (snd w))" "o_next (snd w) < o_next st'"
        "out = ClaimFailed \<or> (\<exists>res k. out = ClaimReserved i res (o_next (snd w)) k)"
        by (rule reserve_edge_ok [OF ri no])
      have "steps_inv (hm_insert n (Registered reg') (fst w), st') (claim_builds c n out @ bs)"
        by (rule steps_inv_reserve [OF inv reg r(2-7)])
      moreover have "\<forall>b \<in> set (claim_builds c n out). b_token b = o_next (snd w)" using r(7) by (auto simp: claim_builds_def)
      moreover have "claim_registered now c ce target policy reg (snd w) = Some (out, reg', st')"
        using None True i r(1) by (simp add: claim_registered_def)
      ultimately show ?thesis using run by simp
    qed
  qed
qed

section \<open>Rollbacks, promotions and unwinds\<close>

lemma remove_pending_replicas_less:
  "reps_inv rs \<Longrightarrow> remove_pending_replicas c rs st = Some (rs', st') \<Longrightarrow> list_all2 less_replica rs rs' \<and> o_next st' = o_next st"
proof (induction rs arbitrary: rs')
  case (Cons r rs)
  have inv: "clients_inv (rp_clients r)" using Cons.prems by simp
  obtain cs' where cs': "remove_pending_client c (rp_clients r) = Some (cs', cs_pending_notify c (rp_clients r))"
    "cs_clients cs' = (if cs_pending_notify c (rp_clients r) = None then entries_of r else hm_remove c (entries_of r))"
    using remove_pending_client_ok [OF inv] .
  show ?case
  proof (cases "cs_pending_notify c (rp_clients r)")
    case None
    then show ?thesis using Cons cs' by auto
  next
    case (Some t)
    then obtain ci where "hm_get (entries_of r) c = Some ci" by (auto simp: cs_pending_notify_def bind_eq_Some_conv)
    then have "less_replica r (r\<lparr>rp_clients := cs'\<rparr>)" using less_replica_modify [OF inv] cs'(2) Some by simp
    then show ?thesis using Cons.prems cs' Some by (auto simp: list_all2_refl)
  qed
qed simp

lemma remove_pending_if_less:
  assumes "reg_inv reg"
  shows "\<exists>reg' st'. remove_pending_client_if c t reg st = Some (reg', st') \<and> reg_inv reg' \<and> less_reg reg reg' \<and> o_next st' = o_next st"
proof (cases "pending_notify c reg = Some t")
  case True
  obtain rs' st' where rs': "remove_pending_replicas c (rg_replicas reg) st = Some (rs', st')" "reps_inv rs'"
    using remove_pending_replicas_ok [of "rg_replicas reg" c st] assms unfolding reg_inv_def by blast
  then have l: "list_all2 less_replica (rg_replicas reg) rs'" "o_next st' = o_next st"
    using remove_pending_replicas_less [of "rg_replicas reg" c st rs' st'] assms by (auto simp: reg_inv_def)
  then have "reg_inv (reg\<lparr>rg_replicas := rs'\<rparr>)" using assms rs'(2) reg_inv_nth_eq [OF l(1)] by (auto simp: reg_inv_def)
  moreover have "less_reg reg (reg\<lparr>rg_replicas := rs'\<rparr>)" using list_all2_less_reg [OF l(1)] by (simp add: less_reg_def)
  ultimately show ?thesis using True rs'(1) l(2) by (simp add: remove_pending_client_if_def reg_remove_pending_client_def)
qed (use assms in \<open>simp add: remove_pending_client_if_def\<close>)

lemma shrinks_rollback: "shrinks (rollback_edge c n t)"
proof -
  have "shrinks (on_registered n (remove_pending_client_if c t))"
    by (rule shrinks_on_registered) (use remove_pending_if_less in blast)
  then show ?thesis by (rule shrinks_ext) (simp add: rollback_edge_def)
qed

lemma remove_pending_replicas_next: "remove_pending_replicas c rs st = Some (rs', st') \<Longrightarrow> o_next st \<le> o_next st'"
  by (induction rs arbitrary: rs') (auto split: option.splits)

lemma later_rollback: "later (rollback_edge c n t)"
proof -
  have "later (on_registered n (remove_pending_client_if c t))"
    by (rule later_on_registered)
      (auto simp: remove_pending_client_if_def reg_remove_pending_client_def dest: remove_pending_replicas_next split: if_splits)
  then show ?thesis by (rule later_ext) (simp add: rollback_edge_def)
qed

lemma steps_inv_state:
  "steps_inv w bs \<Longrightarrow> o_next (snd w) \<le> o_next st \<Longrightarrow> set bs' \<subseteq> set bs \<Longrightarrow> steps_inv (fst w, st) bs'"
  by (rule steps_inv_sub) (auto simp: steps_inv_def)

lemma steps_inv_rollback:
  assumes "steps_inv w bs" "set bs' \<subseteq> set bs"
  shows "\<exists>w'. rollback_edge c n t w = Some w' \<and> steps_inv w' bs'"
proof -
  have "world_inv (fst w)" using assms(1) by (simp add: steps_inv_def)
  then obtain w' where "rollback_edge c n t w = Some w'" by (rule shrinksD [OF shrinks_rollback])
  then show ?thesis using steps_inv_shrinks [OF assms(1) shrinks_rollback later_rollback _ assms(2)] by blast
qed

lemma promote_registered_ok:
  assumes "reg_inv reg" "sticky reg" "ci_pending ci = None"
    and "\<And>r ci. r \<in> set (rg_replicas reg) \<Longrightarrow> hm_get (entries_of r) c = Some ci \<Longrightarrow> ci_pending ci = Some t \<Longrightarrow> ident r = i"
  obtains ok reg' st' where "promote_registered c ci i t reg st = Some (ok, reg', st')" "reg_inv reg'" "sticky reg'" "o_next st' = o_next st"
    "\<forall>r' \<in> set (rg_replicas reg'). \<exists>r \<in> set (rg_replicas reg). placed i c ci r r'"
    "ok \<longrightarrow> (\<exists>r' \<in> set (rg_replicas reg'). ident r' = i \<and> (\<exists>old. hm_get (entries_of r') c = Some (kept_counts old ci)))"
    "rg_config reg' = rg_config reg"
proof (cases "pending_notify c reg = Some t")
  case True
  have "\<forall>r \<in> set (rg_replicas reg). has_client c r \<longrightarrow> ident r = i"
  proof (intro ballI impI)
    fix r
    assume r: "r \<in> set (rg_replicas reg)" "has_client c r"
    obtain r' ci' where "r' \<in> set (rg_replicas reg)" "hm_get (entries_of r') c = Some ci'" "ci_pending ci' = Some t" "ident r' = ident r"
      by (rule pending_unique [OF assms(2) True r])
    then show "ident r = i" using assms(4) by metis
  qed
  then obtain landed reg' st' where "add_client_to_replica (fst i) (snd i) c ci reg st = Some (landed, reg', st')" "reg_inv reg'" "sticky reg'"
    "list_all2 (placed i c ci) (rg_replicas reg) (rg_replicas reg')" "o_next st' = o_next st" "rg_config reg' = rg_config reg"
    "landed \<longrightarrow> (\<exists>r' \<in> set (rg_replicas reg'). ident r' = i \<and> (\<exists>old. hm_get (entries_of r') c = Some (kept_counts old ci)))"
    by (rule add_client_to_replica_ok [OF assms(1,2)])
  then show thesis using that [of landed reg' st'] True list_all2_placedD [of "placed i c ci"]
    by (simp add: promote_registered_def)
next
  case False
  have "\<forall>r' \<in> set (rg_replicas reg). \<exists>r \<in> set (rg_replicas reg). placed i c ci r r'" using placed_refl by blast
  then show thesis using that [of False reg st] assms(1,2) False by (simp add: promote_registered_def)
qed

lemma placed_pend:
  assumes "placed i c ci r r'" "ci_pending ci = None" "hm_get (entries_of r') c' = Some ci'" "ci_pending ci' = Some t"
  shows "ident r = ident r' \<and> (\<exists>ci0. hm_get (entries_of r) c' = Some ci0 \<and> ci_pending ci0 = Some t)"
proof (cases "hm_get (entries_of r') c' = hm_get (entries_of r) c'")
  case True
  then show ?thesis using assms(1,3,4) by (metis placed_def)
next
  case False
  then have "c' = c" "hm_get (entries_of r') c = Some (kept_counts (hm_get (entries_of r) c) ci)" using assms(1) by (auto simp: placed_def)
  then show ?thesis using assms(2,3,4) by auto
qed

text \<open>A promotion replaces a reservation on the replica it was made on, or does nothing.\<close>

lemma steps_inv_promote:
  assumes "steps_inv w bs" "b \<in> set bs" "ci_pending ci = None" "o_next (snd w) \<le> o_next st"
  obtains ok w' where "promote_edge (b_client b) ci (b_server b) (b_target b) (b_token b) (fst w, st) = Some (ok, w')" "steps_inv w' bs"
    "ok \<longrightarrow> (\<exists>reg r old. hm_get (fst w') (b_server b) = Some (Registered reg) \<and> r \<in> set (rg_replicas reg) \<and> ident r = b_target b \<and>
       hm_get (entries_of r) (b_client b) = Some (kept_counts old ci))"
    "o_next (snd w') = o_next st"
proof (cases "\<exists>reg. hm_get (fst w) (b_server b) = Some (Registered reg)")
  case False
  then have "promote_edge (b_client b) ci (b_server b) (b_target b) (b_token b) (fst w, st) = Some (False, fst w, st)"
    by (auto simp: promote_edge_def split: option.splits service_info.splits)
  then show thesis using that steps_inv_state [OF assms(1,4)] by auto
next
  case True
  then obtain reg where reg: "hm_get (fst w) (b_server b) = Some (Registered reg)" by blast
  have winv: "world_inv (fst w)" using assms(1) by (simp add: steps_inv_def)
  have ri: "reg_inv reg" "sticky reg" using world_inv_get [OF winv reg] by auto
  have t: "ident r = b_target b" if "r \<in> set (rg_replicas reg)" "hm_get (entries_of r) (b_client b) = Some ci'" "ci_pending ci' = Some (b_token b)" for r ci'
    using assms(1,2) reg that unfolding steps_inv_def pend_at_def by blast
  obtain ok reg' st' where p: "promote_registered (b_client b) ci (b_target b) (b_token b) reg st = Some (ok, reg', st')" "reg_inv reg'" "sticky reg'"
    "o_next st' = o_next st" "\<forall>r' \<in> set (rg_replicas reg'). \<exists>r \<in> set (rg_replicas reg). placed (b_target b) (b_client b) ci r r'"
    "ok \<longrightarrow> (\<exists>r' \<in> set (rg_replicas reg'). ident r' = b_target b \<and> (\<exists>old. hm_get (entries_of r') (b_client b) = Some (kept_counts old ci)))"
    by (rule promote_registered_ok [OF ri assms(3) t])
  let ?sv = "hm_insert (b_server b) (Registered reg') (fst w)"
  have "pend_sub (fst w) ?sv" using p(5) placed_pend [OF _ assms(3)] by (intro pend_sub_insert [OF reg]) blast
  then have "steps_inv (?sv, st') bs"
    using p(4) assms(4) world_inv_insert [OF winv p(2,3)] by (intro steps_inv_sub [OF assms(1)]) auto
  moreover have "promote_edge (b_client b) ci (b_server b) (b_target b) (b_token b) (fst w, st) = Some (ok, ?sv, st')"
    using reg p(1) by (simp add: promote_edge_def)
  ultimately show thesis using that [of ok "(?sv, st')"] p(4,6) by auto
qed

lemma steps_inv_finish:
  assumes "steps_inv w bs" "b \<in> set bs" "ci_pending ci = None" "set bs' \<subseteq> set bs"
  shows "\<exists>out w'. edge_finish ready (b_client b) ci (b_server b) (b_target b) (b_token b) grp w = Some (out, w') \<and> steps_inv w' bs'"
proof -
  define td where "td = send_net_teardown_kind (ci_client_ip ci) (ci_docker_container ci) (fst (b_target b)) (snd (b_target b)) (ci_net_id ci) grp"
  have td: "o_next st \<le> o_next (td st)" for st unfolding td_def by (rule teardown_next)
  show ?thesis
  proof (cases ready)
    case False
    define st where "st = (if cl_proxy (b_client b) \<noteq> None then emit (SetupTimeout (ci_net_id ci) (b_server b)) (snd w) else snd w)"
    have "o_next (snd w) \<le> o_next (td st)" using td [of st] by (simp add: st_def split: if_splits)
    then have "steps_inv (fst w, td st) bs" by (rule steps_inv_state [OF assms(1)]) simp
    then obtain w' where "rollback_edge (b_client b) (b_server b) (b_token b) (fst w, td st) = Some w'" "steps_inv w' bs'"
      using steps_inv_rollback assms(4) by blast
    then show ?thesis using False by (simp add: edge_finish_def Let_def st_def td_def [symmetric] cong: if_cong)
  next
    case True
    define st where "st = (if cl_proxy (b_client b) \<noteq> None \<and> o_diag (snd w) then emit (SetupAck (ci_net_id ci) (b_server b) (ci_time_ms ci)) (snd w) else snd w)"
    have "o_next (snd w) \<le> o_next st" by (simp add: st_def)
    then obtain ok w1 where w1: "promote_edge (b_client b) ci (b_server b) (b_target b) (b_token b) (fst w, st) = Some (ok, w1)" "steps_inv w1 bs"
      by (rule steps_inv_promote [OF assms(1-3)])
    have run: "edge_finish ready (b_client b) ci (b_server b) (b_target b) (b_token b) grp w = (if ok
        then Some (EdgeSuccess (ci_net_id ci) (b_target b) (if cl_proxy (b_client b) \<noteq> None
          then Some \<lparr>pi_setup_ms = ci_time_ms ci, pi_client = ci_client_net ci, pi_server = ci_server_net ci\<rparr> else None), w1)
        else map_option (\<lambda>w. (EdgeFailed, fst w, td (emit (EdgePromotionLost (ci_net_id ci) (b_server b) (fst (b_target b))) (snd w))))
          (rollback_edge (b_client b) (b_server b) (b_token b) w1))"
      unfolding edge_finish_def Let_def st_def [symmetric] td_def [symmetric] using True w1(1)
      by (cases "rollback_edge (b_client b) (b_server b) (b_token b) w1") (simp_all del: not_None_eq)
    obtain w2 where w2: "rollback_edge (b_client b) (b_server b) (b_token b) w1 = Some w2" "steps_inv w2 bs'"
      using steps_inv_rollback [OF w1(2) assms(4)] by blast
    show ?thesis
    proof (cases ok)
      case True
      then show ?thesis using run steps_inv_state [OF w1(2) order_refl assms(4)] by simp
    next
      case False
      let ?st = "td (emit (EdgePromotionLost (ci_net_id ci) (b_server b) (fst (b_target b))) (snd w2))"
      have "o_next (snd w2) \<le> o_next ?st" using td [of "emit (EdgePromotionLost (ci_net_id ci) (b_server b) (fst (b_target b))) (snd w2)"] by simp
      then show ?thesis using run False w2(1) steps_inv_state [OF w2(2) _ order_refl] by simp
    qed
  qed
qed

lemma unwind_edge_less:
  "reg_inv reg \<Longrightarrow> \<exists>reg' st'. unwind_edge e reg st = Some (reg', st') \<and> reg_inv reg' \<and> less_reg reg reg'"
  using decrement_chain_less by (auto simp: unwind_edge_def)

lemma shrinks_unwind: "shrinks (unwind_chain es)"
  unfolding unwind_chain_def by (intro shrinks_foldM shrinks_on_registered unwind_edge_less)

lemma later_unwind: "later (unwind_chain es)"
  unfolding unwind_chain_def
  by (intro later_foldM later_on_registered) (auto simp: unwind_edge_def dest: decrement_chain_next split: if_splits)

lemma backend_history_next: "backend_history owner f es w = Some (h, st) \<Longrightarrow> o_next st = o_next (snd w)"
  by (auto simp: backend_history_def finish_backend_session_def Let_def split: option.splits if_splits prod.splits bind_splits)

lemma open_ingress_next: "o_next (fold (open_ingress stack) es st) = o_next st"
  by (induction es arbitrary: st) (auto simp: open_ingress_def Let_def split: option.splits)

lemma steps_inv_chain:
  assumes "steps_inv w bs" "chain_finish stack owner f es w = Some (out, w')"
  shows "steps_inv w' bs"
proof -
  obtain h st where h: "backend_history owner f es w = Some (h, st)" using assms(2) by (auto simp: chain_finish_def split: bind_splits)
  have st: "steps_inv (fst w, st) bs" using backend_history_next [OF h] by (intro steps_inv_state [OF assms(1)]) simp_all
  consider "unwind_chain es (fst w, st) = Some w'" | "w' = (fst w, fold (open_ingress stack) es st)"
    using assms(2) h by (auto simp: chain_finish_def Let_def split: if_splits)
  then show ?thesis
  proof cases
    case 1
    then show ?thesis using steps_inv_shrinks [OF st shrinks_unwind later_unwind] by blast
  next
    case 2
    then show ?thesis using steps_inv_state [OF st, of "fold (open_ingress stack) es st" bs] by (simp add: open_ingress_next)
  qed
qed

end
