(* ===== verification/Chain_Reach.thy ===== *)
theory Chain_Reach
  imports Chain_Steps
begin

text \<open>
  Every interleaving of chain setups with registrations, connection reports, configuration
  reloads and applied changes: the step relation, its reachable states and what holds in them.
\<close>

section \<open>Registrations, reports and reloads\<close>

text \<open>Replacing a service by one whose replicas carry no clients but those already there.\<close>

definition keeps_entries :: "services \<Rightarrow> string \<Rightarrow> service_info \<Rightarrow> bool" where
  "keeps_entries sv n si \<longleftrightarrow> (\<forall>reg'. si = Registered reg' \<longrightarrow> (\<forall>r' \<in> set (rg_replicas reg'). entries_of r' = [] \<or>
     (\<exists>reg. hm_get sv n = Some (Registered reg) \<and> (\<exists>r \<in> set (rg_replicas reg). ident r = ident r' \<and> entries_of r = entries_of r'))))"

lemma keeps_entries_steps:
  assumes "world_inv sv" "si_inv si" "keeps_entries sv n si"
  shows "world_inv (hm_insert n si sv) \<and> pend_sub sv (hm_insert n si sv)"
proof -
  have old: "\<exists>reg r. hm_get sv n = Some (Registered reg) \<and> r \<in> set (rg_replicas reg) \<and> ident r = ident r' \<and> entries_of r = entries_of r'"
    if "si = Registered reg'" "r' \<in> set (rg_replicas reg')" "entries_of r' \<noteq> []" for reg' r'
    using assms(3) that unfolding keeps_entries_def by blast
  have "sticky reg'" if si: "si = Registered reg'" for reg' unfolding sticky_def
  proof (intro ballI allI impI)
    fix r1 r2 c
    assume a: "r1 \<in> set (rg_replicas reg')" "r2 \<in> set (rg_replicas reg')" "has_client c r1 \<and> has_client c r2"
    then have ne: "entries_of r1 \<noteq> []" "entries_of r2 \<noteq> []" by (auto simp: has_client_def)
    obtain reg s1 where s1: "hm_get sv n = Some (Registered reg)" "s1 \<in> set (rg_replicas reg)" "ident s1 = ident r1" "entries_of s1 = entries_of r1"
      using old [OF si a(1) ne(1)] by blast
    obtain s2 where s2: "s2 \<in> set (rg_replicas reg)" "ident s2 = ident r2" "entries_of s2 = entries_of r2"
      using old [OF si a(2) ne(2)] s1(1) by auto
    have "sticky reg" using world_inv_get [OF assms(1) s1(1)] by simp
    moreover have "has_client c s1 \<and> has_client c s2" using a(3) s1(4) s2(3) by (simp add: has_client_def)
    ultimately have "ident s1 = ident s2" using s1(2) s2(1) unfolding sticky_def by blast
    then show "ident r1 = ident r2" using s1(3) s2(2) by simp
  qed
  then have "world_inv (hm_insert n si sv)" using assms(1,2) by (auto simp: world_inv_def intro: services_inv_insert)
  moreover have "pend_sub sv (hm_insert n si sv)" unfolding pend_sub_def
  proof (intro allI impI)
    fix n' c t r'
    assume p: "pend_at (hm_insert n si sv) n' c t r'"
    show "\<exists>r. pend_at sv n' c t r \<and> ident r = ident r'"
    proof (cases "n' = n")
      case True
      then obtain reg' ci where a: "si = Registered reg'" "r' \<in> set (rg_replicas reg')" "hm_get (entries_of r') c = Some ci" "ci_pending ci = Some t"
        using p by (auto simp: pend_at_def)
      moreover have "entries_of r' \<noteq> []" using a(3) by auto
      ultimately obtain reg r where "hm_get sv n = Some (Registered reg)" "r \<in> set (rg_replicas reg)" "ident r = ident r'" "entries_of r = entries_of r'"
        using old by blast
      then show ?thesis using True a by (auto simp: pend_at_def)
    next
      case False
      then show ?thesis using p by (auto simp: pend_at_def)
    qed
  qed
  ultimately show ?thesis by simp
qed

lemma steps_inv_entries:
  assumes "steps_inv w bs" "si_inv si" "keeps_entries (fst w) n si" "o_next (snd w) \<le> o_next st"
  shows "steps_inv (hm_insert n si (fst w), st) bs"
  using assms keeps_entries_steps [of "fst w" si n] by (intro steps_inv_sub [OF assms(1)]) (auto simp: steps_inv_def)

lemma add_replica_keeps:
  assumes "hm_get sv n = Some si"
  shows "keeps_entries sv n (fst (add_replica ip port docker si st))"
proof (cases si)
  case (Unregistered c)
  then show ?thesis by (simp add: keeps_entries_def add_replica_def replica_new_def fresh_def clients_default_def)
next
  case (Registered reg)
  show ?thesis
  proof (cases "list_ex (matches_identity ip docker) (rg_replicas reg)")
    case True
    have u: "list_all2 (\<lambda>r r'. ident r = ident r' \<and> entries_of r = entries_of r') (rg_replicas reg)
        (update_first (matches_identity ip docker) (\<lambda>r. r\<lparr>rp_port := port\<rparr>) (rg_replicas reg))"
      by (rule update_first_all2) auto
    show ?thesis using Registered True assms list_all2_placedD [OF u] by (simp add: keeps_entries_def add_replica_def)
  next
    case False
    then show ?thesis using Registered assms
      by (auto simp: keeps_entries_def add_replica_def replica_new_def fresh_def clients_default_def)
  qed
qed

lemma add_replica_next: "o_next st \<le> o_next (snd (add_replica ip port docker si st))"
  by (auto simp: add_replica_def replica_new_def fresh_def split: service_info.splits)

lemma steps_inv_register:
  assumes "steps_inv w bs" "hm_get (fst w) n = Some si" "add_replica ip port docker si (snd w) = (si', st')"
  shows "steps_inv (hm_insert n si' (fst w), st') bs"
proof -
  have "si_inv si" using assms(1) hm_get_SomeD [OF assms(2)] by (auto simp: steps_inv_def world_inv_def services_inv_def)
  then show ?thesis using add_replica_inv [of si ip port docker "snd w"] add_replica_keeps [OF assms(2), of ip port docker "snd w"]
      add_replica_next [of "snd w" ip port docker si] assms by (intro steps_inv_entries) auto
qed

definition reload_entry :: "string \<times> service_info \<Rightarrow> services \<Rightarrow> services" where
  "reload_entry = (\<lambda>(name, loaded_info) services. (case hm_get services name of
      Some existing \<Rightarrow> hm_insert name (update_from_file loaded_info existing) services
    | None \<Rightarrow> hm_insert name loaded_info services))"

lemma steps_inv_reload:
  "config_loaded loaded \<Longrightarrow> steps_inv w bs \<Longrightarrow> steps_inv (fold reload_entry loaded (fst w), snd w) bs"
proof (induction loaded arbitrary: w)
  case (Cons x xs)
  obtain n c where x: "x = (n, Unregistered c)" using Cons.prems(1) by (cases x) (auto simp: config_loaded_def split: service_info.splits)
  define si where "si = (case hm_get (fst w) n of Some old \<Rightarrow> update_from_file (Unregistered c) old | None \<Rightarrow> Unregistered c)"
  have "si_inv si"
  proof (cases "hm_get (fst w) n")
    case (Some old)
    then have "si_inv old" using Cons.prems(2) hm_get_SomeD [OF Some] by (auto simp: steps_inv_def world_inv_def services_inv_def)
    then show ?thesis using Some update_from_file_inv by (simp add: si_def)
  qed (simp add: si_def)
  moreover have "keeps_entries (fst w) n si"
    by (auto simp: keeps_entries_def si_def update_from_file_def split: option.splits service_info.splits)
  ultimately have "steps_inv (hm_insert n si (fst w), snd w) bs" by (intro steps_inv_entries [OF Cons.prems(2)]) simp_all
  moreover have "reload_entry x (fst w) = hm_insert n si (fst w)"
    by (simp add: reload_entry_def x si_def split: option.splits)
  ultimately show ?case using Cons.IH [of "(hm_insert n si (fst w), snd w)"] Cons.prems(1) by (simp add: config_loaded_def)
qed (simp)

lemma steps_inv_apply:
  assumes "steps_inv w bs" "\<forall>l. loaded = Some l \<longrightarrow> config_loaded l" "apply_changes chs loaded stack w = Some w'"
  shows "steps_inv w' bs"
proof -
  obtain w1 where w1: "foldM (apply_change stack) chs w = Some w1" using assms(3) by (auto simp: apply_changes_def split: bind_splits)
  have inv: "steps_inv w1 bs"
    by (rule steps_inv_shrinks [OF assms(1) shrinks_foldM later_foldM w1]) (auto intro: shrinks_apply_change later_apply_change)
  show ?thesis
  proof (cases loaded)
    case None
    then show ?thesis using assms(3) w1 inv by (simp add: apply_changes_def)
  next
    case (Some l)
    then have "w' = (fold reload_entry l (fst w1), snd w1)" using assms(3) w1 by (simp add: apply_changes_def reload_entry_def)
    then show ?thesis using steps_inv_reload [OF _ inv] assms(2) Some by simp
  qed
qed

lemma steps_inv_touch:
  assumes "steps_inv w bs" "hm_get (fst w) n = Some (Registered reg)"
    and "\<And>ci. ci_group_carrier (f ci) = ci_group_carrier ci" "\<And>ci. ci_pending (f ci) = ci_pending ci"
  shows "steps_inv (hm_insert n (Registered (modify_client c f reg)) (fst w), snd w) bs"
proof -
  have winv: "world_inv (fst w)" using assms(1) by (simp add: steps_inv_def)
  have ri: "reg_inv reg" "sticky reg" using world_inv_get [OF winv assms(2)] by auto
  then show ?thesis using modify_client_steps [OF ri assms(3,4,2)] world_inv_insert [OF winv]
    by (intro steps_inv_sub [OF assms(1)]) auto
qed

section \<open>Interleavings\<close>

text \<open>What the tasks of the server do to a registry, one critical section at a time.  A builder that
  reserved an edge is in the list of builds until it finished or gave up; \<^verbatim>\<open>OrchTurn\<close> is anything that
  changes the orchestrator and not the registry, such as a stream, an acknowledgement, a
  teardown task or the messages of a build.\<close>

datatype ch_cmd =
    Claim instant client ip_addr string edge_target bool
  | Abort build
  | Finish bool client_info bool build
  | EndChain string "(backend_key \<times> uuid) option" bool "successful_edge list"
  | Apply "service_change list" "services option" string
  | Register string ip_addr u16 "string option"
  | Opened instant string client
  | Closed instant string client
  | Used instant string client
  | OrchTurn orch

type_synonym ch_state = "world \<times> build list"

definition on_service :: "string \<Rightarrow> (registered \<Rightarrow> registered) \<Rightarrow> world \<Rightarrow> world" where
  "on_service n f w = (case hm_get (fst w) n of
     Some (Registered reg) \<Rightarrow> (hm_insert n (Registered (f reg)) (fst w), snd w) | _ \<Rightarrow> w)"

fun ch_enabled :: "ch_cmd \<Rightarrow> ch_state \<Rightarrow> bool" where
  "ch_enabled (Abort b) (w, bs) \<longleftrightarrow> b \<in> set bs"
| "ch_enabled (Finish ready ci grp b) (w, bs) \<longleftrightarrow> b \<in> set bs \<and> ci_pending ci = None"
| "ch_enabled (EndChain stack owner failed es) (w, bs) \<longleftrightarrow>
     (case owner of Some ((name, ip, docker, _), _) \<Rightarrow> failed \<or> list_ex (\<lambda>e. se_client e = client_new_service name ip docker) es | None \<Rightarrow> True)"
| "ch_enabled (Apply chs loaded stack) (w, bs) \<longleftrightarrow> (case loaded of Some l \<Rightarrow> config_loaded l | None \<Rightarrow> True)"
| "ch_enabled (OrchTurn st) (w, bs) \<longleftrightarrow> o_next (snd w) \<le> o_next st"
| "ch_enabled _ _ \<longleftrightarrow> True"

fun ch_exec :: "ch_cmd \<Rightarrow> ch_state \<Rightarrow> ch_state option" where
  "ch_exec (Claim now c client_ethernet n target policy) (w, bs) =
     map_option (\<lambda>(out, w'). (w', claim_builds c n out @ bs)) (claim_edge now c client_ethernet n target policy w)"
| "ch_exec (Abort b) (w, bs) = map_option (\<lambda>w'. (w', remove1 b bs)) (rollback_edge (b_client b) (b_server b) (b_token b) w)"
| "ch_exec (Finish ready ci grp b) (w, bs) = map_option (\<lambda>(_, w'). (w', remove1 b bs))
     (edge_finish ready (b_client b) ci (b_server b) (b_target b) (b_token b) grp w)"
| "ch_exec (EndChain stack owner failed es) (w, bs) = map_option (\<lambda>(_, w'). (w', bs)) (chain_finish stack owner failed es w)"
| "ch_exec (Apply chs loaded stack) (w, bs) = map_option (\<lambda>w'. (w', bs)) (apply_changes chs loaded stack w)"
| "ch_exec (Register n ip port docker) (w, bs) = Some (case hm_get (fst w) n of
     Some si \<Rightarrow> (let (si', st') = add_replica ip port docker si (snd w) in ((hm_insert n si' (fst w), st'), bs)) | None \<Rightarrow> (w, bs))"
| "ch_exec (Opened now n c) (w, bs) = Some (on_service n (open_connection now c) w, bs)"
| "ch_exec (Closed now n c) (w, bs) = Some (on_service n (close_connection now c) w, bs)"
| "ch_exec (Used now n c) (w, bs) = Some (on_service n (set_latest_now now c) w, bs)"
| "ch_exec (OrchTurn st) (w, bs) = Some ((fst w, st), bs)"

inductive ch_reach :: "ch_state \<Rightarrow> bool" where
  Init: "config_loaded sv \<Longrightarrow> hm_inv sv \<Longrightarrow> ch_reach ((sv, st), [])"
| Step: "ch_reach s \<Longrightarrow> ch_enabled cmd s \<Longrightarrow> ch_exec cmd s = Some s' \<Longrightarrow> ch_reach s'"

text \<open>The invariant: tokens of builds are different, and each reservation sits where its builder put it.\<close>

definition ch_inv :: "ch_state \<Rightarrow> bool" where
  "ch_inv s \<longleftrightarrow> steps_inv (fst s) (snd s) \<and> distinct (map b_token (snd s))"

lemma distinct_tokens_remove1: "distinct (map b_token bs) \<Longrightarrow> distinct (map b_token (remove1 b bs))"
  by (induction bs) (auto dest: notin_set_remove1 in_set_remove1 [THEN iffD1, rotated] set_remove1_subset [THEN subsetD])

lemma apply_changes_total: "world_inv (fst w) \<Longrightarrow> \<exists>w'. apply_changes chs loaded stack w = Some w'"
proof -
  assume "world_inv (fst w)"
  then obtain w' where "foldM (apply_change stack) chs w = Some w'" by (rule shrinksD [OF shrinks_foldM [OF shrinks_apply_change]])
  then show ?thesis by (simp add: apply_changes_def)
qed

lemma chain_finish_total:
  assumes "world_inv (fst w)" "ch_enabled (EndChain stack owner failed es) (w, bs)"
  shows "\<exists>out w'. chain_finish stack owner failed es w = Some (out, w')"
proof -
  have "\<exists>h st. backend_history owner failed es w = Some (h, st)"
    using assms(2) by (cases owner) (auto simp: backend_history_def list_ex_iff Let_def find_None_iff2 find_None_iff
      split: prod.splits bind_splits)
  then obtain h st where h: "backend_history owner failed es w = Some (h, st)" by blast
  have "world_inv (fst (fst w, st))" using assms(1) by simp
  then obtain w' where "unwind_chain es (fst w, st) = Some w'" by (rule shrinksD [OF shrinks_unwind])
  then show ?thesis using h by (simp add: chain_finish_def Let_def)
qed

lemma steps_inv_on_service:
  assumes "steps_inv w bs" "\<And>ci. ci_group_carrier (f ci) = ci_group_carrier ci" "\<And>ci. ci_pending (f ci) = ci_pending ci"
  shows "steps_inv (on_service n (modify_client c f) w) bs"
  using assms steps_inv_touch [OF assms(1)] by (simp add: on_service_def split: option.splits service_info.splits)

lemma steps_inv_reports:
  assumes "steps_inv w bs"
  shows "steps_inv (on_service n (open_connection now c) w) bs" "steps_inv (on_service n (close_connection now c) w) bs"
    "steps_inv (on_service n (set_latest_now now c) w) bs"
proof -
  have "open_connection now c = modify_client c (ci_open_connection now)" "close_connection now c = modify_client c (ci_close_connection now)"
    "set_latest_now now c = modify_client c (ci_set_latest_now now)"
    by (simp_all add: fun_eq_iff open_connection_def close_connection_def set_latest_now_def)
  then show "steps_inv (on_service n (open_connection now c) w) bs" "steps_inv (on_service n (close_connection now c) w) bs"
    "steps_inv (on_service n (set_latest_now now c) w) bs"
    using steps_inv_on_service [OF assms] by (simp_all add: ci_open_connection_def ci_close_connection_def ci_set_latest_now_def)
qed

lemma steps_inv_init: "config_loaded sv \<Longrightarrow> hm_inv sv \<Longrightarrow> steps_inv (sv, st) []"
proof -
  assume c: "config_loaded sv" "hm_inv sv"
  have "hm_get sv n \<noteq> Some (Registered reg)" for n reg using c hm_get_SomeD [of sv n "Registered reg"] by (fastforce simp: config_loaded_def)
  moreover have "si_inv si" if "(n, si) \<in> set sv" for n si using c(1) that by (cases si) (auto simp: config_loaded_def)
  then have "services_inv sv" using c(2) by (auto simp: services_inv_def)
  ultimately show ?thesis by (auto simp: steps_inv_def world_inv_def pend_at_def)
qed

lemma ch_step_ok:
  assumes "ch_inv s" "ch_enabled cmd s"
  shows "\<exists>s'. ch_exec cmd s = Some s' \<and> ch_inv s'"
proof -
  obtain w bs where s: "s = (w, bs)" by (cases s)
  have inv: "steps_inv w bs" "distinct (map b_token bs)" using assms(1) by (auto simp: s ch_inv_def)
  have winv: "world_inv (fst w)" using inv(1) by (simp add: steps_inv_def)
  show ?thesis
  proof (cases cmd)
    case (Claim now c ce n target policy)
    obtain out w' where w': "claim_edge now c ce n target policy w = Some (out, w')" "steps_inv w' (claim_builds c n out @ bs)"
      "\<forall>b \<in> set (claim_builds c n out). b_token b = o_next (snd w)" using steps_inv_claim [OF inv(1)] by blast
    have "o_next (snd w) \<notin> set (map b_token bs)" using inv(1) by (auto simp: steps_inv_def)
    then have "distinct (map b_token (claim_builds c n out @ bs))" using w'(3) inv(2)
      by (cases out) (auto simp: claim_builds_def)
    then show ?thesis using Claim w' s by (simp add: ch_inv_def)
  next
    case (Abort b)
    obtain w' where "rollback_edge (b_client b) (b_server b) (b_token b) w = Some w'" "steps_inv w' (remove1 b bs)"
      using steps_inv_rollback [OF inv(1) set_remove1_subset] by blast
    then show ?thesis using Abort s inv(2) by (simp add: ch_inv_def distinct_tokens_remove1)
  next
    case (Finish ready ci grp b)
    then obtain out w' where "edge_finish ready (b_client b) ci (b_server b) (b_target b) (b_token b) grp w = Some (out, w')" "steps_inv w' (remove1 b bs)"
      using steps_inv_finish [OF inv(1) _ _ set_remove1_subset, of b ci] assms(2) s by fastforce
    then show ?thesis using Finish s inv(2) by (simp add: ch_inv_def distinct_tokens_remove1)
  next
    case (EndChain stack owner failed es)
    then obtain out w' where "chain_finish stack owner failed es w = Some (out, w')" using chain_finish_total [OF winv] assms(2) s by blast
    then show ?thesis using EndChain s inv(2) steps_inv_chain [OF inv(1)] by (simp add: ch_inv_def)
  next
    case (Apply chs loaded stack)
    obtain w' where w': "apply_changes chs loaded stack w = Some w'" using apply_changes_total [OF winv] by blast
    have "steps_inv w' bs" by (rule steps_inv_apply [OF inv(1) _ w']) (use Apply s assms(2) in auto)
    then show ?thesis using Apply s inv(2) w' by (simp add: ch_inv_def)
  next
    case (Register n ip port docker)
    then show ?thesis using s inv steps_inv_register [OF inv(1)] by (simp add: ch_inv_def split: option.splits prod.splits)
  next
    case (OrchTurn st)
    then show ?thesis using s inv assms(2) steps_inv_state [OF inv(1)] by (simp add: ch_inv_def)
  qed (use s inv steps_inv_reports in \<open>simp_all add: ch_inv_def\<close>)
qed

lemma ch_inv_reach: "ch_reach s \<Longrightarrow> ch_inv s"
proof (induction rule: ch_reach.induct)
  case (Init sv st)
  then show ?case using steps_inv_init by (simp add: ch_inv_def)
next
  case (Step s cmd s')
  then show ?case using ch_step_ok by fastforce
qed

section \<open>What holds in every interleaving\<close>

text \<open>Runs of commands reach their final state; a service with a replica, a client that reserved an
  edge to it, and a second reservation after the first was dropped with the replica.\<close>

fun ch_run :: "ch_cmd list \<Rightarrow> ch_state \<Rightarrow> ch_state option" where
  "ch_run [] s = Some s"
| "ch_run (cmd # cmds) s = (if ch_enabled cmd s then Option.bind (ch_exec cmd s) (ch_run cmds) else None)"

lemma ch_run_reach: "ch_reach s \<Longrightarrow> ch_run cmds s = Some s' \<Longrightarrow> ch_reach s'"
proof (induction cmds arbitrary: s)
  case (Cons cmd cmds)
  obtain s1 where s1: "ch_enabled cmd s" "ch_exec cmd s = Some s1" "ch_run cmds s1 = Some s'"
    using Cons.prems(2) by (auto simp del: split_paired_Ex split: if_splits bind_splits)
  then show ?case using Cons.IH [OF ch_reach.Step [OF Cons.prems(1)]] by blast
qed simp

definition ch_init :: ch_state where
  "ch_init = (([(''web'', Unregistered ex_config)], orch_new Vxlan False False []), [])"

definition ex_build :: "notify \<Rightarrow> build" where
  "ex_build t = \<lparr>b_client = ex_client ''u'', b_server = ''web'', b_target = (V4 9, None), b_token = t\<rparr>"

definition ch_claim :: "ch_cmd list" where
  "ch_claim = [Register ''web'' (V4 9) 80 None, Claim 0 (ex_client ''u'') ex_proxy ''web'' (Fixed (V4 9) None) False]"

definition reserved_by :: "services \<Rightarrow> notify option" where
  "reserved_by sv = (case hm_get sv ''web'' of Some (Registered reg) \<Rightarrow> pending_notify (ex_client ''u'') reg | _ \<Rightarrow> None)"

lemma reserved_by_pend: "reserved_by sv = Some t \<Longrightarrow> \<exists>r. pend_at sv ''web'' (ex_client ''u'') t r"
  using pending_notify_Some by (fastforce simp: reserved_by_def pend_at_def split: option.splits service_info.splits)

lemma ch_init_reach: "ch_run cmds ch_init = Some s \<Longrightarrow> ch_reach s"
proof (rule ch_run_reach)
  show "ch_reach ch_init" unfolding ch_init_def by (rule ch_reach.Init) (simp_all add: config_loaded_def hm_inv_def)
qed

text \<open>\<^bold>\<open>C2.\<close> In every state that any interleaving of claims, finished and abandoned builds, chain ends,
  applied changes, reloads, registrations and connection reports reaches, the registry is
  consistent: replicas are distinct, the carrier index of each is exact, and no client of a
  service sits on two of its replicas.\<close>

theorem registry_consistent:
  assumes "ch_reach (w, bs)"
  shows "world_inv (fst w)"
  using ch_inv_reach [OF assms] by (simp add: ch_inv_def steps_inv_def)

theorem registry_consistent_witness:
  "\<exists>w bs. ch_run (ch_claim @ [Finish True (ex_entry 101 0) False (ex_build 1)]) ch_init = Some (w, bs) \<and>
     edge_owned (fst w) \<lparr>se_net_id = 101, se_client = ex_client ''u'', se_server_name = ''web'', se_ingress = None\<rparr> \<and> world_inv (fst w)"
proof -
  have "map_option (\<lambda>(w, bs). edge_owned (fst w) \<lparr>se_net_id = 101, se_client = ex_client ''u'', se_server_name = ''web'', se_ingress = None\<rparr>)
      (ch_run (ch_claim @ [Finish True (ex_entry 101 0) False (ex_build 1)]) ch_init) = Some True" by code_simp
  then obtain w bs where w: "ch_run (ch_claim @ [Finish True (ex_entry 101 0) False (ex_build 1)]) ch_init = Some (w, bs)"
    "edge_owned (fst w) \<lparr>se_net_id = 101, se_client = ex_client ''u'', se_server_name = ''web'', se_ingress = None\<rparr>" by auto
  then show ?thesis using registry_consistent [OF ch_init_reach [OF w(1)]] by blast
qed



lemma holder_unique:
  assumes "reg_inv reg" "sticky reg" "r1 \<in> set (rg_replicas reg)" "r2 \<in> set (rg_replicas reg)" "has_client c r1" "has_client c r2"
  shows "r1 = r2"
proof -
  have "ident r1 = ident r2" using assms(2-6) unfolding sticky_def by blast
  moreover have "inj_on ident (set (rg_replicas reg))" using assms(1) by (simp add: reg_inv_def distinct_map)
  ultimately show ?thesis using assms(3,4) by (simp add: inj_on_def)
qed

lemma pend_at_unique:
  assumes "world_inv sv" "pend_at sv n c t r" "pend_at sv n c t' r'"
  shows "t = t'"
proof -
  obtain reg ci where a: "hm_get sv n = Some (Registered reg)" "r \<in> set (rg_replicas reg)" "hm_get (entries_of r) c = Some ci" "ci_pending ci = Some t"
    using assms(2) by (auto simp: pend_at_def)
  obtain ci' where b: "r' \<in> set (rg_replicas reg)" "hm_get (entries_of r') c = Some ci'" "ci_pending ci' = Some t'"
    using assms(3) a(1) by (auto simp: pend_at_def)
  have "reg_inv reg" "sticky reg" using world_inv_get [OF assms(1) a(1)] by auto
  then have "r = r'" using holder_unique [of reg r r' c] a b by (simp add: has_client_def)
  then show ?thesis using a b by simp
qed

text \<open>\<^bold>\<open>C12.\<close> At any time at most one build owns the reservation of an edge: two builds for the same
  client and service whose reservations are both in the registry are the same build.\<close>

theorem one_builder_per_edge:
  assumes "ch_reach (w, bs)" "b \<in> set bs" "b' \<in> set bs" "b_client b' = b_client b" "b_server b' = b_server b"
    and "pend_at (fst w) (b_server b) (b_client b) (b_token b) r" "pend_at (fst w) (b_server b) (b_client b) (b_token b') r'"
  shows "b = b'"
proof -
  have inv: "world_inv (fst w)" "distinct (map b_token bs)" using ch_inv_reach [OF assms(1)] by (auto simp: ch_inv_def steps_inv_def)
  have "b_token b = b_token b'" by (rule pend_at_unique [OF inv(1) assms(6,7)])
  then show ?thesis using inv(2) assms(2,3) by (simp add: distinct_map inj_on_def)
qed

theorem one_builder_per_edge_witness:
  "\<exists>w. ch_run (ch_claim @ Apply [ReplicasRemoved ''web'' (V4 9)] None ''s'' # ch_claim) ch_init = Some (w, [ex_build 3, ex_build 1]) \<and>
     (\<exists>r. pend_at (fst w) ''web'' (ex_client ''u'') 3 r) \<and>
     (\<forall>b \<in> {ex_build 3, ex_build 1}. (\<exists>r. pend_at (fst w) ''web'' (ex_client ''u'') (b_token b) r) \<longrightarrow> ex_build 3 = b)"
proof -
  let ?run = "ch_run (ch_claim @ Apply [ReplicasRemoved ''web'' (V4 9)] None ''s'' # ch_claim) ch_init"
  have "map_option (\<lambda>(w, bs). (reserved_by (fst w), bs)) ?run = Some (Some 3, [ex_build 3, ex_build 1])" by code_simp
  then obtain w where w: "?run = Some (w, [ex_build 3, ex_build 1])" "reserved_by (fst w) = Some 3" by auto
  obtain r where r: "pend_at (fst w) ''web'' (ex_client ''u'') 3 r" using reserved_by_pend [OF w(2)] by blast
  have "ex_build 3 = b" if "b \<in> {ex_build 3, ex_build 1}" "pend_at (fst w) ''web'' (ex_client ''u'') (b_token b) r'" for b r'
    using one_builder_per_edge [OF ch_init_reach [OF w(1)], of "ex_build 3" b r r'] that r by (auto simp: ex_build_def)
  then show ?thesis using w(1) r by blast
qed

end
