(* ===== verification/Net_Lifecycle.thy ===== *)
theory Net_Lifecycle
  imports Orchestrator
begin

text \<open>
  The life of a network identifier across the concurrent tasks of the server: handed out by the
  pool, held by an edge, torn down by a detached task that waits for both endpoints, and only
  then queued for reuse (nullnet-server, \<^verbatim>\<open>orchestrator.rs\<close>, \<^verbatim>\<open>spawn_deferred_net_id_free\<close> and its
  callers).  Every await point of the task is one atomic step, so the steps of different tasks,
  acknowledgements, connects and disconnects interleave freely.
\<close>

section \<open>The teardown task\<close>

text \<open>One step of the \<^verbatim>\<open>k\<close>-th detached task; \<^const>\<open>None\<close> when it is blocked on an endpoint that
  has neither acknowledged nor disconnected.\<close>

definition task_turn :: "nat \<Rightarrow> orch \<Rightarrow> orch option" where
  "task_turn k st = (if k < length (o_tasks st) then
     (let t = o_tasks st ! k in case td_unsent t of
        (dest, mid, ch, m) # rest \<Rightarrow> (case stream_send ch m st of
            (False, st) \<Rightarrow> Some (st\<lparr>o_pending := removeAll mid (o_pending st),
               o_tasks := (o_tasks st)[k := t\<lparr>td_unsent := rest\<rparr>]\<rparr>)
          | (True, st) \<Rightarrow> Some (st\<lparr>o_tasks := (o_tasks st)[k := t\<lparr>td_unsent := rest,
               td_sent := td_sent t @ [(dest, mid, ch)]\<rparr>]\<rparr>))
      | [] \<Rightarrow> (case td_sent t of
          (dest, mid, ch) # rest \<Rightarrow> (if mid \<in> set (o_acked st) \<or> ch \<in> set (o_closed st)
            then Some (st\<lparr>o_pending := removeAll mid (o_pending st),
               o_tasks := (o_tasks st)[k := t\<lparr>td_sent := rest\<rparr>]\<rparr>)
            else None)
        | [] \<Rightarrow> (let st = free_net_id (td_net_id t) st in
            Some (st\<lparr>o_inflight := o_inflight st - 1,
               o_tasks := take k (o_tasks st) @ drop (Suc k) (o_tasks st)\<rparr>))))
   else None)"

text \<open>The deadline of a blocked task: an operator warning and nothing else.\<close>

definition task_deadline :: "nat \<Rightarrow> orch \<Rightarrow> orch" where
  "task_deadline k st = (if k < length (o_tasks st) then
     (let t = o_tasks st ! k in case (td_unsent t, td_sent t) of
        ([], (dest, _, _) # _) \<Rightarrow> emit (NetTeardownUnconfirmed (td_net_id t) dest) st
      | _ \<Rightarrow> st)
   else st)"

section \<open>The interleaving\<close>

text \<open>
  A state is the orchestrator and the identifiers that live edges hold.  Releasing an identifier
  takes it from its holder, either directly (it was never sent to an endpoint) or by a teardown.
\<close>

inductive lc_step :: "orch \<times> u32 list \<Rightarrow> orch \<times> u32 list \<Rightarrow> bool" where
  Connect: "orch_add_client ip ch st = Some st' \<Longrightarrow> lc_step (st, h) (st', h)"
| Disconnect: "lc_step (st, h) (orch_remove_client ip st, h)"
| Close: "lc_step (st, h) (st\<lparr>o_closed := ch # o_closed st\<rparr>, h)"
| Ack: "lc_step (st, h) (inbound_ack mid st, h)"
| Allocate: "allocate_net_id st = (Some i, st') \<Longrightarrow> lc_step (st, h) (st', i # h)"
| Exhausted: "allocate_net_id st = (None, st') \<Longrightarrow> lc_step (st, h) (st', h)"
| Release: "i \<in> set h \<Longrightarrow> lc_step (st, h) (free_net_id i st, removeAll i h)"
| Teardown: "i \<in> set h \<Longrightarrow>
    lc_step (st, h) (send_net_teardown_kind client cdocker server sdocker i grp st, removeAll i h)"
| Task: "task_turn k st = Some st' \<Longrightarrow> lc_step (st, h) (st', h)"
| Deadline: "lc_step (st, h) (task_deadline k st, h)"

inductive lc_reach :: "net \<Rightarrow> orch \<times> u32 list \<Rightarrow> bool" for ty where
  Init: "lc_reach ty (orch_new ty encryption diag epoch, [])"
| Step: "lc_reach ty s \<Longrightarrow> lc_step s s' \<Longrightarrow> lc_reach ty s'"

section \<open>The invariant\<close>

fun teardown_of :: "net_message \<Rightarrow> (u32 \<times> msg_id) option" where
  "teardown_of (VlanTeardown net_id mid) = Some (net_id, mid)"
| "teardown_of (VxlanTeardown m) = Some (xt_vxlan_id m, xt_msg_id m)"
| "teardown_of _ = None"

lemma teardown_of_message [simp]:
  "teardown_of (teardown_message ty net_id side docker lip rip port mid grp) = Some (net_id, mid)"
  by (cases ty) (simp_all add: teardown_message_def)

text \<open>A teardown that reached a stream is acknowledged, or its stream is closed, or its task is
  still waiting for it.\<close>

definition confirmed :: "orch \<Rightarrow> chan \<Rightarrow> msg_id \<Rightarrow> bool" where
  "confirmed st ch mid \<longleftrightarrow> mid \<in> set (o_acked st) \<or> ch \<in> set (o_closed st)"

definition awaited :: "orch \<Rightarrow> u32 \<Rightarrow> chan \<Rightarrow> msg_id \<Rightarrow> bool" where
  "awaited st i ch mid \<longleftrightarrow> (\<exists>t \<in> set (o_tasks st). td_net_id t = i \<and> (\<exists>d. (d, mid, ch) \<in> set (td_sent t)))"

definition log_inv :: "orch \<Rightarrow> bool" where
  "log_inv st \<longleftrightarrow> (\<forall>ch m i mid. (ch, m) \<in> set (o_sent st) \<longrightarrow> teardown_of m = Some (i, mid) \<longrightarrow>
     confirmed st ch mid \<or> awaited st i ch mid)"

definition tasks_inv :: "orch \<Rightarrow> bool" where
  "tasks_inv st \<longleftrightarrow> (\<forall>t \<in> set (o_tasks st). \<forall>d mid ch m. (d, mid, ch, m) \<in> set (td_unsent t) \<longrightarrow>
     teardown_of m = Some (td_net_id t, mid))"

definition ids_inv :: "orch \<times> u32 list \<Rightarrow> bool" where
  "ids_inv s \<longleftrightarrow> pool_inv (o_net_type (fst s)) (o_pool (fst s)) \<and>
     distinct (snd s @ map td_net_id (o_tasks (fst s))) \<and>
     set (snd s @ map td_net_id (o_tasks (fst s))) = in_use (o_pool (fst s)) \<and>
     o_inflight (fst s) = length (o_tasks (fst s))"

definition lc_inv :: "orch \<times> u32 list \<Rightarrow> bool" where
  "lc_inv s \<longleftrightarrow> ids_inv s \<and> tasks_inv (fst s) \<and> log_inv (fst s)"

lemmas lc_defs = lc_inv_def ids_inv_def tasks_inv_def log_inv_def confirmed_def awaited_def

lemma lc_inv_new: "lc_inv (orch_new ty encryption diag epoch, [])"
  by (simp add: lc_defs orch_new_def)

subsection \<open>Steps that leave tasks and pool alone\<close>

lemma lc_inv_frame:
  assumes "lc_inv (st, h)"
    and "o_net_type st' = o_net_type st" "o_pool st' = o_pool st" "o_tasks st' = o_tasks st"
      "o_inflight st' = o_inflight st"
    and "set (o_acked st) \<subseteq> set (o_acked st')" "set (o_closed st) \<subseteq> set (o_closed st')"
    and "\<And>ch m. (ch, m) \<in> set (o_sent st') \<Longrightarrow> (ch, m) \<in> set (o_sent st) \<or> teardown_of m = None"
  shows "lc_inv (st', h)"
proof -
  have "log_inv st'" unfolding log_inv_def
  proof (intro allI impI)
    fix ch m i mid
    assume "(ch, m) \<in> set (o_sent st')" and t: "teardown_of m = Some (i, mid)"
    then have "(ch, m) \<in> set (o_sent st)" using assms(8) by fastforce
    then have "confirmed st ch mid \<or> awaited st i ch mid"
      using assms(1) t by (auto simp: lc_inv_def log_inv_def)
    then show "confirmed st' ch mid \<or> awaited st' i ch mid"
      using assms(4,6,7) by (auto simp: confirmed_def awaited_def)
  qed
  then show ?thesis using assms(1-5) by (simp add: lc_inv_def ids_inv_def tasks_inv_def)
qed

lemma lc_inv_connect: "lc_inv (st, h) \<Longrightarrow> orch_add_client ip ch st = Some st' \<Longrightarrow> lc_inv (st', h)"
  by (erule lc_inv_frame)
    (auto simp: orch_add_client_def stream_send_def policy_heartbeat_def emit_def Let_def split: if_splits)

lemma lc_inv_disconnect: "lc_inv (st, h) \<Longrightarrow> lc_inv (orch_remove_client ip st, h)"
  by (erule lc_inv_frame) (auto simp: orch_remove_client_def)

lemma lc_inv_close: "lc_inv (st, h) \<Longrightarrow> lc_inv (st\<lparr>o_closed := ch # o_closed st\<rparr>, h)"
  by (erule lc_inv_frame) auto

lemma lc_inv_ack: "lc_inv (st, h) \<Longrightarrow> lc_inv (inbound_ack mid st, h)"
  by (erule lc_inv_frame) (auto simp: inbound_ack_def split: if_splits)

lemma lc_inv_deadline: "lc_inv (st, h) \<Longrightarrow> lc_inv (task_deadline k st, h)"
  by (erule lc_inv_frame) (auto simp: task_deadline_def emit_def Let_def split: if_splits list.splits)

subsection \<open>Allocation and release\<close>

lemma log_inv_pool: "log_inv (st\<lparr>o_pool := p\<rparr>) = log_inv st"
  by (simp add: log_inv_def confirmed_def awaited_def)

lemma lc_inv_allocate:
  assumes "allocate_net_id st = (Some i, st')" "lc_inv (st, h)"
  shows "lc_inv (st', i # h)"
proof -
  obtain p' where a: "allocate (o_net_type st) (o_pool st) = (Some i, p')" "st' = st\<lparr>o_pool := p'\<rparr>"
    using assms(1) by (auto simp: allocate_net_id_def split: prod.splits)
  have inv: "pool_inv (o_net_type st) (o_pool st)" using assms(2) by (simp add: lc_inv_def ids_inv_def)
  note u = allocate_in_use [OF inv a(1)]
  have "pool_inv (o_net_type st) p'" using pool_inv_allocate [OF inv] a(1) by simp
  then have "ids_inv (st', i # h)" using assms(2) u a(2) by (auto simp: lc_inv_def ids_inv_def)
  then show ?thesis using assms(2) a(2) by (simp add: lc_inv_def tasks_inv_def log_inv_pool)
qed

lemma lc_inv_exhausted:
  assumes "allocate_net_id st = (None, st')" "lc_inv (st, h)"
  shows "lc_inv (st', h)"
proof -
  have inv: "pool_inv (o_net_type st) (o_pool st)" using assms(2) by (simp add: lc_inv_def ids_inv_def)
  have "st' = st" using assms(1) allocate_None [OF inv]
    by (auto simp: allocate_net_id_def split: prod.splits)
  then show ?thesis using assms(2) by simp
qed

lemma ids_inv_freed:
  assumes "pool_inv ty p" "distinct (i # l)" "set (i # l) = in_use p"
  shows "pool_inv ty (free ty i p) \<and> distinct l \<and> set l = in_use (free ty i p)"
proof -
  have "i \<in> in_use p" using assms(3) by auto
  then have "i < next_fresh p" by (simp add: in_use_def)
  then show ?thesis using assms free_in_use [OF assms(1)] by auto
qed

lemma lc_inv_release: "i \<in> set h \<Longrightarrow> lc_inv (st, h) \<Longrightarrow> lc_inv (free_net_id i st, removeAll i h)"
proof -
  assume i: "i \<in> set h" and inv: "lc_inv (st, h)"
  have d: "distinct (i # removeAll i h @ map td_net_id (o_tasks st))"
    "set (i # removeAll i h @ map td_net_id (o_tasks st)) = in_use (o_pool st)"
    using i inv by (auto simp: lc_inv_def ids_inv_def distinct_removeAll)
  have "pool_inv (o_net_type st) (o_pool st)" using inv by (simp add: lc_inv_def ids_inv_def)
  note f = ids_inv_freed [OF this d]
  have "distinct (removeAll i h @ map td_net_id (o_tasks st))" using f by blast
  then have "ids_inv (free_net_id i st, removeAll i h)"
    using f inv by (simp add: lc_inv_def ids_inv_def free_net_id_def)
  then show ?thesis using inv by (simp add: lc_inv_def tasks_inv_def free_net_id_def log_inv_pool)
qed

subsection \<open>Teardown\<close>

text \<open>What \<^verbatim>\<open>send_net_teardown_kind\<close> does to the parts of the state the invariant speaks about.\<close>

definition same_core :: "orch \<Rightarrow> orch \<Rightarrow> bool" where
  "same_core st st' \<longleftrightarrow> o_net_type st' = o_net_type st \<and> o_pool st' = o_pool st \<and> o_tasks st' = o_tasks st \<and>
     o_inflight st' = o_inflight st \<and> o_acked st' = o_acked st \<and> o_closed st' = o_closed st \<and>
     o_sent st' = o_sent st \<and> o_clients st' = o_clients st"

lemma teardown_endpoint_core:
  assumes "teardown_endpoint i grp e (st, acks) = (st', acks')"
    and "\<forall>(d, mid, ch, m) \<in> set acks. teardown_of m = Some (i, mid)"
  shows "same_core st st' \<and> (\<forall>(d, mid, ch, m) \<in> set acks'. teardown_of m = Some (i, mid)) \<and>
    length acks' = length acks + (if hm_get (o_clients st) (fst e) = None then 0 else 1)"
  using assms
  by (cases e) (auto simp: teardown_endpoint_def same_core_def fresh_def Let_def split: option.splits)

lemma send_net_teardown_kind_core:
  obtains st1 acks where "same_core st st1" "\<forall>(d, mid, ch, m) \<in> set acks. teardown_of m = Some (i, mid)"
    "acks = [] \<longleftrightarrow> hm_get (o_clients st) c = None \<and> hm_get (o_clients st) s = None"
    "send_net_teardown_kind c cd s sd i grp st =
       (if acks = [] then free_net_id i st1 else spawn_deferred_net_id_free i acks st1)"
proof -
  obtain st1 a1 where 1: "teardown_endpoint i grp (c, s, ''c'', cd) (st, []) = (st1, a1)" by force
  obtain st2 a2 where 2: "teardown_endpoint i grp (s, c, ''s'', sd) (st1, a1) = (st2, a2)" by force
  have r1: "same_core st st1 \<and> (\<forall>(d, mid, ch, m) \<in> set a1. teardown_of m = Some (i, mid)) \<and>
      length a1 = (if hm_get (o_clients st) c = None then 0 else 1)"
    using teardown_endpoint_core [OF 1] by simp
  then have r2: "same_core st1 st2 \<and> (\<forall>(d, mid, ch, m) \<in> set a2. teardown_of m = Some (i, mid)) \<and>
      length a2 = length a1 + (if hm_get (o_clients st1) s = None then 0 else 1)"
    using teardown_endpoint_core [OF 2] by simp
  have "a2 = [] \<longleftrightarrow> length a2 = 0" by simp
  then have "a2 = [] \<longleftrightarrow> hm_get (o_clients st) c = None \<and> hm_get (o_clients st) s = None"
    using r1 r2 by (auto simp: same_core_def split: if_splits)
  moreover have "same_core st st2" using r1 r2 by (simp add: same_core_def)
  moreover have "send_net_teardown_kind c cd s sd i grp st =
       (if a2 = [] then free_net_id i st2 else spawn_deferred_net_id_free i a2 st2)"
    using 1 2 by (simp add: send_net_teardown_kind_def)
  ultimately show ?thesis using that r2 by blast
qed

lemma lc_inv_same_core: "lc_inv (st, h) \<Longrightarrow> same_core st st' \<Longrightarrow> lc_inv (st', h)"
  by (erule lc_inv_frame) (auto simp: same_core_def)

lemma log_inv_tasks:
  assumes "log_inv st" "set (o_sent st') \<subseteq> set (o_sent st) \<union> new" "o_acked st' = o_acked st" "o_closed st' = o_closed st"
    and "\<And>i ch mid. awaited st i ch mid \<Longrightarrow> awaited st' i ch mid \<or> confirmed st' ch mid"
    and "\<And>ch m i mid. (ch, m) \<in> new \<Longrightarrow> teardown_of m = Some (i, mid) \<Longrightarrow> awaited st' i ch mid"
  shows "log_inv st'"
  unfolding log_inv_def
proof (intro allI impI)
  fix ch m i mid
  assume m: "(ch, m) \<in> set (o_sent st')" and t: "teardown_of m = Some (i, mid)"
  show "confirmed st' ch mid \<or> awaited st' i ch mid"
  proof (cases "(ch, m) \<in> new")
    case True
    then show ?thesis using assms(6) t by blast
  next
    case False
    then have "confirmed st ch mid \<or> awaited st i ch mid"
      using assms(1,2) m t by (auto simp: log_inv_def)
    then show ?thesis using assms(3-5) by (auto simp: confirmed_def)
  qed
qed

lemma lc_inv_spawn:
  assumes i: "i \<in> set h" and inv: "lc_inv (st, h)"
    and acks: "\<forall>(d, mid, ch, m) \<in> set acks. teardown_of m = Some (i, mid)"
  shows "lc_inv (spawn_deferred_net_id_free i acks st, removeAll i h)"
proof -
  let ?st = "spawn_deferred_net_id_free i acks st"
  have "ids_inv (?st, removeAll i h)"
    using i inv by (auto simp: lc_inv_def ids_inv_def spawn_deferred_net_id_free_def distinct_removeAll)
  moreover have "tasks_inv ?st"
    using inv acks by (auto simp: lc_inv_def tasks_inv_def spawn_deferred_net_id_free_def)
  moreover have "log_inv ?st"
    by (rule log_inv_tasks [of st _ "{}"])
      (use inv in \<open>auto simp: lc_inv_def awaited_def spawn_deferred_net_id_free_def\<close>)
  ultimately show ?thesis by (simp add: lc_inv_def)
qed

lemma lc_inv_teardown:
  assumes i: "i \<in> set h" and inv: "lc_inv (st, h)"
  shows "lc_inv (send_net_teardown_kind c cd s sd i grp st, removeAll i h)"
proof -
  obtain st1 acks where r: "same_core st st1" "\<forall>(d, mid, ch, m) \<in> set acks. teardown_of m = Some (i, mid)"
    "acks = [] \<longleftrightarrow> hm_get (o_clients st) c = None \<and> hm_get (o_clients st) s = None"
    "send_net_teardown_kind c cd s sd i grp st =
       (if acks = [] then free_net_id i st1 else spawn_deferred_net_id_free i acks st1)"
    by (rule send_net_teardown_kind_core)
  have inv1: "lc_inv (st1, h)" by (rule lc_inv_same_core [OF inv r(1)])
  show ?thesis unfolding r(4) using lc_inv_release [OF i inv1] lc_inv_spawn [OF i inv1 r(2)] by (cases acks) simp_all
qed

subsection \<open>Turns of the teardown task\<close>

lemma task_turn_cases:
  assumes "task_turn k st = Some st'"
  obtains (Refused) dest mid ch m rest where "k < length (o_tasks st)"
      "td_unsent (o_tasks st ! k) = (dest, mid, ch, m) # rest" "ch \<in> set (o_closed st)"
      "st' = st\<lparr>o_pending := removeAll mid (o_pending st),
         o_tasks := (o_tasks st)[k := (o_tasks st ! k)\<lparr>td_unsent := rest\<rparr>]\<rparr>"
  | (Sent) dest mid ch m rest where "k < length (o_tasks st)"
      "td_unsent (o_tasks st ! k) = (dest, mid, ch, m) # rest" "ch \<notin> set (o_closed st)"
      "st' = st\<lparr>o_sent := o_sent st @ [(ch, m)], o_tasks := (o_tasks st)[k := (o_tasks st ! k)\<lparr>td_unsent := rest,
         td_sent := td_sent (o_tasks st ! k) @ [(dest, mid, ch)]\<rparr>]\<rparr>"
  | (Confirmed) dest mid ch rest where "k < length (o_tasks st)"
      "td_unsent (o_tasks st ! k) = []" "td_sent (o_tasks st ! k) = (dest, mid, ch) # rest" "confirmed st ch mid"
      "st' = st\<lparr>o_pending := removeAll mid (o_pending st),
         o_tasks := (o_tasks st)[k := (o_tasks st ! k)\<lparr>td_sent := rest\<rparr>]\<rparr>"
  | (Finished) "k < length (o_tasks st)" "td_unsent (o_tasks st ! k) = []" "td_sent (o_tasks st ! k) = []"
      "st' = (free_net_id (td_net_id (o_tasks st ! k)) st)\<lparr>o_inflight := o_inflight st - 1,
         o_tasks := take k (o_tasks st) @ drop (Suc k) (o_tasks st)\<rparr>"
proof -
  have k: "k < length (o_tasks st)" using assms by (simp add: task_turn_def split: if_splits)
  show ?thesis
  proof (cases "td_unsent (o_tasks st ! k)")
    case (Cons e rest)
    obtain dest mid ch m where e: "e = (dest, mid, ch, m)" by (metis prod_cases4)
    show ?thesis using Cons assms k that(1,2)
      by (cases "ch \<in> set (o_closed st)") (auto simp: task_turn_def e stream_send_def Let_def)
  next
    case Nil
    show ?thesis
    proof (cases "td_sent (o_tasks st ! k)")
      case (Cons e rest)
      obtain dest mid ch where e: "e = (dest, mid, ch)" by (metis prod_cases3)
      show ?thesis using Nil Cons assms k that(3)
        by (auto simp: task_turn_def e confirmed_def Let_def split: if_splits)
    next
      case Nil2: Nil
      then show ?thesis using Nil assms k that(4) by (simp add: task_turn_def Let_def free_net_id_def)
    qed
  qed
qed

lemma map_td_update:
  "k < length ts \<Longrightarrow> td_net_id t = td_net_id (ts ! k) \<Longrightarrow> map td_net_id (ts[k := t]) = map td_net_id ts"
  by (simp add: map_update) (metis list_update_id nth_map)

lemma awaited_update:
  assumes "o_tasks st' = (o_tasks st)[k := t']" "k < length (o_tasks st)" "td_net_id t' = td_net_id (o_tasks st ! k)"
    and "\<And>d mid ch. (d, mid, ch) \<in> set (td_sent (o_tasks st ! k)) \<Longrightarrow> (d, mid, ch) \<in> set (td_sent t') \<or> confirmed st' ch mid"
    and "awaited st i ch mid"
  shows "awaited st' i ch mid \<or> confirmed st' ch mid"
proof -
  obtain t d where t: "t \<in> set (o_tasks st)" "td_net_id t = i" "(d, mid, ch) \<in> set (td_sent t)"
    using assms(5) by (auto simp: awaited_def)
  then obtain j where j: "j < length (o_tasks st)" "td_net_id (o_tasks st ! j) = i" "(d, mid, ch) \<in> set (td_sent (o_tasks st ! j))"
    by (metis in_set_conv_nth)
  have mem: "(o_tasks st') ! j \<in> set (o_tasks st')" using j(1) assms(1) by simp
  show ?thesis
  proof (cases "j = k")
    case True
    then have "o_tasks st' ! j = t'" using assms(1,2) by simp
    then show ?thesis using mem assms(3) assms(4) [of d mid ch] j True by (auto simp: awaited_def)
  next
    case False
    then have "o_tasks st' ! j = o_tasks st ! j" using assms(1) by simp
    then show ?thesis using mem j by (auto simp: awaited_def)
  qed
qed

lemma lc_inv_task_update:
  assumes inv: "lc_inv (st, h)" and k: "k < length (o_tasks st)"
    and t': "td_net_id t' = td_net_id (o_tasks st ! k)" "set (td_unsent t') \<subseteq> set (td_unsent (o_tasks st ! k))"
    and st': "o_net_type st' = o_net_type st" "o_pool st' = o_pool st" "o_inflight st' = o_inflight st"
      "o_acked st' = o_acked st" "o_closed st' = o_closed st" "o_tasks st' = (o_tasks st)[k := t']"
      "set (o_sent st') \<subseteq> set (o_sent st) \<union> new"
    and sent: "\<And>d mid ch. (d, mid, ch) \<in> set (td_sent (o_tasks st ! k)) \<Longrightarrow> (d, mid, ch) \<in> set (td_sent t') \<or> confirmed st ch mid"
    and new: "\<And>ch m i mid. (ch, m) \<in> new \<Longrightarrow> teardown_of m = Some (i, mid) \<Longrightarrow>
      i = td_net_id t' \<and> (\<exists>d. (d, mid, ch) \<in> set (td_sent t'))"
  shows "lc_inv (st', h)"
proof -
  have mem: "t' \<in> set (o_tasks st')" using k st'(6) by (simp add: set_update_memI)
  have "ids_inv (st', h)" using inv st' map_td_update [OF k t'(1)] by (simp add: lc_inv_def ids_inv_def)
  moreover have "tasks_inv st'" unfolding tasks_inv_def
  proof (intro ballI allI impI)
    fix t d mid ch m
    assume t: "t \<in> set (o_tasks st')" and m: "(d, mid, ch, m) \<in> set (td_unsent t)"
    consider "t = t'" | "t \<in> set (o_tasks st)"
      using t st'(6) set_update_subset_insert [of "o_tasks st" k t'] by auto
    then show "teardown_of m = Some (td_net_id t, mid)"
      using inv m t' k by (cases, auto simp: lc_inv_def tasks_inv_def dest: nth_mem)
  qed
  moreover have "log_inv st'"
  proof (rule log_inv_tasks [of st st' new])
    show "log_inv st" using inv by (simp add: lc_inv_def)
    have conf: "confirmed st' = confirmed st" using st'(4,5) by (simp add: confirmed_def fun_eq_iff)
    fix i ch mid
    show "awaited st i ch mid \<Longrightarrow> awaited st' i ch mid \<or> confirmed st' ch mid"
      by (rule awaited_update [OF st'(6) k t'(1)]) (use sent in \<open>auto simp: conf\<close>)
    fix m
    assume "(ch, m) \<in> new" "teardown_of m = Some (i, mid)"
    then show "awaited st' i ch mid" using new [of ch m i mid] mem by (auto simp: awaited_def)
  qed (use st' in auto)
  ultimately show ?thesis by (simp add: lc_inv_def)
qed

lemma lc_inv_finish:
  assumes inv: "lc_inv (st, h)" and k: "k < length (o_tasks st)" "td_sent (o_tasks st ! k) = []"
  shows "lc_inv ((free_net_id (td_net_id (o_tasks st ! k)) st)\<lparr>o_inflight := o_inflight st - 1,
         o_tasks := take k (o_tasks st) @ drop (Suc k) (o_tasks st)\<rparr>, h)"
proof -
  define t rest where "t = o_tasks st ! k" and "rest = take k (o_tasks st) @ drop (Suc k) (o_tasks st)"
  define st' where "st' = (free_net_id (td_net_id t) st)\<lparr>o_inflight := o_inflight st - 1, o_tasks := rest\<rparr>"
  have ts: "o_tasks st = take k (o_tasks st) @ t # drop (Suc k) (o_tasks st)"
    unfolding t_def by (rule id_take_nth_drop [OF k(1)])
  have sub: "set (o_tasks st) = insert t (set rest)" "length (o_tasks st) = Suc (length rest)"
    using k(1) by (subst ts, simp add: rest_def, simp add: rest_def)
  have ms: "mset (map td_net_id (o_tasks st)) = add_mset (td_net_id t) (mset (map td_net_id rest))"
    by (subst ts) (simp add: rest_def)
  have d: "distinct (h @ map td_net_id (o_tasks st))" and u: "set (h @ map td_net_id (o_tasks st)) = in_use (o_pool st)"
    and p: "pool_inv (o_net_type st) (o_pool st)" and n: "o_inflight st = length (o_tasks st)"
    using inv by (simp_all add: lc_inv_def ids_inv_def)
  have "mset (h @ map td_net_id (o_tasks st)) = mset (td_net_id t # h @ map td_net_id rest)" using ms by simp
  then have "distinct (td_net_id t # h @ map td_net_id rest)"
    and "set (td_net_id t # h @ map td_net_id rest) = in_use (o_pool st)"
    using d u mset_eq_imp_distinct_iff mset_eq_setD by metis+
  from ids_inv_freed [OF p this] have "ids_inv (st', h)"
    using n sub(2) by (simp add: ids_inv_def st'_def free_net_id_def)
  moreover have "tasks_inv st'"
    using inv sub(1) by (simp add: lc_inv_def tasks_inv_def st'_def free_net_id_def)
  moreover have "log_inv st'"
  proof (rule log_inv_tasks [of st st' "{}"])
    fix i ch mid
    assume "awaited st i ch mid"
    then have "awaited st' i ch mid" using sub(1) k(2) by (auto simp: awaited_def st'_def t_def free_net_id_def)
    then show "awaited st' i ch mid \<or> confirmed st' ch mid" by blast
  qed (use inv in \<open>auto simp: lc_inv_def st'_def free_net_id_def\<close>)
  ultimately show ?thesis by (simp add: lc_inv_def st'_def t_def rest_def)
qed

lemma lc_inv_task:
  assumes inv: "lc_inv (st, h)" and turn: "task_turn k st = Some st'"
  shows "lc_inv (st', h)"
  using turn
proof (cases rule: task_turn_cases)
  case (Refused dest mid ch m rest)
  then show ?thesis
    by (intro lc_inv_task_update [OF inv, of k "(o_tasks st ! k)\<lparr>td_unsent := rest\<rparr>" _ "{}"]) auto
next
  case (Sent dest mid ch m rest)
  have "teardown_of m = Some (td_net_id (o_tasks st ! k), mid)"
  proof -
    have "tasks_inv st" using inv by (simp add: lc_inv_def)
    then have "(dest, mid, ch, m) \<in> set (td_unsent (o_tasks st ! k)) \<longrightarrow> ?thesis"
      using nth_mem [OF Sent(1)] unfolding tasks_inv_def by blast
    then show ?thesis using Sent(2) by simp
  qed
  then show ?thesis using Sent
    by (intro lc_inv_task_update [OF inv, of k "(o_tasks st ! k)\<lparr>td_unsent := rest,
         td_sent := td_sent (o_tasks st ! k) @ [(dest, mid, ch)]\<rparr>" _ "{(ch, m)}"]) auto
next
  case (Confirmed dest mid ch rest)
  then show ?thesis
    by (intro lc_inv_task_update [OF inv, of k "(o_tasks st ! k)\<lparr>td_sent := rest\<rparr>" _ "{}"]) auto
next
  case Finished
  then show ?thesis using lc_inv_finish [OF inv Finished(1,3)] by simp
qed

lemma lc_inv_step: "lc_step s s' \<Longrightarrow> lc_inv s \<Longrightarrow> lc_inv s'"
  by (induction rule: lc_step.induct)
    (erule (1) lc_inv_connect lc_inv_task lc_inv_allocate [rotated] lc_inv_exhausted [rotated]
      lc_inv_release [rotated] lc_inv_teardown [rotated] | erule lc_inv_disconnect lc_inv_close lc_inv_ack lc_inv_deadline)+

lemma lc_inv_reach: "lc_reach ty s \<Longrightarrow> lc_inv s"
  by (induction rule: lc_reach.induct) (rule lc_inv_new, erule (1) lc_inv_step)

section \<open>An identifier is reused only after its teardown is confirmed\<close>


text \<open>A runnable form of the interleaving, for concrete histories.\<close>

datatype lc_cmd =
    CConnect ip_addr chan
  | CDisconnect ip_addr
  | CClose chan
  | CAck msg_id
  | CAllocate
  | CTeardown ip_addr ip_addr u32
  | CTask nat
  | CDeadline nat

fun lc_exec :: "lc_cmd \<Rightarrow> orch \<times> u32 list \<Rightarrow> (orch \<times> u32 list) option" where
  "lc_exec (CConnect ip ch) (st, h) = map_option (\<lambda>st. (st, h)) (orch_add_client ip ch st)"
| "lc_exec (CDisconnect ip) (st, h) = Some (orch_remove_client ip st, h)"
| "lc_exec (CClose ch) (st, h) = Some (st\<lparr>o_closed := ch # o_closed st\<rparr>, h)"
| "lc_exec (CAck mid) (st, h) = Some (inbound_ack mid st, h)"
| "lc_exec CAllocate (st, h) = (case allocate_net_id st of (Some i, st) \<Rightarrow> Some (st, i # h) | (None, st) \<Rightarrow> Some (st, h))"
| "lc_exec (CTeardown c s i) (st, h) = (if i \<in> set h
     then Some (send_net_teardown_kind c None s None i False st, removeAll i h) else None)"
| "lc_exec (CTask k) (st, h) = map_option (\<lambda>st. (st, h)) (task_turn k st)"
| "lc_exec (CDeadline k) (st, h) = Some (task_deadline k st, h)"

lemma lc_exec_step: "lc_exec c s = Some s' \<Longrightarrow> lc_step s s'"
  by (cases c; cases s) (auto intro: lc_step.intros split: prod.splits option.splits if_splits)

lemma lc_run_reach: "lc_reach ty s \<Longrightarrow> foldM lc_exec cs s = Some s' \<Longrightarrow> lc_reach ty s'"
proof (induction cs arbitrary: s)
  case (Cons c cs)
  obtain s1 where s1: "lc_exec c s = Some s1" "foldM lc_exec cs s1 = Some s'"
    using Cons.prems(2) by (auto split: option.splits)
  have "lc_reach ty s1" by (rule lc_reach.Step [OF Cons.prems(1) lc_exec_step [OF s1(1)]])
  then show ?case by (rule Cons.IH [OF _ s1(2)])
qed simp

definition lc_demo :: "lc_cmd list" where
  "lc_demo = [CConnect (V4 1) 7, CConnect (V4 2) 8, CAllocate, CTeardown (V4 1) (V4 2) 101,
     CTask 0, CTask 0, CDeadline 0, CAck 0, CTask 0, CClose 8, CTask 0, CTask 0]"


section \<open>A confirmed teardown releases its identifier\<close>

fun task_turns :: "nat \<Rightarrow> nat \<Rightarrow> orch \<Rightarrow> orch option" where
  "task_turns 0 k st = Some st"
| "task_turns (Suc n) k st = (case task_turn k st of None \<Rightarrow> None | Some st' \<Rightarrow> task_turns n k st')"

definition all_confirmed :: "orch \<Rightarrow> teardown_task \<Rightarrow> bool" where
  "all_confirmed st t \<longleftrightarrow> (\<forall>(d, mid, ch, m) \<in> set (td_unsent t). confirmed st ch mid) \<and>
     (\<forall>(d, mid, ch) \<in> set (td_sent t). confirmed st ch mid)"

lemma task_finishes:
  assumes "lc_inv (st, h)" "k < length (o_tasks st)" "o_tasks st ! k = t" "all_confirmed st t"
  shows "\<exists>n st'. n \<le> 2 * length (td_unsent t) + length (td_sent t) + 1 \<and> task_turns n k st = Some st' \<and>
    td_net_id t \<in> set (freed (o_pool st')) \<and> td_net_id t \<notin> td_net_id ` set (o_tasks st')"
  using assms
proof (induction "2 * length (td_unsent t) + length (td_sent t)" arbitrary: st t rule: less_induct)
  case less
  note inv = less.prems(1) and k = less.prems(2) and t = less.prems(3) and conf = less.prems(4)
  have step: ?case if turn: "task_turn k st = Some st1" and k1: "k < length (o_tasks st1)"
    and t1: "td_net_id (o_tasks st1 ! k) = td_net_id t" "all_confirmed st1 (o_tasks st1 ! k)"
    and m: "2 * length (td_unsent (o_tasks st1 ! k)) + length (td_sent (o_tasks st1 ! k))
        < 2 * length (td_unsent t) + length (td_sent t)" for st1
  proof -
    have "lc_inv (st1, h)" by (rule lc_inv_task [OF inv turn])
    from less.hyps [OF m this k1 refl t1(2)] obtain n st' where
      n: "n \<le> 2 * length (td_unsent (o_tasks st1 ! k)) + length (td_sent (o_tasks st1 ! k)) + 1"
      "task_turns n k st1 = Some st'" "td_net_id t \<in> set (freed (o_pool st'))"
      "td_net_id t \<notin> td_net_id ` set (o_tasks st')"
      unfolding t1(1) by blast
    show ?case by (rule exI [of _ "Suc n"], rule exI [of _ st']) (use n m turn in auto)
  qed
  show ?case
  proof (cases "td_unsent t")
    case (Cons e rest)
    obtain dest mid ch m where e: "e = (dest, mid, ch, m)" by (metis prod_cases4)
    show ?thesis
      by (rule step [of "the (task_turn k st)"])
        (use k t conf Cons in \<open>auto simp: task_turn_def e stream_send_def all_confirmed_def confirmed_def Let_def
          split: if_splits\<close>)
  next
    case Nil
    show ?thesis
    proof (cases "td_sent t")
      case (Cons e rest)
      obtain dest mid ch where e: "e = (dest, mid, ch)" by (metis prod_cases3)
      show ?thesis
        by (rule step [of "the (task_turn k st)"])
          (use k t conf Nil Cons in \<open>auto simp: task_turn_def e all_confirmed_def confirmed_def Let_def\<close>)
    next
      case nil: Nil
      let ?st = "(free_net_id (td_net_id t) st)\<lparr>o_inflight := o_inflight st - 1,
         o_tasks := take k (o_tasks st) @ drop (Suc k) (o_tasks st)\<rparr>"
      have turn: "task_turn k st = Some ?st"
        using k t Nil nil by (simp add: task_turn_def Let_def free_net_id_def)
      have inv': "lc_inv (?st, h)" by (rule lc_inv_task [OF inv turn])
      have u: "td_net_id t \<in> in_use (o_pool st)" and p: "pool_inv (o_net_type st) (o_pool st)"
        using inv k t by (auto simp: lc_inv_def ids_inv_def)
      have f: "td_net_id t \<in> set (freed (o_pool ?st))"
        using u in_use_range [OF p u] p by (auto simp: free_net_id_def free_def in_use_def pool_inv_def)
      then have "td_net_id t \<notin> td_net_id ` set (o_tasks ?st)"
        using inv' by (auto simp: lc_inv_def ids_inv_def in_use_def)
      then show ?thesis using f turn by (intro exI [of _ 1] exI [of _ ?st]) simp
    qed
  qed
qed

text \<open>\<^bold>\<open>C22.\<close> In every reachable state, a teardown task all of whose endpoints have acknowledged or
  disconnected runs to its end by its own steps alone, within a bound given by its messages, and
  its identifier is then queued for reuse and owned by no task: a confirmed teardown never leaks
  its identifier.\<close>

theorem teardown_releases_id:
  assumes "lc_reach ty (st, h)" "k < length (o_tasks st)" "all_confirmed st (o_tasks st ! k)"
  shows "\<exists>n st'. n \<le> 2 * length (td_unsent (o_tasks st ! k)) + length (td_sent (o_tasks st ! k)) + 1 \<and>
    task_turns n k st = Some st' \<and> td_net_id (o_tasks st ! k) \<in> set (freed (o_pool st')) \<and>
    td_net_id (o_tasks st ! k) \<notin> td_net_id ` set (o_tasks st')"
  by (rule task_finishes [OF lc_inv_reach [OF assms(1)] assms(2) refl assms(3)])

theorem teardown_releases_id_witness:
  "\<exists>st h n st'. foldM lc_exec [CConnect (V4 1) 7, CAllocate, CTeardown (V4 1) (V4 2) 101, CTask 0, CAck 0]
       (orch_new Vlan False False [], []) = Some (st, h) \<and>
     task_turns n 0 st = Some st' \<and> 101 \<in> set (freed (o_pool st'))"
proof -
  let ?run = "foldM lc_exec [CConnect (V4 1) 7, CAllocate, CTeardown (V4 1) (V4 2) 101, CTask 0, CAck 0]
       (orch_new Vlan False False [], [])"
  have "map_option (\<lambda>(st, h). (o_tasks st, o_acked st)) ?run =
      Some ([\<lparr>td_net_id = 101, td_unsent = [], td_sent = [(V4 1, 0, 7)]\<rparr>], [0])"
    by code_simp
  then obtain st h where sh: "?run = Some (st, h)"
    "o_tasks st = [\<lparr>td_net_id = 101, td_unsent = [], td_sent = [(V4 1, 0, 7)]\<rparr>]" "o_acked st = [0]" by auto
  have "lc_reach Vlan (st, h)" by (rule lc_run_reach [OF lc_reach.Init sh(1)])
  from teardown_releases_id [OF this, of 0] sh show ?thesis
    by (auto simp: all_confirmed_def confirmed_def)
qed

end
