(* ===== verification/Edge_Props.thy ===== *)
theory Edge_Props
  imports Chain_Reach Net_Lifecycle
begin

text \<open>
  What a builder of an edge is promised: the edge is its own until it finishes, whoever asks
  meanwhile waits for it, and in the end the network is either registered or on its way out.
\<close>

section \<open>Reservations and waiters\<close>

text \<open>Once a task reserved an edge, every other task that claims the same edge is told to wait
  for that reservation, whatever target it has in mind, and changes nothing.\<close>

theorem claim_then_wait:
  assumes "ch_reach (w, bs)" "claim_edge now c client_ethernet n target policy w = Some (ClaimReserved i res t k, w')"
  shows "claim_edge now' c client_ethernet' n target' policy' w' = Some (ClaimWait t, hm_insert n (the (hm_get (fst w') n)) (fst w'), snd w')"
proof -
  have winv: "world_inv (fst w)" using ch_inv_reach [OF assms(1)] by (simp add: ch_inv_def steps_inv_def)
  obtain reg where reg: "hm_get (fst w) n = Some (Registered reg)"
    using assms(2) by (auto simp: claim_edge_def split: option.splits service_info.splits)
  have ri: "reg_inv reg" "sticky reg" using world_inv_get [OF winv reg] by auto
  obtain reg' st' where cl: "claim_registered now c client_ethernet target policy reg (snd w) = Some (ClaimReserved i res t k, reg', st')"
    "w' = (hm_insert n (Registered reg') (fst w), st')" using assms(2) reg by (auto simp: claim_edge_def)
  then obtain i' where i': "client_replica_live c reg = None" "pending_notify c reg = None"
    "reserve_edge now c client_ethernet policy i' reg (snd w) = Some (ClaimReserved i res t k, reg', st')"
    by (auto simp: claim_registered_def Let_def split: option.splits bind_splits)
  have none: "\<forall>r \<in> set (rg_replicas reg). \<not> has_client c r" using no_holder [OF i'(1,2)] by blast
  obtain out reg1 st1 info where r: "reserve_edge now c client_ethernet policy i' reg (snd w) = Some (out, reg1, st1)"
    "list_all2 (placed i' c info) (rg_replicas reg) (rg_replicas reg1)" "ci_pending info = Some (o_next (snd w))"
    by (rule reserve_edge_ok [OF ri none])
  have reg1: "reg1 = reg'" using r(1) i'(3) by simp
  have pend: "ci_pending ci = Some (o_next (snd w))" if "r' \<in> set (rg_replicas reg')" "hm_get (entries_of r') c = Some ci" for r' ci
    using list_all2_placedD [OF r(2), unfolded reg1, OF that(1)] that(2) none r(3) by (auto simp: placed_def has_client_def)
  then have "client_replica_live c reg' = None" by (auto simp: client_replica_live_None live_at_def is_pending_def)
  moreover have "pending_notify c reg' = Some t" using i'(3)
    by (auto simp: reserve_edge_def Let_def split: prod.splits option.splits if_splits bind_splits)
  ultimately show ?thesis using cl(2) by (simp add: claim_edge_def claim_registered_def)
qed

theorem claim_then_wait_witness:
  "\<exists>s w' w''. ch_run [Register ''web'' (V4 9) 80 None] ch_init = Some s \<and>
     claim_edge 0 (ex_client ''u'') ex_proxy ''web'' (Fixed (V4 9) None) False (fst s) = Some (ClaimReserved (V4 9, None) None 1 None, w') \<and>
     claim_edge 5 (ex_client ''u'') ex_proxy ''web'' Dependency True w' = Some (ClaimWait 1, w'')"
proof -
  let ?run = "ch_run [Register ''web'' (V4 9) 80 None] ch_init"
  let ?claim = "claim_edge 0 (ex_client ''u'') ex_proxy ''web'' (Fixed (V4 9) None) False"
  have "map_option (\<lambda>s. map_option fst (?claim (fst s))) ?run = Some (Some (ClaimReserved (V4 9, None) None 1 None))" by code_simp
  then obtain w bs w' where s: "?run = Some (w, bs)" "?claim w = Some (ClaimReserved (V4 9, None) None 1 None, w')" by fastforce
  note wait = claim_then_wait [OF ch_init_reach [OF s(1)] s(2), of 5 ex_proxy Dependency True]
  show ?thesis by (intro exI conjI, rule s(1), unfold fst_conv, rule s(2), rule wait)
qed

section \<open>The network of a finished build\<close>

text \<open>A network that is being torn down, or whose identifier is already back.\<close>

definition closing :: "u32 \<Rightarrow> orch \<Rightarrow> bool" where
  "closing i st \<longleftrightarrow> i \<in> td_net_id ` set (o_tasks st) \<or> i \<in> freed_set (o_pool st)"

definition same_nets :: "orch \<Rightarrow> orch \<Rightarrow> bool" where
  "same_nets st st' \<longleftrightarrow> o_tasks st' = o_tasks st \<and> o_pool st' = o_pool st \<and> o_net_type st' = o_net_type st"

lemma same_nets_simps [simp]: "same_nets st st" "same_nets st (emit e st)" "same_nets st (notify_waiters t st)"
  by (simp_all add: same_nets_def emit_def notify_waiters_def split: option.splits)

lemma same_nets_trans: "same_nets a b \<Longrightarrow> same_nets b c \<Longrightarrow> same_nets a c"
  by (simp add: same_nets_def)

lemma same_nets_closing: "same_nets st st' \<Longrightarrow> closing i st' \<longleftrightarrow> closing i st"
  by (simp add: same_nets_def closing_def)

lemma teardown_closing:
  assumes "MIN_NET_ID \<le> i" "i \<le> MAX_NET_ID (o_net_type st)"
  shows "closing i (send_net_teardown_kind c cd s sd i grp st)"
proof -
  obtain st1 acks where r: "same_core st st1"
    "send_net_teardown_kind c cd s sd i grp st = (if acks = [] then free_net_id i st1 else spawn_deferred_net_id_free i acks st1)"
    by (rule send_net_teardown_kind_core)
  have "closing i (free_net_id i st1)" using assms r(1) by (simp add: closing_def free_net_id_def free_def same_core_def)
  moreover have "closing i (spawn_deferred_net_id_free i acks st1)" by (simp add: closing_def spawn_deferred_net_id_free_def)
  ultimately show ?thesis using r(2) by simp
qed

lemma remove_pending_replicas_nets: "remove_pending_replicas c rs st = Some (rs', st') \<Longrightarrow> same_nets st st'"
  by (induction rs arbitrary: rs') (auto split: option.splits)

lemma add_client_replicas_nets: "add_client_replicas ip d c info rs st = Some (b, rs', st') \<Longrightarrow> same_nets st st'"
  by (induction rs arbitrary: rs') (auto split: option.splits bind_splits if_splits)

lemma rollback_nets: "rollback_edge c n t w = Some w' \<Longrightarrow> same_nets (snd w) (snd w')"
  by (auto simp: rollback_edge_def on_registered_def remove_pending_client_if_def reg_remove_pending_client_def
      dest: remove_pending_replicas_nets split: option.splits service_info.splits if_splits)

lemma promote_nets: "promote_edge c ci n i t w = Some (ok, w') \<Longrightarrow> same_nets (snd w) (snd w')"
  by (auto simp: promote_edge_def promote_registered_def add_client_to_replica_def
      dest: add_client_replicas_nets split: option.splits service_info.splits if_splits)

lemma remove_pending_replicas_gone:
  assumes "reps_inv rs" "distinct (map ident rs)" "\<forall>r \<in> set rs. \<forall>r' \<in> set rs. has_client c r \<and> has_client c r' \<longrightarrow> ident r = ident r'"
    and "remove_pending_replicas c rs st = Some (rs', st')" "r' \<in> set rs'"
  shows "cs_pending_notify c (rp_clients r') = None"
  using assms
proof (induction rs arbitrary: rs')
  case (Cons r rs)
  have inv: "clients_inv (rp_clients r)" using Cons.prems(1) by simp
  obtain cs' where cs': "remove_pending_client c (rp_clients r) = Some (cs', cs_pending_notify c (rp_clients r))"
    "cs_clients cs' = (if cs_pending_notify c (rp_clients r) = None then entries_of r else hm_remove c (entries_of r))"
    using remove_pending_client_ok [OF inv] .
  show ?case
  proof (cases "cs_pending_notify c (rp_clients r)")
    case None
    then have "map_option (\<lambda>(rs', st'). (r # rs', st')) (remove_pending_replicas c rs st) = Some (rs', st')" using Cons.prems(4) cs'(1) by simp
    then obtain rs1 where rs1: "remove_pending_replicas c rs st = Some (rs1, st')" "rs' = r # rs1" by auto
    have "reps_inv rs" "distinct (map ident rs)" using Cons.prems(1,2) by simp_all
    moreover have "\<forall>r \<in> set rs. \<forall>r' \<in> set rs. has_client c r \<and> has_client c r' \<longrightarrow> ident r = ident r'"
      using Cons.prems(3) by (meson list.set_intros(2))
    ultimately have "cs_pending_notify c (rp_clients r') = None" if "r' \<in> set rs1" using Cons.IH rs1(1) that by blast
    then show ?thesis using None Cons.prems(5) rs1(2) by auto
  next
    case (Some t)
    then have rs': "rs' = r\<lparr>rp_clients := cs'\<rparr> # rs" using Cons.prems(4) cs' by simp
    have "has_client c r" using Some by (auto simp: cs_pending_notify_def has_client_def bind_eq_Some_conv)
    have "\<not> has_client c r2" if r2: "r2 \<in> set rs" for r2
    proof
      assume "has_client c r2"
      then have "ident r = ident r2" using Cons.prems(3) \<open>has_client c r\<close> r2 by (meson list.set_intros)
      moreover have "ident r \<notin> ident ` set rs" using Cons.prems(2) by simp
      ultimately show False using r2 by blast
    qed
    then have "cs_pending_notify c (rp_clients r2) = None" if "r2 \<in> set rs" for r2 using that by (auto simp: cs_pending_notify_def has_client_def)
    moreover have "cs_pending_notify c cs' = None" using cs'(2) Some by (simp add: cs_pending_notify_def)
    ultimately show ?thesis using Cons.prems(5) rs' by auto
  qed
qed simp

lemma rollback_gone:
  assumes "world_inv (fst w)" "rollback_edge c n t w = Some w'"
  shows "\<not> pend_at (fst w') n c t r"
proof
  assume p: "pend_at (fst w') n c t r"
  show False
  proof (cases "\<exists>reg. hm_get (fst w) n = Some (Registered reg)")
    case False
    then show False using assms(2) p by (auto simp: rollback_edge_def on_registered_def pend_at_def split: option.splits service_info.splits)
  next
    case True
    then obtain reg where reg: "hm_get (fst w) n = Some (Registered reg)" by blast
    have ri: "reg_inv reg" "sticky reg" using world_inv_get [OF assms(1) reg] by auto
    obtain reg' st' where r: "remove_pending_client_if c t reg (snd w) = Some (reg', st')" "fst w' = hm_insert n (Registered reg') (fst w)"
      using assms(2) reg by (auto simp: rollback_edge_def on_registered_def)
    obtain ci where a: "r \<in> set (rg_replicas reg')" "hm_get (entries_of r) c = Some ci" "ci_pending ci = Some t" using p r(2) by (auto simp: pend_at_def)
    show False
    proof (cases "pending_notify c reg = Some t")
      case True
      then obtain rs' where "remove_pending_replicas c (rg_replicas reg) (snd w) = Some (rs', st')" "rg_replicas reg' = rs'"
        using r(1) by (auto simp: remove_pending_client_if_def reg_remove_pending_client_def)
      moreover have "reps_inv (rg_replicas reg)" "distinct (map ident (rg_replicas reg))" using ri(1) by (simp_all add: reg_inv_def)
      moreover have "\<forall>r \<in> set (rg_replicas reg). \<forall>r' \<in> set (rg_replicas reg). has_client c r \<and> has_client c r' \<longrightarrow> ident r = ident r'"
        using ri(2) unfolding sticky_def by blast
      ultimately have "cs_pending_notify c (rp_clients r) = None" using remove_pending_replicas_gone a(1) by blast
      then show False using a by (simp add: cs_pending_notify_def)
    next
      case False
      then have "reg' = reg" using r(1) by (simp add: remove_pending_client_if_def)
      then have "pending_notify c reg \<noteq> None" using a unfolding pending_notify_None by force
      then obtain t' where t': "pending_notify c reg = Some t'" by blast
      obtain r2 ci2 where "r2 \<in> set (rg_replicas reg)" "hm_get (entries_of r2) c = Some ci2" "ci_pending ci2 = Some t'"
        using pending_notify_Some [OF t'] by blast
      moreover have "r2 = r" using holder_unique [OF ri, of r2 r c] calculation a \<open>reg' = reg\<close> by (simp add: has_client_def)
      ultimately show False using a False t' by simp
    qed
  qed
qed

definition edge_at :: "services \<Rightarrow> build \<Rightarrow> u32 \<Rightarrow> bool" where
  "edge_at sv b i \<longleftrightarrow> (\<exists>reg r ci. hm_get sv (b_server b) = Some (Registered reg) \<and> r \<in> set (rg_replicas reg) \<and> ident r = b_target b \<and>
     hm_get (entries_of r) (b_client b) = Some ci \<and> \<not> is_pending ci \<and> ci_net_id ci = i)"

lemma kept_net_id [simp]: "ci_net_id (kept_counts old ci) = ci_net_id ci"
  by (simp add: kept_counts_def split: option.splits)

text \<open>\<^bold>\<open>C3.\<close> A build ends in one of two ways, in any interleaving with disconnects, removals, reloads
  and other builds: its network is live in the registry, on the replica it was reserved on, or
  its network is being torn down and nothing is left of its reservation.\<close>

theorem edge_finish_owned_or_released:
  assumes "ch_reach (w, bs)" "b \<in> set bs" "ci_pending ci = None" "MIN_NET_ID \<le> ci_net_id ci" "ci_net_id ci \<le> MAX_NET_ID (o_net_type (snd w))"
    and "edge_finish ready (b_client b) ci (b_server b) (b_target b) (b_token b) grp w = Some (out, w')"
  shows "case out of EdgeSuccess i target _ \<Rightarrow> i = ci_net_id ci \<and> target = b_target b \<and> edge_at (fst w') b i
    | EdgeFailed \<Rightarrow> closing (ci_net_id ci) (snd w') \<and> (\<forall>r. \<not> pend_at (fst w') (b_server b) (b_client b) (b_token b) r)"
proof -
  have inv: "steps_inv w bs" using ch_inv_reach [OF assms(1)] by (simp add: ch_inv_def)
  define td where "td = send_net_teardown_kind (ci_client_ip ci) (ci_docker_container ci) (fst (b_target b)) (snd (b_target b)) (ci_net_id ci) grp"
  have td: "closing (ci_net_id ci) (td st)" if "same_nets (snd w) st" for st
    unfolding td_def using that assms(4,5) by (intro teardown_closing) (simp_all add: same_nets_def)
  show ?thesis
  proof (cases ready)
    case False
    define st where "st = (if cl_proxy (b_client b) \<noteq> None then emit (SetupTimeout (ci_net_id ci) (b_server b)) (snd w) else snd w)"
    have w': "rollback_edge (b_client b) (b_server b) (b_token b) (fst w, td st) = Some w'" "out = EdgeFailed"
      using assms(6) False by (auto simp: edge_finish_def Let_def st_def td_def)
    have "closing (ci_net_id ci) (td st)" by (rule td) (simp add: st_def)
    then have "closing (ci_net_id ci) (snd w')" using same_nets_closing [OF rollback_nets [OF w'(1)]] by simp
    moreover have "world_inv (fst (fst w, td st))" using inv by (simp add: steps_inv_def)
    ultimately show ?thesis using rollback_gone [OF _ w'(1)] w'(2) by simp
  next
    case True
    define st where "st = (if cl_proxy (b_client b) \<noteq> None \<and> o_diag (snd w) then emit (SetupAck (ci_net_id ci) (b_server b) (ci_time_ms ci)) (snd w) else snd w)"
    have "o_next (snd w) \<le> o_next st" by (simp add: st_def)
    then obtain ok w1 where w1: "promote_edge (b_client b) ci (b_server b) (b_target b) (b_token b) (fst w, st) = Some (ok, w1)" "steps_inv w1 bs"
      "ok \<longrightarrow> (\<exists>reg r old. hm_get (fst w1) (b_server b) = Some (Registered reg) \<and> r \<in> set (rg_replicas reg) \<and> ident r = b_target b \<and>
         hm_get (entries_of r) (b_client b) = Some (kept_counts old ci))"
      by (rule steps_inv_promote [OF inv assms(2,3)])
    show ?thesis
    proof (cases ok)
      case True
      then have "w' = w1" "\<exists>x. out = EdgeSuccess (ci_net_id ci) (b_target b) x"
        using assms(6) w1(1) \<open>ready\<close> unfolding edge_finish_def Let_def st_def [symmetric] by (auto simp del: not_None_eq)
      moreover have "edge_at (fst w1) b (ci_net_id ci)" using w1(3) True assms(3) by (fastforce simp: edge_at_def is_pending_def)
      ultimately show ?thesis by auto
    next
      case False
      then obtain w2 where w2: "rollback_edge (b_client b) (b_server b) (b_token b) w1 = Some w2" "out = EdgeFailed" "fst w' = fst w2"
        "snd w' = td (emit (EdgePromotionLost (ci_net_id ci) (b_server b) (fst (b_target b))) (snd w2))"
        using assms(6) w1(1) \<open>ready\<close> unfolding edge_finish_def Let_def st_def [symmetric] td_def [symmetric] by (auto simp del: not_None_eq split: bind_splits)
      have "same_nets (snd w) st" by (simp add: st_def)
      then have "same_nets (snd w) (snd w2)" using same_nets_trans promote_nets [OF w1(1)] rollback_nets [OF w2(1)] by (metis snd_conv)
      then have "same_nets (snd w) (emit (EdgePromotionLost (ci_net_id ci) (b_server b) (fst (b_target b))) (snd w2))"
        by (rule same_nets_trans) simp
      then have "closing (ci_net_id ci) (snd w')" unfolding w2(4) by (rule td)
      moreover have "world_inv (fst w1)" using w1(2) by (simp add: steps_inv_def)
      ultimately show ?thesis using rollback_gone [OF _ w2(1)] w2(2,3) by simp
    qed
  qed
qed

theorem edge_finish_owned_or_released_witness:
  "\<exists>w w'. ch_run (ch_claim @ [Apply [ReplicasRemoved ''web'' (V4 9)] None ''s'']) ch_init = Some (w, [ex_build 1]) \<and>
     edge_finish True (ex_client ''u'') (ex_entry 101 0) ''web'' (V4 9, None) 1 False w = Some (EdgeFailed, w') \<and> closing 101 (snd w')"
proof -
  let ?run = "ch_run (ch_claim @ [Apply [ReplicasRemoved ''web'' (V4 9)] None ''s'']) ch_init"
  let ?finish = "edge_finish True (ex_client ''u'') (ex_entry 101 0) ''web'' (V4 9, None) 1 False"
  have "map_option (\<lambda>(w, bs). (bs, o_net_type (snd w), map_option fst (?finish w))) ?run = Some ([ex_build 1], Vxlan, Some EdgeFailed)"
    by code_simp
  then obtain w w' where w: "?run = Some (w, [ex_build 1])" "o_net_type (snd w) = Vxlan" "?finish w = Some (EdgeFailed, w')" by fastforce
  have "MIN_NET_ID \<le> ci_net_id (ex_entry 101 0)" "ci_net_id (ex_entry 101 0) \<le> MAX_NET_ID (o_net_type (snd w))" unfolding w(2) by code_simp+
  moreover have "ci_pending (ex_entry 101 0) = None" "ci_net_id (ex_entry 101 0) = 101" by (simp_all add: ex_defs)
  moreover have "edge_finish True (b_client (ex_build 1)) (ex_entry 101 0) (b_server (ex_build 1)) (b_target (ex_build 1)) (b_token (ex_build 1)) False w = Some (EdgeFailed, w')"
    using w(3) by (simp add: ex_build_def)
  ultimately have "closing 101 (snd w')"
    using edge_finish_owned_or_released [OF ch_init_reach [OF w(1)], of "ex_build 1" "ex_entry 101 0" True False EdgeFailed w'] by simp
  then show ?thesis using w by blast
qed

end
