(* ===== verification/Proxy_Locks.thy ===== *)
theory Proxy_Locks
  imports Chain_Setup
begin

text \<open>
  What a proxy request holds while it runs (nullnet-server, \<^verbatim>\<open>nullnet_grpc_impl.rs\<close>): the lock of its
  session identity, handed out by \<^verbatim>\<open>handle_proxy_request\<close>, and its place under the hard cap of
  dedicated networks, \<^verbatim>\<open>DedicatedAdmission\<close>.
\<close>

section \<open>One lock per session identity\<close>

type_synonym proxy_key = "string \<times> string \<times> ip_addr"

text \<open>A request clones the lock of its key, waits for it, runs, releases it, drops the map entry if
  nobody else has the lock, and returns.  \<^verbatim>\<open>Arc\<close>s are identified by numbers, and a request counts as an
  owner of its lock until it returns.\<close>

datatype lock_phase = Waiting | Holding | Released | Returning

record lock_request =
  lr_key :: proxy_key
  lr_arc :: nat
  lr_phase :: lock_phase

record inflight =
  if_map :: "(proxy_key, nat) hmap"
  if_next :: nat
  if_requests :: "(nat, lock_request) hmap"

definition strong_count :: "nat \<Rightarrow> inflight \<Rightarrow> nat" where
  "strong_count arc s = (if arc \<in> set (hm_values (if_map s)) then 1 else 0) + hm_count (\<lambda>_ r. lr_arc r = arc) (if_requests s)"

definition lock_arrive :: "nat \<Rightarrow> proxy_key \<Rightarrow> inflight \<Rightarrow> inflight" where
  "lock_arrive i key s = (case hm_get (if_map s) key of
       Some arc \<Rightarrow> s\<lparr>if_requests := hm_insert i \<lparr>lr_key = key, lr_arc = arc, lr_phase = Waiting\<rparr> (if_requests s)\<rparr>
     | None \<Rightarrow> s\<lparr>if_map := hm_insert key (if_next s) (if_map s), if_next := Suc (if_next s),
         if_requests := hm_insert i \<lparr>lr_key = key, lr_arc = if_next s, lr_phase = Waiting\<rparr> (if_requests s)\<rparr>)"

definition set_phase :: "nat \<Rightarrow> lock_phase \<Rightarrow> inflight \<Rightarrow> inflight" where
  "set_phase i p s = s\<lparr>if_requests := hm_modify i (\<lambda>r. r\<lparr>lr_phase := p\<rparr>) (if_requests s)\<rparr>"

definition lock_cleanup :: "proxy_key \<Rightarrow> inflight \<Rightarrow> inflight" where
  "lock_cleanup key s = (case hm_get (if_map s) key of
       Some arc \<Rightarrow> if strong_count arc s \<le> 2 then s\<lparr>if_map := hm_remove key (if_map s)\<rparr> else s
     | None \<Rightarrow> s)"

text \<open>The steps of all requests, in any order; a request whose caller hangs up disappears at any point.\<close>

inductive lock_step :: "inflight \<Rightarrow> inflight \<Rightarrow> bool" where
  Arrive: "hm_get (if_requests s) i = None \<Longrightarrow> lock_step s (lock_arrive i key s)"
| Lock: "hm_get (if_requests s) i = Some r \<Longrightarrow> lr_phase r = Waiting \<Longrightarrow>
    \<forall>r' \<in> set (hm_values (if_requests s)). lr_arc r' = lr_arc r \<longrightarrow> lr_phase r' \<noteq> Holding \<Longrightarrow>
    lock_step s (set_phase i Holding s)"
| Unlock: "hm_get (if_requests s) i = Some r \<Longrightarrow> lr_phase r = Holding \<Longrightarrow> lock_step s (set_phase i Released s)"
| Cleanup: "hm_get (if_requests s) i = Some r \<Longrightarrow> lr_phase r = Released \<Longrightarrow>
    lock_step s (set_phase i Returning (lock_cleanup (lr_key r) s))"
| Return: "hm_get (if_requests s) i = Some r \<Longrightarrow> lock_step s (s\<lparr>if_requests := hm_remove i (if_requests s)\<rparr>)"

inductive lock_reach :: "inflight \<Rightarrow> bool" where
  Start: "lock_reach \<lparr>if_map = [], if_next = n, if_requests = []\<rparr>"
| Step: "lock_reach s \<Longrightarrow> lock_step s s' \<Longrightarrow> lock_reach s'"

text \<open>A request that has not cleaned up yet has the lock the map has for its key, and a lock has one holder.\<close>

definition lock_inv :: "inflight \<Rightarrow> bool" where
  "lock_inv s \<longleftrightarrow> hm_inv (if_requests s) \<and>
     (\<forall>i r. hm_get (if_requests s) i = Some r \<longrightarrow> lr_phase r \<noteq> Returning \<longrightarrow> hm_get (if_map s) (lr_key r) = Some (lr_arc r)) \<and>
     (\<forall>i j r r'. hm_get (if_requests s) i = Some r \<longrightarrow> hm_get (if_requests s) j = Some r' \<longrightarrow>
        lr_phase r = Holding \<longrightarrow> lr_phase r' = Holding \<longrightarrow> lr_arc r = lr_arc r' \<longrightarrow> i = j)"

lemma count_two:
  assumes "hm_inv m" "hm_get m i = Some v" "hm_get m j = Some v'" "i \<noteq> j" "P i v" "P j v'"
  shows "2 \<le> hm_count P m"
proof -
  have "hm_get (hm_remove i m) j = Some v'" using assms(3,4) by simp
  then have "hm_count P (hm_remove i m) = hm_count P (hm_remove j (hm_remove i m)) + 1"
    using hm_count_remove [of "hm_remove i m" j v' P] assms(1,6) by simp
  then show ?thesis using hm_count_remove [OF assms(1,2), of P] assms(5) by simp
qed

lemma cleanup_keeps_others:
  assumes "lock_inv s" "hm_get (if_requests s) i = Some r" "lr_phase r = Released"
    and "hm_get (if_requests s) j = Some r'" "j \<noteq> i" "lr_phase r' \<noteq> Returning"
  shows "hm_get (if_map (lock_cleanup (lr_key r) s)) (lr_key r') = Some (lr_arc r')"
proof -
  have m: "hm_get (if_map s) (lr_key r) = Some (lr_arc r)" "hm_get (if_map s) (lr_key r') = Some (lr_arc r')"
    using assms by (auto simp: lock_inv_def)
  show ?thesis
  proof (cases "lr_key r' = lr_key r")
    case True
    then have "lr_arc r' = lr_arc r" using m by simp
    then have "2 \<le> hm_count (\<lambda>_ r''. lr_arc r'' = lr_arc r) (if_requests s)"
      using count_two [of "if_requests s" j r' i r "\<lambda>_ r''. lr_arc r'' = lr_arc r"] assms by (simp add: lock_inv_def)
    moreover have "lr_arc r \<in> set (hm_values (if_map s))" using hm_get_SomeD [OF m(1)] by force
    ultimately have "\<not> strong_count (lr_arc r) s \<le> 2" by (simp add: strong_count_def)
    then show ?thesis using m True by (simp add: lock_cleanup_def)
  next
    case False
    then show ?thesis using m by (simp add: lock_cleanup_def)
  qed
qed

lemma cleanup_requests [simp]: "if_requests (lock_cleanup key s) = if_requests s"
  by (simp add: lock_cleanup_def split: option.splits)

lemma lock_inv_step: "lock_step s s' \<Longrightarrow> lock_inv s \<Longrightarrow> lock_inv s'"
proof (induction rule: lock_step.induct)
  case (Arrive s i key)
  show ?case
  proof (cases "hm_get (if_map s) key")
    case None
    then show ?thesis using Arrive unfolding lock_inv_def lock_arrive_def by (auto split: if_splits)
  next
    case (Some arc)
    then show ?thesis using Arrive unfolding lock_inv_def lock_arrive_def by (auto split: if_splits)
  qed
next
  case (Lock s i r)
  have "hm_get (if_requests s) j = Some r' \<Longrightarrow> lr_arc r' = lr_arc r \<Longrightarrow> lr_phase r' \<noteq> Holding" for j r'
    using Lock.hyps(3) hm_get_SomeD [of "if_requests s" j r'] by force
  then show ?case using Lock unfolding lock_inv_def set_phase_def by (auto split: if_splits)
next
  case (Unlock s i r)
  then show ?case unfolding lock_inv_def set_phase_def by (auto split: if_splits)
next
  case (Cleanup s i r)
  then show ?case using cleanup_keeps_others [OF Cleanup.prems Cleanup.hyps]
    unfolding lock_inv_def set_phase_def by (auto split: if_splits)
next
  case (Return s i r)
  then show ?case unfolding lock_inv_def by (auto split: if_splits)
qed

lemma lock_inv_reach: "lock_reach s \<Longrightarrow> lock_inv s"
proof (induction rule: lock_reach.induct)
  case (Start n)
  then show ?case by (simp add: lock_inv_def)
next
  case (Step s s')
  then show ?case using lock_inv_step by blast
qed

text \<open>\<^bold>\<open>C27.\<close> At most one request per session identity runs at a time, although locks are created on
  demand and dropped when the last request leaves, and callers may hang up at any moment.\<close>

theorem proxy_requests_exclusive:
  assumes "lock_reach s" "hm_get (if_requests s) i = Some r" "hm_get (if_requests s) j = Some r'"
    and "lr_phase r = Holding" "lr_phase r' = Holding" "lr_key r = lr_key r'"
  shows "i = j"
proof -
  have inv: "lock_inv s" by (rule lock_inv_reach [OF assms(1)])
  then have "hm_get (if_map s) (lr_key r) = Some (lr_arc r)" "hm_get (if_map s) (lr_key r') = Some (lr_arc r')"
    using assms(2-5) by (auto simp: lock_inv_def)
  then have "lr_arc r = lr_arc r'" using assms(6) by simp
  then show ?thesis using inv assms(2-5) unfolding lock_inv_def by blast
qed

text \<open>Two requests of the same client, and how far they get.\<close>

definition lock_demo :: inflight where
  "lock_demo = (let s = \<lparr>if_map = [], if_next = 0, if_requests = []\<rparr>;
     k = (''web'', ''10.0.0.1'', V4 5) in set_phase 1 Holding (lock_arrive 2 k (lock_arrive 1 k s)))"

theorem proxy_requests_exclusive_witness:
  "{j. \<exists>r. hm_get (if_requests lock_demo) j = Some r \<and> lr_phase r = Holding \<and> lr_key r = (''web'', ''10.0.0.1'', V4 5)} = {1}"
proof -
  let ?k = "(''web'', ''10.0.0.1'', V4 5)" and ?s = "\<lparr>if_map = [], if_next = 0, if_requests = []\<rparr>"
  note d = lock_arrive_def hm_get_def
  have "lock_reach (lock_arrive 2 ?k (lock_arrive 1 ?k ?s))"
    by (rule lock_reach.Step [OF lock_reach.Step [OF lock_reach.Start lock_step.Arrive] lock_step.Arrive]) (simp_all add: d)
  moreover have "lock_step (lock_arrive 2 ?k (lock_arrive 1 ?k ?s)) lock_demo" unfolding lock_demo_def Let_def
    by (rule lock_step.Lock [where r = "\<lparr>lr_key = ?k, lr_arc = 0, lr_phase = Waiting\<rparr>"]) (simp_all add: d)
  ultimately have reach: "lock_reach lock_demo" by (rule lock_reach.Step)
  have one: "hm_get (if_requests lock_demo) 1 = Some \<lparr>lr_key = ?k, lr_arc = 0, lr_phase = Holding\<rparr>" by code_simp
  have "1 = j" if "hm_get (if_requests lock_demo) j = Some r" "lr_phase r = Holding" "lr_key r = ?k" for j r
    by (rule proxy_requests_exclusive [OF reach one that(1)]) (simp_all add: that)
  moreover have "\<exists>r. hm_get (if_requests lock_demo) 1 = Some r \<and> lr_phase r = Holding \<and> lr_key r = ?k"
    by (intro exI conjI, rule one) simp_all
  ultimately show ?thesis by (intro set_eqI iffI) blast+
qed

section \<open>The hard cap of dedicated networks\<close>

type_synonym admissions = "(string \<times> string, nat) hmap"

definition admission_count :: "admissions \<Rightarrow> string \<times> string \<Rightarrow> nat" where
  "admission_count counts key = (case hm_get counts key of Some n \<Rightarrow> n | None \<Rightarrow> 0)"

definition admission_add :: "string \<times> string \<Rightarrow> admissions \<Rightarrow> admissions" where
  "admission_add key counts = hm_insert key (admission_count counts key + 1) counts"

definition dedicated_admission :: "string \<Rightarrow> string \<Rightarrow> nat \<Rightarrow> nat \<Rightarrow> admissions \<Rightarrow> admissions option" where
  "dedicated_admission stack service current max_networks counts = (let key = (stack, service) in
     if max_networks \<le> current + admission_count counts key then None else Some (admission_add key counts))"

text \<open>\<^verbatim>\<open>Drop for DedicatedAdmission\<close>; \<^const>\<open>None\<close> is its \<^verbatim>\<open>expect\<close>, or the subtraction from zero.\<close>

definition admission_drop :: "string \<times> string \<Rightarrow> admissions \<Rightarrow> admissions option" where
  "admission_drop key counts = do {
     n \<leftarrow> hm_get counts key;
     if n = 0 then None else Some (if n - 1 = 0 then hm_remove key counts else hm_insert key (n - 1) counts)
   }"

definition admissions_ok :: "admissions \<Rightarrow> bool" where
  "admissions_ok counts \<longleftrightarrow> hm_inv counts \<and> (\<forall>k n. hm_get counts k = Some n \<longrightarrow> 0 < n)"

interpretation admissions: refcount admission_count admission_add admission_drop admissions_ok
  by unfold_locales
    (auto simp: admissions_ok_def admission_count_def admission_add_def admission_drop_def split: option.splits if_splits)

text \<open>A service's admissions and drops in any order, all judged against the same number of networks.\<close>

fun admission_ops :: "string \<Rightarrow> string \<Rightarrow> nat \<Rightarrow> nat \<Rightarrow> bool list \<Rightarrow> admissions \<Rightarrow> admissions" where
  "admission_ops stack service current max_networks [] counts = counts"
| "admission_ops stack service current max_networks (enter # ops) counts = admission_ops stack service current max_networks ops
     (if enter then (case dedicated_admission stack service current max_networks counts of Some c \<Rightarrow> c | None \<Rightarrow> counts)
      else (case admission_drop (stack, service) counts of Some c \<Rightarrow> c | None \<Rightarrow> counts))"

text \<open>\<^bold>\<open>C28.\<close> Judged against a number of networks that does not change, the setups in flight never
  exceed what the cap leaves, however admissions and drops interleave.\<close>

theorem admissions_bounded:
  assumes "admissions_ok counts" "current + admission_count counts (stack, service) \<le> max_networks"
  shows "current + admission_count (admission_ops stack service current max_networks ops counts) (stack, service) \<le> max_networks"
  using assms
proof (induction ops arbitrary: counts)
  case (Cons enter ops)
  let ?k = "(stack, service)"
  define counts' where "counts' = (if enter then (case dedicated_admission stack service current max_networks counts of Some c \<Rightarrow> c | None \<Rightarrow> counts)
      else (case admission_drop ?k counts of Some c \<Rightarrow> c | None \<Rightarrow> counts))"
  have "admissions_ok counts' \<and> current + admission_count counts' ?k \<le> max_networks"
  proof (cases enter)
    case True
    then show ?thesis using Cons.prems admissions.ok_acquire [OF Cons.prems(1), of ?k] admissions.count_acquire [OF Cons.prems(1), of ?k ?k]
      by (auto simp: counts'_def dedicated_admission_def Let_def)
  next
    case False
    show ?thesis
    proof (cases "admission_count counts ?k = 0")
      case True
      then show ?thesis using False Cons.prems admissions.release_None [OF Cons.prems(1) True] by (simp add: counts'_def)
    next
      case pos: False
      obtain m where "admission_drop ?k counts = Some m" "admissions_ok m" "admission_count m ?k = admission_count counts ?k - 1"
        using admissions.release_Some [OF Cons.prems(1), of ?k] pos by auto
      then show ?thesis using False Cons.prems by (simp add: counts'_def)
    qed
  qed
  then show ?case using Cons.IH [of counts'] by (simp add: counts'_def)
qed simp

theorem admissions_bounded_witness:
  "1 + admission_count (admission_ops ''s'' ''web'' 1 2 [True, True, False, True, True] []) (''s'', ''web'') \<le> 2"
  by (rule admissions_bounded) (simp_all add: admissions_ok_def admission_count_def)

end
