(* ===== verification/Proxy_Requests.thy ===== *)
theory Proxy_Requests
  imports Proxy_Locks
begin

text \<open>
  Answering a proxy request (nullnet-server, \<^verbatim>\<open>nullnet_grpc_impl.rs\<close>, \<^verbatim>\<open>proxy_request_locked\<close> and what it
  calls), one function per critical section: the lookup, the sticky session, the eviction of a
  session whose chain broke, the reuse of a network under the cap, the decision of an attempt
  and what follows from its outcome.  The answer of the congestion controller is an argument,
  and so is the outcome of a chain setup, which \<^verbatim>\<open>Chain_Setup\<close> models.
\<close>

section \<open>Looking the service up\<close>

definition find_service_stack :: "stack_map \<Rightarrow> string \<Rightarrow> string option" where
  "find_service_stack stacks service_name = map_option fst (find (\<lambda>(_, m). hm_get m service_name \<noteq> None) stacks)"

datatype proxy_error =
    ServiceNotFound | NotEntryPoint | NotRegistered | StackNotFound | NoReplicas | SetupFailed | NoUpstream | EdgeDisappeared | TornDown

definition registered_at :: "stack_map \<Rightarrow> string \<Rightarrow> string \<Rightarrow> registered option" where
  "registered_at stacks stack name = (case hm_get stacks stack of None \<Rightarrow> None
     | Some services \<Rightarrow> (case hm_get services name of Some (Registered reg) \<Rightarrow> Some reg | _ \<Rightarrow> None))"

record proxy_snapshot =
  px_existing :: "upstream option"
  px_replica :: "identity option"
  px_max_networks :: "nat option"
  px_dedicated :: nat

text \<open>The stack was found under an earlier lock; \<^const>\<open>None\<close> is the panic of the indexing when it or the
  service is gone.\<close>

definition proxy_lookup :: "stack_map \<Rightarrow> string \<Rightarrow> string \<Rightarrow> client \<Rightarrow> (proxy_error + proxy_snapshot) option" where
  "proxy_lookup stacks stack service_name c = do {
     services \<leftarrow> hm_get stacks stack;
     info \<leftarrow> hm_get services service_name;
     Some (if si_timeout info = None then Inl NotEntryPoint else (case info of
         Unregistered _ \<Rightarrow> Inl NotRegistered
       | Registered reg \<Rightarrow> Inr \<lparr>px_existing = is_client_setup c reg, px_replica = client_replica c reg,
           px_max_networks = sc_max_networks (rg_config reg), px_dedicated = dedicated_proxy_networks_count reg\<rparr>))
   }"

section \<open>The sticky session\<close>

definition session_intact :: "stack_map \<Rightarrow> string \<Rightarrow> string \<Rightarrow> identity option \<Rightarrow> bool" where
  "session_intact stacks stack service_name replica = (case replica of
       Some (replica_ip, replica_docker) \<Rightarrow> (case hm_get stacks stack of
           Some services \<Rightarrow> dep_chain_intact service_name replica_ip replica_docker services | None \<Rightarrow> False)
     | None \<Rightarrow> False)"

definition with_registered :: "string \<Rightarrow> string \<Rightarrow> (registered \<Rightarrow> registered) \<Rightarrow> stack_map \<Rightarrow> stack_map" where
  "with_registered stack name f stacks = (case registered_at stacks stack name of
       Some reg \<Rightarrow> hm_modify stack (hm_insert name (Registered (f reg))) stacks | None \<Rightarrow> stacks)"

definition touch_session :: "instant \<Rightarrow> string \<Rightarrow> string \<Rightarrow> client \<Rightarrow> stack_map \<Rightarrow> stack_map" where
  "touch_session now stack service_name c = with_registered stack service_name (set_latest_now now c)"

definition evict_session :: "string \<Rightarrow> string \<Rightarrow> string \<Rightarrow> ip_addr \<Rightarrow> stack_map \<times> orch \<Rightarrow> (stack_map \<times> orch) option" where
  "evict_session stack service_name client_ip proxy_ip w =
     on_stack stack (apply_changes [StaleSessionEvicted service_name (client_new client_ip (Some proxy_ip))] None stack)
       (fst w, emit (StaleSessionEvictedEvent service_name client_ip proxy_ip) (snd w))"

definition recount :: "stack_map \<Rightarrow> string \<Rightarrow> string \<Rightarrow> proxy_error + nat option \<times> nat" where
  "recount stacks stack service_name = (case registered_at stacks stack service_name of
       None \<Rightarrow> Inl NotRegistered
     | Some reg \<Rightarrow> Inr (sc_max_networks (rg_config reg), dedicated_proxy_networks_count reg))"

section \<open>Joining a network under the cap\<close>

definition policy_eligible :: "orch \<Rightarrow> bool" where
  "policy_eligible st \<longleftrightarrow> o_net_type st = Vxlan \<and> o_encryption st"

definition add_chain_at :: "instant \<Rightarrow> client \<times> string \<Rightarrow> services \<Rightarrow> services" where
  "add_chain_at now e services = (case hm_get services (snd e) of
       Some (Registered reg) \<Rightarrow> hm_insert (snd e) (Registered (add_chain now (fst e) reg)) services | _ \<Rightarrow> services)"

type_synonym reused_network = "upstream \<times> u32 \<times> u32 \<times> u32 \<times> ip_addr \<times> string option \<times> nat"

definition join_network ::
  "instant \<Rightarrow> string \<Rightarrow> ip_addr \<Rightarrow> client \<Rightarrow> reused_network \<Rightarrow> registered \<Rightarrow> world \<Rightarrow> world option" where
  "join_network now service_name proxy_ip c network reg w = (case network of
     (up, client_net, server_net, net_id, replica_ip, replica_docker, setup_ms) \<Rightarrow> do {
       (_, reg, st) \<leftarrow> add_client_to_replica replica_ip replica_docker c
          (with_pool_generation now proxy_ip client_net server_net net_id setup_ms None (up_pool_generation up)) reg (snd w);
       let services = hm_insert service_name (Registered (add_chain now c reg)) (fst w);
       Some (fold (add_chain_at now) (collect_dep_chain_edges service_name replica_ip replica_docker services) services, st)
     })"

definition reuse_network ::
  "instant \<Rightarrow> string \<Rightarrow> ip_addr \<Rightarrow> client \<Rightarrow> world \<Rightarrow> ((nat \<times> reused_network) option \<times> world) option" where
  "reuse_network now service_name proxy_ip c w = (case hm_get (fst w) service_name of
       Some (Registered reg) \<Rightarrow> (case sc_max_networks (rg_config reg) of
           None \<Rightarrow> Some (None, w)
         | Some max_networks \<Rightarrow> if proxy_clients_count reg < max_networks then Some (None, w)
             else (case find_reusable_network_on_proxy proxy_ip reg of
                 None \<Rightarrow> Some (None, w)
               | Some network \<Rightarrow> map_option (\<lambda>w'. (Some (max_networks, network), w')) (join_network now service_name proxy_ip c network reg w)))
     | _ \<Rightarrow> Some (None, w))"

text \<open>The whole section: the reuse, the opened session row, and the event once the lock is released.\<close>

definition proxy_reuse ::
  "instant \<Rightarrow> string \<Rightarrow> string \<Rightarrow> ip_addr \<Rightarrow> string \<Rightarrow> nat option \<Rightarrow> stack_map \<times> orch \<Rightarrow> (upstream option \<times> stack_map \<times> orch) option" where
  "proxy_reuse now stack service_name proxy_ip client_ip max_networks w =
     (if max_networks = None \<or> policy_eligible (snd w) then Some (None, w)
      else (case hm_get (fst w) stack of
          None \<Rightarrow> Some (None, w)
        | Some services \<Rightarrow> do {
            (reuse, services, st) \<leftarrow> reuse_network now service_name proxy_ip (client_new client_ip (Some proxy_ip)) (services, snd w);
            let stacks = hm_insert stack services (fst w);
            Some (case reuse of
                None \<Rightarrow> (None, stacks, st)
              | Some (mx, up, client_net, server_net, net_id, _, _, setup_ms) \<Rightarrow> (Some up, stacks,
                  emit (MaxNetworksLimitEnforced service_name proxy_ip net_id mx)
                    (history (OpenIngress stack service_name net_id client_ip client_net server_net proxy_ip setup_ms) st)))
          }))"

section \<open>An attempt to build a chain\<close>

definition pick_proxy_replica :: "stack_map \<Rightarrow> string \<Rightarrow> string \<Rightarrow> proxy_error + identity" where
  "pick_proxy_replica stacks stack service_name = (case hm_get stacks stack of
       None \<Rightarrow> Inl StackNotFound
     | Some services \<Rightarrow> (case hm_get services service_name of
         Some (Registered reg) \<Rightarrow> (case pick_replica_least_clients reg of
             None \<Rightarrow> Inl NoReplicas | Some r \<Rightarrow> Inr (rp_ip r, rp_docker r))
       | _ \<Rightarrow> Inl NotRegistered))"

text \<open>What an attempt decides before it builds: whether it still holds an admission, whether its edge
  overflows into a group, whether that was the controller's answer \<^verbatim>\<open>allow\<close>, and whether the
  controller was asked at all.\<close>

record attempt =
  at_admission :: bool
  at_policy :: bool
  at_adaptive :: bool
  at_asked :: bool

definition attempt_decide ::
  "bool \<Rightarrow> bool \<Rightarrow> string \<Rightarrow> string \<Rightarrow> nat option \<Rightarrow> nat \<Rightarrow> admissions \<Rightarrow> (attempt \<times> admissions) option" where
  "attempt_decide allow eligible stack service_name max_networks dedicated_count counts = (let
       granted = (case max_networks of None \<Rightarrow> None | Some mx \<Rightarrow> dedicated_admission stack service_name dedicated_count mx counts);
       counts = (case granted of Some c \<Rightarrow> c | None \<Rightarrow> counts);
       hard_cap_allows_dedicated = (max_networks = None \<or> granted \<noteq> None);
       asked = (eligible \<and> hard_cap_allows_dedicated);
       adaptive_overflow = (asked \<and> \<not> allow);
       policy_overflow = (eligible \<and> (\<not> hard_cap_allows_dedicated \<or> adaptive_overflow))
     in do {
       counts \<leftarrow> (if adaptive_overflow \<and> granted \<noteq> None then admission_drop (stack, service_name) counts else Some counts);
       Some (\<lparr>at_admission = (granted \<noteq> None \<and> \<not> adaptive_overflow), at_policy = policy_overflow,
              at_adaptive = adaptive_overflow, at_asked = asked\<rparr>, counts)
     })"

text \<open>The edge and the branches of a chain setup, and the answer its outcome becomes.\<close>

record registered_edge =
  re_client :: "ip_addr \<times> client"
  re_server :: "ip_addr \<times> client"
  re_client_docker :: "string option"
  re_server_docker :: "string option"
  re_backend_entry_port :: "u32 option"
  re_egress :: bool
  re_policy :: bool

definition registered_edge_new :: "ip_addr \<Rightarrow> client \<Rightarrow> string option \<Rightarrow> ip_addr \<Rightarrow> client \<Rightarrow> string option \<Rightarrow> registered_edge" where
  "registered_edge_new client_ip c client_docker server_ip server server_docker = \<lparr>re_client = (client_ip, c),
     re_server = (server_ip, server), re_client_docker = client_docker, re_server_docker = server_docker,
     re_backend_entry_port = None, re_egress = False, re_policy = False\<rparr>"

definition proxy_chain_branches :: "stack_map \<Rightarrow> string \<Rightarrow> string \<Rightarrow> identity \<Rightarrow> proxy_error + chain_branch list" where
  "proxy_chain_branches stacks stack service_name replica = (case hm_get stacks stack of
       None \<Rightarrow> Inl StackNotFound
     | Some services \<Rightarrow> (case hm_get services service_name of
         None \<Rightarrow> Inl ServiceNotFound
       | Some (Unregistered _) \<Rightarrow> Inl NotRegistered
       | Some (Registered reg) \<Rightarrow> Inr (proxy_branches service_name (fst replica) (snd replica) reg)))"

definition proxy_chain_entry :: "string \<Rightarrow> ip_addr \<Rightarrow> string \<Rightarrow> identity \<Rightarrow> bool \<Rightarrow> registered_edge" where
  "proxy_chain_entry service_name proxy_ip client_ip replica policy =
     (registered_edge_new proxy_ip (client_new client_ip (Some proxy_ip)) None (fst replica) (client_new service_name None) (snd replica))
       \<lparr>re_policy := policy\<rparr>"

datatype chain_answer = Upstream upstream | Lost | Failed proxy_error

definition proxy_chain_answer :: "stack_map \<Rightarrow> string \<Rightarrow> string \<Rightarrow> client \<Rightarrow> chain_outcome \<Rightarrow> chain_answer" where
  "proxy_chain_answer stacks stack service_name c out = (case out of
       ChainFailed \<Rightarrow> Failed SetupFailed
     | OwnerLost \<Rightarrow> Lost
     | ChainBuilt None _ \<Rightarrow> Failed NoUpstream
     | ChainBuilt (Some _) _ \<Rightarrow> (case Option.bind (registered_at stacks stack service_name) (is_client_setup c) of
         None \<Rightarrow> Failed EdgeDisappeared | Some up \<Rightarrow> Upstream up))"

datatype loop_next = Answer "proxy_error + upstream" | Retry nat

definition attempt_end ::
  "nat \<Rightarrow> string \<Rightarrow> string \<Rightarrow> ip_addr \<Rightarrow> string \<Rightarrow> nat option \<Rightarrow> nat \<Rightarrow> attempt \<Rightarrow> chain_answer \<Rightarrow> stack_map \<times> orch \<Rightarrow> (loop_next \<times> orch) option" where
  "attempt_end attempt_no stack service_name proxy_ip client_ip max_networks dedicated_count a answer w = (let
       eligible = policy_eligible (snd w); failed = emit (ProxyChainSetupFailed service_name client_ip)
     in case answer of
       Upstream up \<Rightarrow> (if at_policy a \<and> \<not> at_adaptive a
         then (case Option.bind (registered_at (fst w) stack service_name) (client_net_id (client_new client_ip (Some proxy_ip))) of
             None \<Rightarrow> Some (Answer (Inr up), snd w)
           | Some net_id \<Rightarrow> map_option (\<lambda>mx. (Answer (Inr up), emit (MaxNetworksLimitEnforced service_name proxy_ip net_id mx) (snd w))) max_networks)
         else Some (Answer (Inr up), snd w))
     | Lost \<Rightarrow> Some (if attempt_no = 0
         then (if eligible
           then (case registered_at (fst w) stack service_name of
               None \<Rightarrow> (Answer (Inl TornDown), failed (snd w))
             | Some reg \<Rightarrow> (Retry (dedicated_proxy_networks_count reg), snd w))
           else (Retry dedicated_count, snd w))
         else (Answer (Inl TornDown), failed (emit (ChainOwnerLost stack) (snd w))))
     | Failed e \<Rightarrow> Some (Answer (Inl e), failed (snd w)))"

section \<open>Connections\<close>

definition with_proxy_client :: "string \<Rightarrow> ip_addr \<Rightarrow> string \<Rightarrow> (client \<Rightarrow> registered \<Rightarrow> registered) \<Rightarrow> stack_map \<Rightarrow> stack_map" where
  "with_proxy_client service_name proxy_ip client_ip f stacks = (case find_service_stack stacks service_name of
       None \<Rightarrow> stacks | Some stack \<Rightarrow> with_registered stack service_name (f (client_new client_ip (Some proxy_ip))) stacks)"

definition mark_connection_open :: "instant \<Rightarrow> string \<Rightarrow> ip_addr \<Rightarrow> string \<Rightarrow> stack_map \<Rightarrow> stack_map" where
  "mark_connection_open now service_name proxy_ip client_ip = with_proxy_client service_name proxy_ip client_ip (open_connection now)"

definition mark_connection_closed :: "instant \<Rightarrow> string \<Rightarrow> ip_addr \<Rightarrow> string \<Rightarrow> stack_map \<Rightarrow> stack_map" where
  "mark_connection_closed now service_name proxy_ip client_ip = with_proxy_client service_name proxy_ip client_ip (close_connection now)"

section \<open>Two races\<close>



end
