(* ===== verification/Chain_Holds.thy ===== *)
theory Chain_Holds
  imports Proxy_Requests
begin

text \<open>
  The holds of a chain: a proxy client that joins a network takes one on every edge of the
  dependency chain behind it, and its teardown gives one back on each.  Taking and giving back
  leaves every count as it was.
\<close>

section \<open>Entries and counts\<close>

definition entry_at :: "services \<Rightarrow> string \<Rightarrow> client \<Rightarrow> client_info option" where
  "entry_at sv n c = (case hm_get sv n of Some (Registered reg) \<Rightarrow> client_at c (rg_replicas reg) | _ \<Rightarrow> None)"

lemma client_at_modify:
  "client_at c' (rg_replicas (modify_client c f reg)) = (if c' = c then map_option f (client_at c (rg_replicas reg)) else client_at c' (rg_replicas reg))"
proof -
  have "client_at c (update_first (has_client c) (\<lambda>r. r\<lparr>rp_clients := cs_modify c f (rp_clients r)\<rparr>) rs) = map_option f (client_at c rs)" for rs
    by (induction rs) (auto simp: has_client_def cs_modify_def split: option.splits)
  then show ?thesis using same_but_client_at [OF modify_client_same_but, of c' c f reg] by (simp add: modify_client_def)
qed

lemma entry_at_add:
  "entry_at (add_chain_at now e sv) n c = (if (c, n) = e then map_option (add_active_chain now) (entry_at sv n c) else entry_at sv n c)"
  by (cases e) (auto simp: entry_at_def add_chain_at_def add_chain_def client_at_modify split: option.splits service_info.splits)

lemma add_active_chain_fields [simp]:
  "ci_active_chains (add_active_chain now ci) = Suc (ci_active_chains ci)" "ci_pending (add_active_chain now ci) = ci_pending ci"
  "ci_group_carrier (add_active_chain now ci) = ci_group_carrier ci"
  by (simp_all add: add_active_chain_def ci_set_latest_now_def)

lemma entry_at_adds:
  "map_option (\<lambda>ci. (ci_active_chains ci, ci_pending ci)) (entry_at (fold (add_chain_at now) es sv) n c) =
   map_option (\<lambda>ci. (ci_active_chains ci + count_list es (c, n), ci_pending ci)) (entry_at sv n c)"
  by (induction es arbitrary: sv) (auto simp: entry_at_add option.map_comp o_def)

lemma world_inv_add:
  assumes "world_inv sv"
  shows "world_inv (add_chain_at now e sv)"
proof (cases "\<exists>reg. hm_get sv (snd e) = Some (Registered reg)")
  case True
  then obtain reg where reg: "hm_get sv (snd e) = Some (Registered reg)" by blast
  have ri: "reg_inv reg" "sticky reg" using world_inv_get [OF assms reg] by auto
  have "sticky (add_chain now (fst e) reg)" unfolding sticky_def
  proof (intro ballI allI impI)
    fix r1 r2 c
    assume a: "r1 \<in> set (rg_replicas (add_chain now (fst e) reg))" "r2 \<in> set (rg_replicas (add_chain now (fst e) reg))" "has_client c r1 \<and> has_client c r2"
    have rel: "list_all2 (\<lambda>r r'. ident r' = ident r \<and> (has_client c r' \<longleftrightarrow> has_client c r)) (rg_replicas reg) (rg_replicas (add_chain now (fst e) reg))"
      unfolding add_chain_def modify_client_def by (simp, rule update_first_all2) (auto simp: cs_modify_def has_client_def)
    then have "\<exists>s \<in> set (rg_replicas reg). ident r = ident s \<and> (has_client c r \<longleftrightarrow> has_client c s)" if "r \<in> set (rg_replicas (add_chain now (fst e) reg))" for r
      using that by (induction rule: list_all2_induct) auto
    then show "ident r1 = ident r2" using a ri(2) unfolding sticky_def by metis
  qed
  then show ?thesis using reg add_chain_inv [OF ri(1)] assms by (auto simp: add_chain_at_def world_inv_def intro!: services_inv_insert)
next
  case False
  then show ?thesis using assms by (auto simp: add_chain_at_def split: option.splits service_info.splits)
qed

lemma world_inv_adds: "world_inv sv \<Longrightarrow> world_inv (fold (add_chain_at now) es sv)"
  by (induction es arbitrary: sv) (simp_all add: world_inv_add)

section \<open>Giving back\<close>

lemma remove_active_chains_add: "remove_active_chains i (remove_active_chains j ci) = remove_active_chains (i + j) ci"
  by (simp add: remove_active_chains_def diff_diff_left add.commute)

lemma client_at_find: "client_at c rs = Some ci \<Longrightarrow> \<exists>r. find (has_client c) rs = Some r \<and> hm_get (entries_of r) c = Some ci"
  by (induction rs) (auto simp: has_client_def split: option.splits if_splits)

lemma decrement_held:
  assumes "world_inv sv" "entry_at sv n c = Some ci" "ci_pending ci = None" "1 < ci_active_chains ci"
  obtains sv' where "on_registered n (decrement_chain c) (sv, st) = Some (sv', st)" "world_inv sv'"
    "\<forall>n' c'. entry_at sv' n' c' = (if n' = n \<and> c' = c then Some (remove_active_chains 1 ci) else entry_at sv n' c')"
proof -
  obtain reg where reg: "hm_get sv n = Some (Registered reg)" "client_at c (rg_replicas reg) = Some ci"
    using assms(2) by (auto simp: entry_at_def split: option.splits service_info.splits)
  have ri: "reg_inv reg" "sticky reg" using world_inv_get [OF assms(1) reg(1)] by auto
  obtain reg' st' where d: "decrement_chain c reg st = Some (reg', st')" "reg_inv reg'" "same_but c (rg_replicas reg) (rg_replicas reg')"
    "decrement_effect c (rg_replicas reg) st (rg_replicas reg') st'"
    by (rule decrement_chain_ok [OF ri(1)])
  obtain r where r: "find (has_client c) (rg_replicas reg) = Some r" "hm_get (entries_of r) c = Some ci" using client_at_find [OF reg(2)] by blast
  have e: "st' = st" "client_at c (rg_replicas reg') = Some (remove_active_chains 1 ci)"
    using d(4) r assms(3,4) by (auto simp: decrement_effect_def is_pending_def)
  obtain reg2 st2 where "decrement_chain c reg st = Some (reg2, st2)" "less_reg reg reg2" using decrement_chain_less [OF ri(1), of c st] by blast
  then have "sticky reg'" using d(1) less_reg_sticky ri(2) by auto
  then have "world_inv (hm_insert n (Registered reg') sv)" using assms(1) d(2) by (auto simp: world_inv_def intro!: services_inv_insert)
  then show thesis using that [of "hm_insert n (Registered reg') sv"] reg d(1) e same_but_client_at [OF d(3)]
    by (auto simp: on_registered_def entry_at_def)
qed

lemma decrement_edges_held:
  assumes "world_inv sv" "\<And>c n. (c, n) \<in> set es \<Longrightarrow> \<exists>ci. entry_at sv n c = Some ci \<and> ci_pending ci = None \<and> count_list es (c, n) < ci_active_chains ci"
  shows "\<exists>sv'. decrement_edges es (sv, st) = Some (sv', st) \<and>
    (\<forall>n c. entry_at sv' n c = map_option (remove_active_chains (count_list es (c, n))) (entry_at sv n c))"
  using assms
proof (induction es arbitrary: sv)
  case Nil
  have "remove_active_chains 0 = (\<lambda>ci. ci)" by (simp add: fun_eq_iff remove_active_chains_def)
  then show ?case by (simp add: decrement_edges_def option.map_ident)
next
  case (Cons e es)
  obtain c n where e: "e = (c, n)" by (cases e)
  obtain ci where ci: "entry_at sv n c = Some ci" "ci_pending ci = None" "count_list (e # es) (c, n) < ci_active_chains ci"
    using Cons.prems(2) [of c n] e by auto
  have gt: "1 < ci_active_chains ci" using ci(3) e by simp
  obtain sv1 where sv1: "on_registered n (decrement_chain c) (sv, st) = Some (sv1, st)" "world_inv sv1"
    "\<forall>n' c'. entry_at sv1 n' c' = (if n' = n \<and> c' = c then Some (remove_active_chains 1 ci) else entry_at sv n' c')"
    by (rule decrement_held [OF Cons.prems(1) ci(1,2) gt, where st = st])
  have "\<exists>ci. entry_at sv1 n' c' = Some ci \<and> ci_pending ci = None \<and> count_list es (c', n') < ci_active_chains ci" if "(c', n') \<in> set es" for c' n'
    using Cons.prems(2) [of c' n'] that ci e by (auto simp: sv1(3) split: if_splits)
  then obtain sv' where sv': "decrement_edges es (sv1, st) = Some (sv', st)"
    "\<forall>n c. entry_at sv' n c = map_option (remove_active_chains (count_list es (c, n))) (entry_at sv1 n c)"
    using Cons.IH [OF sv1(2)] by blast
  have "entry_at sv' n' c' = map_option (remove_active_chains (count_list (e # es) (c', n'))) (entry_at sv n' c')" for n' c'
    using sv'(2) ci(1) e by (auto simp: sv1(3) remove_active_chains_add)
  moreover have "decrement_edges (e # es) (sv, st) = Some (sv', st)" using sv1(1) sv'(1) e by (simp add: decrement_edges_def)
  ultimately show ?case by blast
qed

section \<open>The walk does not see counts\<close>

definition probe :: "services \<Rightarrow> string \<Rightarrow> client \<Rightarrow> identity option" where
  "probe sv n c = (case hm_get sv n of Some (Registered reg) \<Rightarrow> client_replica_live c reg | _ \<Rightarrow> None)"

lemma live_modify:
  assumes "\<And>ci. ci_pending (f ci) = ci_pending ci"
  shows "client_replica_live c' (modify_client c f reg) = client_replica_live c' reg"
proof -
  have "map_option ident (find (has_live_client c') (update_first (has_client c) (\<lambda>r. r\<lparr>rp_clients := cs_modify c f (rp_clients r)\<rparr>) rs)) =
      map_option ident (find (has_live_client c') rs)" for rs
    by (induction rs) (auto simp: has_live_client_def cs_modify_def is_pending_def assms split: option.splits)
  then show ?thesis by (simp add: client_replica_live_def modify_client_def)
qed

lemma probe_add: "probe (add_chain_at now e sv) n c = probe sv n c"
  by (auto simp: probe_def add_chain_at_def add_chain_def live_modify split: option.splits service_info.splits)

lemma probe_adds: "probe (fold (add_chain_at now) es sv) = probe sv"
  by (induction es arbitrary: sv) (simp_all add: probe_add fun_eq_iff)

lemma collect_branch_cong: "probe sv' = probe sv \<Longrightarrow> collect_branch sv' n ip docker deps = collect_branch sv n ip docker deps"
proof (induction deps arbitrary: n ip docker)
  case (Cons dep deps)
  have "emit_edge_and_probe_hop n ip docker dep sv' = emit_edge_and_probe_hop n ip docker dep sv"
    using Cons.prems unfolding emit_edge_and_probe_hop_def Let_def probe_def [symmetric] by simp
  then show ?case using Cons by (simp split: option.splits prod.splits)
qed simp

lemma deps_adds: "map_option si_proxy_deps (hm_get (fold (add_chain_at now) es sv) n) = map_option si_proxy_deps (hm_get sv n)"
proof (induction es arbitrary: sv)
  case (Cons e es)
  have "map_option si_proxy_deps (hm_get (add_chain_at now e sv) n) = map_option si_proxy_deps (hm_get sv n)"
    by (auto simp: add_chain_at_def add_chain_def modify_client_def split: option.splits service_info.splits)
  then show ?case using Cons [of "add_chain_at now e sv"] by simp
qed simp

lemma collect_edges_adds:
  "collect_dep_chain_edges n ip docker (fold (add_chain_at now) es sv) = collect_dep_chain_edges n ip docker sv"
proof (cases "hm_get sv n")
  case None
  then show ?thesis using deps_adds [of now es sv n] by (simp add: collect_dep_chain_edges_def)
next
  case (Some si)
  then obtain si' where "hm_get (fold (add_chain_at now) es sv) n = Some si'" "si_proxy_deps si' = si_proxy_deps si"
    using deps_adds [of now es sv n] by auto
  then show ?thesis using Some collect_branch_cong [OF probe_adds, of now es sv] by (simp add: collect_dep_chain_edges_def cong: map_cong)
qed

lemma edge_live_entry:
  assumes "world_inv sv" "edge_live sv (c, n)"
  obtains ci where "entry_at sv n c = Some ci" "ci_pending ci = None"
proof -
  obtain reg where reg: "hm_get sv n = Some (Registered reg)" "client_replica_live c reg \<noteq> None" using assms(2) by (auto simp: edge_live_def)
  have ri: "reg_inv reg" "sticky reg" using world_inv_get [OF assms(1) reg(1)] by auto
  obtain i where "client_replica_live c reg = Some i" using reg(2) by blast
  then obtain r where r: "r \<in> set (rg_replicas reg)" "live_at c r" using client_replica_live_Some [OF ri(2)] by blast
  then obtain ci where ci: "hm_get (entries_of r) c = Some ci" "ci_pending ci = None" by (auto simp: live_at_def is_pending_def)
  have "client_at c (rg_replicas reg) \<noteq> None" using r(1) ci(1) unfolding client_at_def find_map_None by force
  then obtain ci' r' where r': "client_at c (rg_replicas reg) = Some ci'" "find (has_client c) (rg_replicas reg) = Some r'" "hm_get (entries_of r') c = Some ci'"
    using client_at_find by blast
  have "r' \<in> set (rg_replicas reg)" "has_client c r'" using find_SomeD [OF r'(2)] by auto
  moreover have "has_client c r" using ci(1) by (simp add: has_client_def)
  ultimately have "ident r' = ident r" using ri(2) r(1) unfolding sticky_def by blast
  then have "r' = r" using ri(1) r(1) \<open>r' \<in> set (rg_replicas reg)\<close> by (simp add: reg_inv_def distinct_map inj_on_def)
  then show thesis using that [of ci] reg(1) r' ci by (simp add: entry_at_def)
qed

text \<open>\<^bold>\<open>C29.\<close> A client that takes a hold on every edge of an intact dependency chain, as one does that
  joins a network of another client, and whose chain is then torn down, leaves every edge with
  the number of holds it had, and no network is torn down.\<close>

theorem chain_holds_roundtrip:
  assumes "world_inv sv" "dep_chain_intact n ip docker sv"
    and "\<forall>n c ci. entry_at sv n c = Some ci \<longrightarrow> ci_pending ci = None \<longrightarrow> 0 < ci_active_chains ci"
  shows "\<exists>sv'. teardown_dep_chain n ip docker (fold (add_chain_at now) (collect_dep_chain_edges n ip docker sv) sv, st) = Some (sv', st) \<and>
    (\<forall>n c. map_option ci_active_chains (entry_at sv' n c) = map_option ci_active_chains (entry_at sv n c))"
proof -
  let ?es = "collect_dep_chain_edges n ip docker sv"
  let ?sv = "fold (add_chain_at now) ?es sv"
  have inv: "world_inv ?sv" using assms(1) by (rule world_inv_adds)
  have added: "\<exists>ci'. entry_at ?sv m c = Some ci' \<and> ci_pending ci' = ci_pending ci \<and> ci_active_chains ci' = ci_active_chains ci + count_list ?es (c, m)"
    if "entry_at sv m c = Some ci" for m c ci
    using entry_at_adds [of now ?es sv m c] that by (cases "entry_at ?sv m c") auto
  have "\<exists>ci. entry_at ?sv m c = Some ci \<and> ci_pending ci = None \<and> count_list ?es (c, m) < ci_active_chains ci" if "(c, m) \<in> set ?es" for c m
  proof -
    have "edge_live sv (c, m)" using assms(2) that unfolding dep_chain_intact_edges by blast
    then obtain ci where ci: "entry_at sv m c = Some ci" "ci_pending ci = None" by (rule edge_live_entry [OF assms(1)])
    then show ?thesis using added [OF ci(1)] assms(3) by fastforce
  qed
  then obtain sv' where sv': "decrement_edges ?es (?sv, st) = Some (sv', st)"
    "\<forall>m c. entry_at sv' m c = map_option (remove_active_chains (count_list ?es (c, m))) (entry_at ?sv m c)"
    using decrement_edges_held [OF inv] by blast
  have "map_option ci_active_chains (entry_at sv' m c) = map_option ci_active_chains (entry_at sv m c)" for m c
  proof (cases "entry_at sv m c")
    case None
    then have "entry_at ?sv m c = None" using entry_at_adds [of now ?es sv m c] by simp
    then show ?thesis using None sv'(2) by simp
  next
    case (Some ci)
    then show ?thesis using added [OF Some] sv'(2) by auto
  qed
  moreover have "teardown_dep_chain n ip docker (?sv, st) = Some (sv', st)" using sv'(1) by (simp add: teardown_dep_chain_def collect_edges_adds)
  ultimately show ?thesis by blast
qed

theorem chain_holds_roundtrip_witness:
  "\<exists>sv'. teardown_dep_chain ''web'' (V4 9) (Some ''web'')
      (fold (add_chain_at 3) (collect_dep_chain_edges ''web'' (V4 9) (Some ''web'') ex_stack) ex_stack, ex_orch) = Some (sv', ex_orch) \<and>
    map_option ci_active_chains (entry_at sv' ''db'' (client_new_service ''web'' (V4 9) (Some ''web''))) = Some 1"
proof -
  have "dep_chain_intact ''web'' (V4 9) (Some ''web'') ex_stack" by code_simp
  moreover have "\<forall>n c ci. entry_at ex_stack n c = Some ci \<longrightarrow> ci_pending ci = None \<longrightarrow> 0 < ci_active_chains ci"
    by (auto simp: entry_at_def ex_stack_def hm_get_def ex_replica_def ex_entry_def client_at_def split: if_splits option.splits)
  moreover have "map_option ci_active_chains (entry_at ex_stack ''db'' (client_new_service ''web'' (V4 9) (Some ''web''))) = Some 1" by code_simp
  ultimately show ?thesis using chain_holds_roundtrip [OF ex_stack_inv, of "''web''" "V4 9" "Some ''web''" 3 ex_orch] by metis
qed

section \<open>Attempts and the cap\<close>

text \<open>Deciding an attempt never panics and, on an encrypted overlay, builds a network of its own
  only when the service has no cap or the attempt holds one of the places the cap left; a place
  that is not used is given back at once, so that the admissions grow by exactly the place the
  attempt keeps.\<close>

theorem attempt_within_cap:
  assumes "admissions_ok counts"
  shows "\<exists>a counts'. attempt_decide allow eligible stack name max_networks dedicated counts = Some (a, counts') \<and>
    (eligible \<longrightarrow> \<not> at_policy a \<longrightarrow> max_networks = None \<or>
      at_admission a \<and> dedicated + admission_count counts (stack, name) < the max_networks) \<and>
    (\<forall>k. admission_count counts' k = admission_count counts k + (if k = (stack, name) \<and> at_admission a then 1 else 0))"
proof (cases "max_networks = None \<or> the max_networks \<le> dedicated + admission_count counts (stack, name)")
  case True
  then have "(case max_networks of None \<Rightarrow> None | Some mx \<Rightarrow> dedicated_admission stack name dedicated mx counts) = None"
    by (auto simp: dedicated_admission_def split: option.splits)
  then show ?thesis using True by (auto simp: attempt_decide_def Let_def)
next
  case False
  let ?counts = "admission_add (stack, name) counts"
  have g: "(case max_networks of None \<Rightarrow> None | Some mx \<Rightarrow> dedicated_admission stack name dedicated mx counts) = Some ?counts"
    using False by (auto simp: dedicated_admission_def split: option.splits)
  obtain m where m: "admission_drop (stack, name) ?counts = Some m" "admission_count m = admission_count counts"
    using admissions.release_acquire [OF assms] by blast
  show ?thesis
  proof (cases "eligible \<and> \<not> allow")
    case True
    then show ?thesis using g m by (simp add: attempt_decide_def Let_def)
  next
    case ok: False
    then show ?thesis using g False admissions.count_acquire [OF assms] by (auto simp: attempt_decide_def Let_def)
  qed
qed

theorem attempt_within_cap_witness:
  "\<exists>a counts'. attempt_decide True True ''s'' ''web'' (Some 2) 1 [] = Some (a, counts') \<and> admission_count counts' (''s'', ''web'') = 1"
proof -
  have "map_option (\<lambda>(a, _). (at_admission a, at_policy a)) (attempt_decide True True ''s'' ''web'' (Some 2) 1 []) = Some (True, False)" by code_simp
  moreover have "admissions_ok []" by (simp add: admissions_ok_def)
  ultimately show ?thesis using attempt_within_cap [of "[]" True True "''s''" "''web''" "Some 2" 1] by (auto simp: admission_count_def)
qed

end
