(* ===== verification/Floats.thy ===== *)
theory Floats
  imports Complex_Main
begin

text \<open>
  The double precision numbers of Rust (\<^verbatim>\<open>f64\<close>), as far as the server computes with them: finite
  numbers that are not negative.  A value is the rational it stands for, and an operation is the
  exact one followed by rounding to nearest with ties to even, which is how IEEE 754 defines it.
\<close>

type_synonym f64 = rat

function ilog2 :: "int \<Rightarrow> nat" where
  "ilog2 n = (if n \<le> 1 then 0 else Suc (ilog2 (n div 2)))"
  by pat_completeness auto

termination
  by (relation "measure nat") auto

declare ilog2.simps [simp del]

definition round_even :: "rat \<Rightarrow> int" where
  "round_even y = (let n = \<lfloor>y\<rfloor>; r = y - of_int n in
     if r < 1 / 2 \<or> (r = 1 / 2 \<and> even n) then n else n + 1)"

text \<open>In units of the least positive number \<open>2 ^ -1074\<close>, a number of \<open>b\<close> bits is a multiple of
  \<open>2 ^ (b - 53)\<close>.\<close>

definition round_units :: "rat \<Rightarrow> int" where
  "round_units y = (let u = 2 ^ (ilog2 \<lfloor>y\<rfloor> - 52) in u * round_even (y / of_int u))"

definition f64_round :: "rat \<Rightarrow> f64" where
  "f64_round x = of_int (round_units (x * 2 ^ 1074)) / 2 ^ 1074"

definition f64_add :: "f64 \<Rightarrow> f64 \<Rightarrow> f64" where
  "f64_add x y = f64_round (x + y)"

definition f64_sub :: "f64 \<Rightarrow> f64 \<Rightarrow> f64" where
  "f64_sub x y = f64_round (x - y)"

definition f64_mul :: "f64 \<Rightarrow> f64 \<Rightarrow> f64" where
  "f64_mul x y = f64_round (x * y)"

text \<open>\<^verbatim>\<open>Duration::as_secs_f64\<close> of a number of milliseconds.\<close>

definition as_secs_f64 :: "nat \<Rightarrow> f64" where
  "as_secs_f64 ms = f64_add (f64_round (of_nat (ms div 1000))) (f64_round (of_nat (ms mod 1000) / 1000))"

section \<open>Rounding is monotone and exact on small integers\<close>

lemma ilog2_bounds: "1 \<le> n \<Longrightarrow> 2 ^ ilog2 n \<le> n \<and> n < 2 ^ Suc (ilog2 n)"
proof (induction n rule: ilog2.induct)
  case (1 n)
  show ?case
  proof (cases "n \<le> 1")
    case True
    then show ?thesis using 1(2) by (simp add: ilog2.simps)
  next
    case False
    then have "2 ^ ilog2 (n div 2) \<le> n div 2 \<and> n div 2 < 2 ^ Suc (ilog2 (n div 2))" using 1 by simp
    moreover have "2 * (n div 2) \<le> n \<and> n < 2 * (n div 2) + 2" by linarith
    moreover have "ilog2 n = Suc (ilog2 (n div 2))" using False by (simp add: ilog2.simps [of n])
    ultimately show ?thesis by simp
  qed
qed

lemma ilog2_0 [simp]: "n \<le> 1 \<Longrightarrow> ilog2 n = 0"
  by (simp add: ilog2.simps)

lemma ilog2_less: "n < 2 ^ k \<Longrightarrow> 0 < k \<Longrightarrow> ilog2 n < k"
proof (cases "1 \<le> n")
  case True
  assume "n < 2 ^ k"
  then have "(2::int) ^ ilog2 n < 2 ^ k" using ilog2_bounds [OF True] by linarith
  then show ?thesis by simp
qed simp

lemma ilog2_mono: "m \<le> n \<Longrightarrow> ilog2 m \<le> ilog2 n"
proof (cases "1 \<le> m")
  case True
  assume "m \<le> n"
  then have "(2::int) ^ ilog2 m < 2 ^ Suc (ilog2 n)" using ilog2_bounds [OF True] ilog2_bounds [of n] True by linarith
  then show ?thesis by (simp only: power_strict_increasing_iff)
qed simp

lemma round_even_int [simp]: "round_even (of_int n) = n"
  by (simp add: round_even_def)

lemma round_even_mono: assumes "x \<le> y" shows "round_even x \<le> round_even y"
proof (cases "\<lfloor>x\<rfloor> = \<lfloor>y\<rfloor>")
  case True
  then show ?thesis using assms by (auto simp: round_even_def Let_def)
next
  case False
  then have "\<lfloor>x\<rfloor> + 1 \<le> \<lfloor>y\<rfloor>" using assms floor_mono [OF assms] by linarith
  moreover have "round_even x \<le> \<lfloor>x\<rfloor> + 1" "\<lfloor>y\<rfloor> \<le> round_even y" by (simp_all add: round_even_def Let_def)
  ultimately show ?thesis by linarith
qed

lemma round_units_multiple:
  assumes "2 ^ (ilog2 \<lfloor>y\<rfloor> - 52) dvd n"
  shows "y \<le> of_int n \<Longrightarrow> round_units y \<le> n" and "of_int n \<le> y \<Longrightarrow> n \<le> round_units y"
proof -
  let ?u = "2 ^ (ilog2 \<lfloor>y\<rfloor> - 52) :: int"
  obtain k where k: "n = ?u * k" using assms by (rule dvdE)
  have u: "(0::rat) < of_int ?u" "0 < ?u" by simp_all
  have eq: "(of_int n :: rat) / of_int ?u = of_int k" using k by simp
  show "round_units y \<le> n" if "y \<le> of_int n"
  proof -
    have "y / of_int ?u \<le> of_int k" using divide_right_mono [OF that, of "of_int ?u"] u(1) eq by linarith
    then have "round_even (y / of_int ?u) \<le> k" using round_even_mono round_even_int by metis
    then show ?thesis unfolding round_units_def Let_def k using u(2) by (simp add: mult_left_mono)
  qed
  show "n \<le> round_units y" if "of_int n \<le> y"
  proof -
    have "of_int k \<le> y / of_int ?u" using divide_right_mono [OF that, of "of_int ?u"] u(1) eq by linarith
    then have "k \<le> round_even (y / of_int ?u)" using round_even_mono round_even_int by metis
    then show ?thesis unfolding round_units_def Let_def k using u(2) by (simp add: mult_left_mono)
  qed
qed

lemma round_units_mono: assumes "x \<le> y" shows "round_units x \<le> round_units y"
proof -
  let ?a = "ilog2 \<lfloor>x\<rfloor> - 52" and ?b = "ilog2 \<lfloor>y\<rfloor> - 52"
  have le: "ilog2 \<lfloor>x\<rfloor> \<le> ilog2 \<lfloor>y\<rfloor>" by (rule ilog2_mono [OF floor_mono [OF assms]])
  show ?thesis
  proof (cases "?a = ?b")
    case True
    have "x / of_int (2 ^ ?b) \<le> y / of_int (2 ^ ?b)" using assms by (simp add: divide_right_mono)
    then have "round_even (x / of_int (2 ^ ?b)) \<le> round_even (y / of_int (2 ^ ?b))" by (rule round_even_mono)
    then show ?thesis unfolding round_units_def Let_def True by (simp add: mult_left_mono)
  next
    case False
    then have lt: "ilog2 \<lfloor>x\<rfloor> < ilog2 \<lfloor>y\<rfloor>" "52 < ilog2 \<lfloor>y\<rfloor>" using le by arith+
    let ?m = "2 ^ ilog2 \<lfloor>y\<rfloor> :: int"
    have y1: "1 \<le> \<lfloor>y\<rfloor>" using lt(2) by (cases "1 \<le> \<lfloor>y\<rfloor>") auto
    have "\<lfloor>x\<rfloor> < 2 ^ Suc (ilog2 \<lfloor>x\<rfloor>)"
    proof (cases "1 \<le> \<lfloor>x\<rfloor>")
      case True
      then show ?thesis using ilog2_bounds by blast
    next
      case False
      moreover have "(1::int) \<le> 2 ^ Suc (ilog2 \<lfloor>x\<rfloor>)" by (rule one_le_power) simp
      ultimately show ?thesis by linarith
    qed
    moreover have "(2::int) ^ Suc (ilog2 \<lfloor>x\<rfloor>) \<le> ?m" using lt(1) by (intro power_increasing) auto
    ultimately have "\<lfloor>x\<rfloor> < ?m" by linarith
    then have x: "x \<le> of_int ?m" by linarith
    have y: "of_int ?m \<le> y" using ilog2_bounds [OF y1] by linarith
    have "round_units x \<le> ?m" by (rule round_units_multiple(1) [OF _ x]) (use le in \<open>simp add: le_imp_power_dvd\<close>)
    moreover have "?m \<le> round_units y" by (rule round_units_multiple(2) [OF _ y]) (simp add: le_imp_power_dvd)
    ultimately show ?thesis by linarith
  qed
qed

lemma f64_round_mono: "x \<le> y \<Longrightarrow> f64_round x \<le> f64_round y"
proof -
  assume "x \<le> y"
  then have "round_units (x * 2 ^ 1074) \<le> round_units (y * 2 ^ 1074)"
    by (intro round_units_mono mult_right_mono) simp_all
  then show ?thesis unfolding f64_round_def by (intro divide_right_mono) simp_all
qed

lemma f64_round_int:
  assumes "0 \<le> n" "n < 2 ^ 53"
  shows "f64_round (of_int n) = of_int n"
proof -
  define M :: int where "M = 2 ^ 1074"
  have M: "(2::rat) ^ 1074 = of_int M" "0 < M" by (simp_all add: M_def)
  have "n * M < 2 ^ 53 * M" using assms(2) M(2) by (intro mult_strict_right_mono)
  also have "2 ^ 53 * M = 2 ^ 1127" unfolding M_def by (simp only: power_add [symmetric]) simp
  finally have "ilog2 (n * M) < 1127" by (intro ilog2_less) auto
  then have "ilog2 (n * M) - 52 \<le> 1074" by simp
  then have "(2::int) ^ (ilog2 (n * M) - 52) dvd M" unfolding M_def by (rule le_imp_power_dvd)
  then have d: "2 ^ (ilog2 \<lfloor>of_int (n * M) :: rat\<rfloor> - 52) dvd n * M" by (simp only: floor_of_int dvd_mult)
  have "round_units (of_int (n * M)) = n * M"
    by (rule antisym [OF round_units_multiple(1) [OF d order_refl] round_units_multiple(2) [OF d order_refl]])
  then show ?thesis unfolding f64_round_def M(1) using M(2) by (simp only: of_int_mult [symmetric]) simp
qed

lemma f64_round_nat:
  assumes "n < 2 ^ 53" shows "f64_round (of_nat n) = of_nat n"
proof -
  have "f64_round (of_int (int n)) = of_int (int n)"
    using assms by (intro f64_round_int) (simp_all flip: of_nat_less_iff)
  then show ?thesis by simp
qed

lemma f64_round_numerals [simp]: "f64_round 0 = 0" "f64_round 1 = 1" "f64_round 32 = 32"
  using f64_round_int [of 0] f64_round_int [of 1] f64_round_int [of 32] by simp_all

lemma f64_round_le_int: "x \<le> of_int n \<Longrightarrow> 0 \<le> n \<Longrightarrow> n < 2 ^ 53 \<Longrightarrow> f64_round x \<le> of_int n"
  using f64_round_mono [of x "of_int n"] f64_round_int [of n] by simp

lemma f64_round_pos: "0 \<le> x \<Longrightarrow> 0 \<le> f64_round x"
  using f64_round_mono [of 0 x] by simp

lemma as_secs_nonneg: "0 \<le> as_secs_f64 ms"
  by (simp add: as_secs_f64_def f64_add_def f64_round_pos)

lemma as_secs_0 [simp]: "as_secs_f64 0 = 0"
  by (simp add: as_secs_f64_def f64_add_def)

end
