(* ===== verification/Congestion.thy ===== *)
theory Congestion
  imports Clients Floats
begin

text \<open>
  The congestion controller (nullnet-server, \<^verbatim>\<open>congestion.rs\<close>): pressure windows of proxies and of
  tunnel setups, the token bucket of a host, and the decision whether a session gets a network of
  its own.  Instants and durations are milliseconds; counters keep their width, and \<^verbatim>\<open>+=\<close> wraps as
  it does in the release build.
\<close>

section \<open>Pressure windows\<close>

definition PRESSURE_WINDOW :: nat where "PRESSURE_WINDOW = 1000"

definition COMPLETION_HISTORY :: nat where "COMPLETION_HISTORY = 10000"

definition RECOVERY_QUIET :: nat where "RECOVERY_QUIET = 5000"

definition CONGESTED_WINDOWS :: u8 where "CONGESTED_WINDOWS = 2"

definition RECOVERY_WINDOWS :: u8 where "RECOVERY_WINDOWS = 2"

definition BUCKET_BURST :: f64 where "BUCKET_BURST = 32"

definition PRESSURE_HISTORY :: nat where "PRESSURE_HISTORY = 60"

definition TRANSITION_HISTORY :: nat where "TRANSITION_HISTORY = 20"

text \<open>\<^verbatim>\<open>saturating_add\<close> and \<^verbatim>\<open>saturating_sub\<close>.\<close>

definition saturating_add :: "'a::len word \<Rightarrow> 'a word \<Rightarrow> 'a word" where
  "saturating_add x y = (if x + y < x then - 1 else x + y)"

definition saturating_sub :: "'a::len word \<Rightarrow> 'a word \<Rightarrow> 'a word" where
  "saturating_sub x y = (if x < y then 0 else x - y)"

text \<open>\<^verbatim>\<open>VecDeque\<close> of bounded length: \<^verbatim>\<open>pop_front\<close> when full, then \<^verbatim>\<open>push_back\<close>.\<close>

definition push_bounded :: "nat \<Rightarrow> 'a \<Rightarrow> 'a list \<Rightarrow> 'a list" where
  "push_bounded n x q = (if length q = n then tl q else q) @ [x]"

record proxy_load =
  pl_epoch :: u64
  pl_arrivals :: u64
  pl_completions :: u64
  pl_waiters :: u32
  pl_wait_us :: u64

datatype trend = Congested | Healthy | Neutral

datatype pressure_trend = GrowingWindow | HealthyWindow | NeutralWindow

record pressure_window =
  pw_ended_at :: instant
  pw_duration :: nat
  pw_arrivals :: u64
  pw_completions :: u64
  pw_pending :: u32
  pw_mean_latency_us :: u64
  pw_trend :: pressure_trend

record pressure_view =
  pv_sequence :: u64
  pv_trend :: trend

record load_sample =
  ls_epoch :: u64
  ls_arrivals :: u64
  ls_completions :: u64
  ls_pending :: u32

record pressure =
  pr_window_started :: instant
  pr_start :: load_sample
  pr_last :: load_sample
  pr_latency_sum :: "128 word"
  pr_latency_samples :: u64
  pr_previous_latency_mean :: "u64 option"
  pr_stalled_is_growing :: bool
  pr_carry_boundary_latency :: bool
  pr_congested_windows :: u8
  pr_sequence :: u64
  pr_trend :: trend
  pr_last_observed :: instant
  pr_history :: "pressure_window list"

definition u128_of :: "u64 option \<Rightarrow> 128 word" where
  "u128_of latency = (case latency of None \<Rightarrow> 0 | Some l \<Rightarrow> ucast l)"

definition pressure_new :: "instant \<Rightarrow> load_sample \<Rightarrow> u64 option \<Rightarrow> bool \<Rightarrow> bool \<Rightarrow> pressure" where
  "pressure_new now sample latency_us stalled_is_growing carry_boundary_latency =
     \<lparr>pr_window_started = now, pr_start = sample, pr_last = sample,
      pr_latency_sum = u128_of latency_us, pr_latency_samples = (if latency_us \<noteq> None then 1 else 0),
      pr_previous_latency_mean = None, pr_stalled_is_growing = stalled_is_growing,
      pr_carry_boundary_latency = carry_boundary_latency, pr_congested_windows = 0,
      pr_sequence = 0, pr_trend = Neutral, pr_last_observed = now, pr_history = []\<rparr>"

definition pressure_reset :: "instant \<Rightarrow> load_sample \<Rightarrow> u64 option \<Rightarrow> pressure \<Rightarrow> pressure" where
  "pressure_reset now sample latency_us p =
     (pressure_new now sample latency_us (pr_stalled_is_growing p) (pr_carry_boundary_latency p))
       \<lparr>pr_sequence := saturating_add (pr_sequence p) 1, pr_history := pr_history p\<rparr>"

definition latency_mean :: "pressure \<Rightarrow> u64" where
  "latency_mean p = (if pr_latency_samples p = 0 then (case pr_previous_latency_mean p of None \<Rightarrow> 0 | Some m \<Rightarrow> m)
     else (let q = pr_latency_sum p div ucast (pr_latency_samples p) in if q \<le> 2 ^ 64 - 1 then ucast q else - 1))"

text \<open>A window that ended: how it is classified.\<close>

definition window_growing :: "u64 \<Rightarrow> u64 \<Rightarrow> u64 \<Rightarrow> pressure \<Rightarrow> bool" where
  "window_growing arrivals completions mean p = (let
       latency_rising = (case pr_previous_latency_mean p of None \<Rightarrow> True | Some previous \<Rightarrow> mean > previous);
       stalled = (pr_stalled_is_growing p \<and> arrivals > completions \<and> completions = 0)
     in arrivals > completions \<and> ls_pending (pr_last p) > ls_pending (pr_start p) \<and> (latency_rising \<or> stalled))"

definition window_healthy :: "u64 \<Rightarrow> u64 \<Rightarrow> u64 \<Rightarrow> pressure \<Rightarrow> bool" where
  "window_healthy arrivals completions mean p \<longleftrightarrow> arrivals \<le> completions \<and> ls_pending (pr_last p) \<le> ls_pending (pr_start p) \<and>
     (case pr_previous_latency_mean p of None \<Rightarrow> True
      | Some previous \<Rightarrow> mean \<le> saturating_add (saturating_add previous (previous div 10)) 100)"

definition close_window :: "instant \<Rightarrow> load_sample \<Rightarrow> u64 option \<Rightarrow> pressure \<Rightarrow> pressure" where
  "close_window now sample latency_us p = (let
       arrivals = ls_arrivals (pr_last p) - ls_arrivals (pr_start p);
       completions = ls_completions (pr_last p) - ls_completions (pr_start p);
       mean = latency_mean p;
       growing = window_growing arrivals completions mean p;
       healthy = window_healthy arrivals completions mean p;
       windows = saturating_add (pr_congested_windows p) 1
     in p\<lparr>pr_congested_windows := (if growing \<and> windows < CONGESTED_WINDOWS then windows else 0),
          pr_trend := (if growing then if windows \<ge> CONGESTED_WINDOWS then Congested else Neutral
                       else if healthy then Healthy else Neutral),
          pr_sequence := pr_sequence p + 1,
          pr_history := push_bounded PRESSURE_HISTORY \<lparr>pw_ended_at = now, pw_duration = now - pr_window_started p,
            pw_arrivals = arrivals, pw_completions = completions, pw_pending = ls_pending (pr_last p), pw_mean_latency_us = mean,
            pw_trend = (if growing then GrowingWindow else if healthy then HealthyWindow else NeutralWindow)\<rparr> (pr_history p),
          pr_previous_latency_mean := Some mean, pr_window_started := now, pr_start := sample, pr_last := sample,
          pr_latency_sum := (if pr_carry_boundary_latency p then u128_of latency_us else 0),
          pr_latency_samples := (if pr_carry_boundary_latency p \<and> latency_us \<noteq> None then 1 else 0)\<rparr>)"

definition pressure_observe :: "instant \<Rightarrow> load_sample \<Rightarrow> u64 option \<Rightarrow> pressure \<Rightarrow> pressure" where
  "pressure_observe now sample latency_us p =
     (if ls_epoch sample \<noteq> ls_epoch (pr_last p) then pressure_reset now sample latency_us p
      else if ls_arrivals sample < ls_arrivals (pr_last p) \<or> ls_completions sample < ls_completions (pr_last p) then p
      else (let p = p\<lparr>pr_last := sample, pr_last_observed := now\<rparr>;
                p = (if latency_us = None then p else p\<lparr>pr_latency_sum := pr_latency_sum p + u128_of latency_us,
                       pr_latency_samples := pr_latency_samples p + 1\<rparr>)
            in if now - pr_window_started p < PRESSURE_WINDOW then p else close_window now sample latency_us p))"

definition view_of :: "pressure \<Rightarrow> pressure_view" where
  "view_of p = \<lparr>pv_sequence = pr_sequence p, pv_trend = pr_trend p\<rparr>"

definition current_window :: "instant \<Rightarrow> pressure \<Rightarrow> pressure_window option" where
  "current_window now p = (let
       arrivals = ls_arrivals (pr_last p) - ls_arrivals (pr_start p);
       completions = ls_completions (pr_last p) - ls_completions (pr_start p);
       duration = min (now - pr_window_started p) PRESSURE_WINDOW
     in if arrivals = 0 \<and> completions = 0 \<and> ls_pending (pr_last p) = ls_pending (pr_start p) \<or> duration = 0 then None
        else Some \<lparr>pw_ended_at = pr_window_started p + duration, pw_duration = duration, pw_arrivals = arrivals,
          pw_completions = completions, pw_pending = ls_pending (pr_last p), pw_mean_latency_us = latency_mean p,
          pw_trend = NeutralWindow\<rparr>)"

section \<open>Setups in flight\<close>

record setup_pressure =
  sp_pressure :: pressure
  sp_arrivals :: u64
  sp_completions :: u64
  sp_pending :: u32

definition setup_sample :: "setup_pressure \<Rightarrow> load_sample" where
  "setup_sample s = \<lparr>ls_epoch = 0, ls_arrivals = sp_arrivals s, ls_completions = sp_completions s, ls_pending = sp_pending s\<rparr>"

definition setup_new :: "instant \<Rightarrow> setup_pressure" where
  "setup_new now = \<lparr>sp_pressure = pressure_new now \<lparr>ls_epoch = 0, ls_arrivals = 0, ls_completions = 0, ls_pending = 0\<rparr> None True False,
     sp_arrivals = 0, sp_completions = 0, sp_pending = 0\<rparr>"

definition setup_started :: "instant \<Rightarrow> setup_pressure \<Rightarrow> setup_pressure" where
  "setup_started now s = (let s = s\<lparr>sp_arrivals := saturating_add (sp_arrivals s) 1, sp_pending := saturating_add (sp_pending s) 1\<rparr>
     in s\<lparr>sp_pressure := pressure_observe now (setup_sample s) None (sp_pressure s)\<rparr>)"

definition setup_completed :: "instant \<Rightarrow> nat \<Rightarrow> setup_pressure \<Rightarrow> setup_pressure" where
  "setup_completed now latency s = (let
       s = s\<lparr>sp_completions := saturating_add (sp_completions s) 1, sp_pending := saturating_sub (sp_pending s) 1\<rparr>;
       latency_us = (if 1000 * latency < 2 ^ 64 then of_nat (1000 * latency) else - 1)
     in s\<lparr>sp_pressure := pressure_observe now (setup_sample s) (Some latency_us) (sp_pressure s)\<rparr>)"

section \<open>The rate of a host\<close>

datatype control_mode = Normal | Multiplexing | Recovery

record control_transition =
  ct_at :: instant
  ct_mode :: control_mode
  ct_source_proxy :: ip_addr

datatype pressure_source = ProxySource ip_addr | SetupSource ip_addr

record host_rate =
  hr_rate :: "f64 option"
  hr_tokens :: f64
  hr_last_refill :: instant
  hr_last_denied :: "instant option"
  hr_completions :: "instant list"
  hr_pressure_sequences :: "(pressure_source, u64) hmap"
  hr_healthy_windows :: u8
  hr_state_since :: "instant option"
  hr_source_proxy :: "ip_addr option"
  hr_transitions :: "control_transition list"

datatype rate_transition = Activated ip_addr | RecoveryStarted ip_addr | Recovered ip_addr

definition host_new :: "instant \<Rightarrow> host_rate" where
  "host_new now = \<lparr>hr_rate = None, hr_tokens = 0, hr_last_refill = now, hr_last_denied = None, hr_completions = [],
     hr_pressure_sequences = [], hr_healthy_windows = 0, hr_state_since = None, hr_source_proxy = None, hr_transitions = []\<rparr>"

definition mode_of :: "host_rate \<Rightarrow> control_mode" where
  "mode_of h = (case hr_rate h of None \<Rightarrow> Normal | Some r \<Rightarrow> if r = 0 then Multiplexing else Recovery)"

definition transition_to :: "control_mode \<Rightarrow> ip_addr \<Rightarrow> instant \<Rightarrow> host_rate \<Rightarrow> host_rate" where
  "transition_to mode proxy now h = h\<lparr>hr_state_since := Some now,
     hr_source_proxy := (if mode \<noteq> Normal then Some proxy else None),
     hr_transitions := push_bounded TRANSITION_HISTORY \<lparr>ct_at = now, ct_mode = mode, ct_source_proxy = proxy\<rparr> (hr_transitions h)\<rparr>"

definition trim_completions :: "instant \<Rightarrow> host_rate \<Rightarrow> host_rate" where
  "trim_completions now h = h\<lparr>hr_completions := dropWhile (\<lambda>t. now - t > COMPLETION_HISTORY) (hr_completions h)\<rparr>"

definition record_completion :: "instant \<Rightarrow> host_rate \<Rightarrow> host_rate" where
  "record_completion now h = (let h = trim_completions now h; c = hr_completions h
     in h\<lparr>hr_completions := (if c \<noteq> [] \<and> now - last c > RECOVERY_QUIET then [] else c) @ [now]\<rparr>)"

definition sustained_completions :: "instant \<Rightarrow> host_rate \<Rightarrow> bool \<times> host_rate" where
  "sustained_completions now h = (let h = trim_completions now h; c = hr_completions h
     in (c \<noteq> [] \<and> now - hd c \<ge> RECOVERY_QUIET \<and> now - last c \<le> RECOVERY_QUIET, h))"

definition denied :: "instant \<Rightarrow> host_rate \<Rightarrow> host_rate" where
  "denied now h = h\<lparr>hr_last_denied := Some now, hr_completions := []\<rparr>"

definition pressures_changed :: "(pressure_source \<times> pressure_view) list \<Rightarrow> host_rate \<Rightarrow> bool" where
  "pressures_changed pressures h \<longleftrightarrow> (\<exists>(source, pressure) \<in> set pressures.
     pv_sequence pressure > (case hm_get (hr_pressure_sequences h) source of None \<Rightarrow> 0 | Some n \<Rightarrow> n))"

definition overall_trend :: "(pressure_source \<times> pressure_view) list \<Rightarrow> trend" where
  "overall_trend pressures = (if \<exists>p \<in> set pressures. pv_trend (snd p) = Congested then Congested
     else if \<forall>p \<in> set pressures. pv_trend (snd p) = Healthy then Healthy else Neutral)"

definition apply_congested :: "ip_addr \<Rightarrow> ip_addr \<Rightarrow> instant \<Rightarrow> host_rate \<Rightarrow> host_rate \<times> rate_transition option" where
  "apply_congested host proxy now h = (let
       activating = (hr_rate h \<noteq> Some 0);
       h = (denied now (h\<lparr>hr_rate := Some 0, hr_tokens := 0, hr_last_refill := now\<rparr>))\<lparr>hr_healthy_windows := 0\<rparr>
     in if activating then (transition_to Multiplexing proxy now h, Some (Activated host)) else (h, None))"

text \<open>\<^verbatim>\<open>sustained_completions\<close> trims the history and is only asked when the other two conditions hold.\<close>

definition apply_healthy :: "ip_addr \<Rightarrow> ip_addr \<Rightarrow> instant \<Rightarrow> host_rate \<Rightarrow> host_rate \<times> rate_transition option" where
  "apply_healthy host proxy now h = (case hr_rate h of
       None \<Rightarrow> (h, None)
     | Some r \<Rightarrow> (let h = h\<lparr>hr_healthy_windows := saturating_add (hr_healthy_windows h) 1\<rparr>
         in if hr_healthy_windows h < RECOVERY_WINDOWS then (h, None)
            else (let
                h = h\<lparr>hr_rate := Some (f64_add r 1)\<rparr>;
                quiet = (case hr_last_denied h of None \<Rightarrow> False | Some t \<Rightarrow> now - t \<ge> RECOVERY_QUIET);
                (recovered, h) = (if quiet \<and> hr_tokens h \<ge> BUCKET_BURST then sustained_completions now h else (False, h))
              in if recovered then (transition_to Normal proxy now (h\<lparr>hr_rate := None, hr_tokens := 0\<rparr>), Some (Recovered host))
                 else if r = 0 then (transition_to Recovery proxy now h, Some (RecoveryStarted host))
                 else (h, None))))"

definition apply_all :: "ip_addr \<Rightarrow> ip_addr \<Rightarrow> (pressure_source \<times> pressure_view) list \<Rightarrow> instant \<Rightarrow> host_rate \<Rightarrow> host_rate \<times> rate_transition option" where
  "apply_all host proxy pressures now h =
     (if \<not> pressures_changed pressures h then (h, None)
      else (let h = h\<lparr>hr_pressure_sequences := fold (\<lambda>(source, p). hm_insert source (pv_sequence p)) pressures (hr_pressure_sequences h)\<rparr>
        in case overall_trend pressures of
             Congested \<Rightarrow> apply_congested host proxy now h
           | Healthy \<Rightarrow> apply_healthy host proxy now h
           | Neutral \<Rightarrow> (if hr_rate h = Some 0 then h\<lparr>hr_healthy_windows := 0\<rparr> else h, None)))"

definition refill :: "instant \<Rightarrow> host_rate \<Rightarrow> host_rate" where
  "refill now h = (case hr_rate h of
       None \<Rightarrow> h\<lparr>hr_last_refill := now\<rparr>
     | Some r \<Rightarrow> h\<lparr>hr_tokens := min (f64_add (hr_tokens h) (f64_mul (as_secs_f64 (now - hr_last_refill h)) r)) BUCKET_BURST,
         hr_last_refill := now\<rparr>)"

section \<open>The controller\<close>

record congestion =
  cg_proxies :: "(ip_addr, pressure) hmap"
  cg_setups :: "(ip_addr, setup_pressure) hmap"
  cg_hosts :: "(ip_addr, host_rate) hmap"

definition congestion_new :: congestion where
  "congestion_new = \<lparr>cg_proxies = [], cg_setups = [], cg_hosts = []\<rparr>"

definition observe_proxy :: "ip_addr \<Rightarrow> proxy_load \<Rightarrow> instant \<Rightarrow> congestion \<Rightarrow> congestion" where
  "observe_proxy proxy sample now st = (let
       load = \<lparr>ls_epoch = pl_epoch sample, ls_arrivals = pl_arrivals sample, ls_completions = pl_completions sample, ls_pending = pl_waiters sample\<rparr>
     in st\<lparr>cg_proxies := hm_insert proxy (case hm_get (cg_proxies st) proxy of
            Some pressure \<Rightarrow> pressure_observe now load (Some (pl_wait_us sample)) pressure
          | None \<Rightarrow> pressure_new now load (Some (pl_wait_us sample)) False True) (cg_proxies st)\<rparr>)"

record setup_attempt =
  sa_host :: ip_addr
  sa_started :: instant

definition setup_attempt_new :: "ip_addr \<Rightarrow> instant \<Rightarrow> congestion \<Rightarrow> setup_attempt \<times> congestion" where
  "setup_attempt_new host now st = (\<lparr>sa_host = host, sa_started = now\<rparr>,
     st\<lparr>cg_setups := hm_insert host (setup_started now
       (case hm_get (cg_setups st) host of Some s \<Rightarrow> s | None \<Rightarrow> setup_new now)) (cg_setups st)\<rparr>)"

definition setup_attempt_drop :: "setup_attempt \<Rightarrow> instant \<Rightarrow> congestion \<Rightarrow> congestion option" where
  "setup_attempt_drop a now st = (case hm_get (cg_setups st) (sa_host a) of
       None \<Rightarrow> None
     | Some s \<Rightarrow> Some (st\<lparr>cg_setups := hm_insert (sa_host a) (setup_completed now (now - sa_started a) s) (cg_setups st)\<rparr>))"

definition host_entry :: "instant \<Rightarrow> ip_addr \<Rightarrow> congestion \<Rightarrow> host_rate" where
  "host_entry now host st = (case hm_get (cg_hosts st) host of Some h \<Rightarrow> h | None \<Rightarrow> host_new now)"

definition host_pressures :: "ip_addr \<Rightarrow> ip_addr \<Rightarrow> congestion \<Rightarrow> ip_addr \<Rightarrow> (pressure_source \<times> pressure_view) list" where
  "host_pressures proxy destination st host =
     (if host = proxy then (case hm_get (cg_proxies st) proxy of
         None \<Rightarrow> [] | Some p \<Rightarrow> [(ProxySource proxy, view_of p)]) else []) @
     (if host = destination then (case hm_get (cg_setups st) destination of
         None \<Rightarrow> [] | Some s \<Rightarrow> [(SetupSource destination, view_of (sp_pressure s))]) else [])"

definition judge_host ::
  "ip_addr \<Rightarrow> ip_addr \<Rightarrow> instant \<Rightarrow> ip_addr \<Rightarrow> congestion \<times> rate_transition list \<Rightarrow> congestion \<times> rate_transition list" where
  "judge_host proxy destination now host s = (let
       st = fst s;
       (h, transition) = apply_all host proxy (host_pressures proxy destination st host) now (refill now (host_entry now host st))
     in (st\<lparr>cg_hosts := hm_insert host h (cg_hosts st)\<rparr>, snd s @ (case transition of None \<Rightarrow> [] | Some t \<Rightarrow> [t])))"

definition path_hosts :: "ip_addr \<Rightarrow> ip_addr \<Rightarrow> ip_addr list" where
  "path_hosts proxy destination = (if proxy = destination then [proxy] else [proxy, destination])"

record admission_decision =
  ad_dedicated :: bool
  ad_transitions :: "rate_transition list"

definition has_token :: "host_rate \<Rightarrow> bool" where
  "has_token h \<longleftrightarrow> hr_rate h = None \<or> hr_tokens h \<ge> 1"

definition take_token :: "ip_addr \<Rightarrow> congestion \<Rightarrow> congestion option" where
  "take_token host st = (case hm_get (cg_hosts st) host of
       None \<Rightarrow> None
     | Some h \<Rightarrow> Some (if hr_rate h \<noteq> None then st\<lparr>cg_hosts := hm_insert host (h\<lparr>hr_tokens := f64_sub (hr_tokens h) 1\<rparr>) (cg_hosts st)\<rparr> else st))"

definition deny_host :: "instant \<Rightarrow> ip_addr \<Rightarrow> congestion \<Rightarrow> congestion option" where
  "deny_host now host st = (case hm_get (cg_hosts st) host of
       None \<Rightarrow> None
     | Some h \<Rightarrow> Some (if hr_rate h \<noteq> None \<and> hr_tokens h < 1 then st\<lparr>cg_hosts := hm_insert host (denied now h) (cg_hosts st)\<rparr> else st))"

definition allow_dedicated :: "ip_addr \<Rightarrow> ip_addr \<Rightarrow> instant \<Rightarrow> congestion \<Rightarrow> (admission_decision \<times> congestion) option" where
  "allow_dedicated proxy destination now st = (let
       hosts = path_hosts proxy destination;
       (st, transitions) = fold (judge_host proxy destination now) hosts (st, [])
     in do {
       rates \<leftarrow> those (map (hm_get (cg_hosts st)) hosts);
       let allowed = list_all has_token rates;
       st \<leftarrow> foldM (if allowed then take_token else deny_host now) hosts st;
       Some (\<lparr>ad_dedicated = allowed, ad_transitions = transitions\<rparr>, st)
     })"

definition record_dedicated_completion :: "ip_addr \<Rightarrow> ip_addr \<Rightarrow> instant \<Rightarrow> congestion \<Rightarrow> congestion" where
  "record_dedicated_completion proxy destination now st =
     fold (\<lambda>host st. st\<lparr>cg_hosts := hm_insert host (record_completion now (host_entry now host st)) (cg_hosts st)\<rparr>)
       (path_hosts proxy destination) st"

section \<open>What the dashboard shows\<close>

record pressure_window_snapshot =
  ws_age :: nat
  ws_duration :: nat
  ws_arrivals :: u64
  ws_completions :: u64
  ws_pending :: u32
  ws_mean_latency_us :: u64
  ws_trend :: pressure_trend

record control_transition_snapshot =
  ts_mode :: control_mode
  ts_age :: nat
  ts_source_proxy :: ip_addr

record host_status_snapshot =
  hs_mode :: control_mode
  hs_state_age :: "nat option"
  hs_rate_per_sec :: "f64 option"
  hs_tokens :: "f64 option"
  hs_last_token_shortage_age :: "nat option"
  hs_source_proxy :: "ip_addr option"
  hs_transitions :: "control_transition_snapshot list"

record node_congestion_snapshot =
  ns_proxy_pressure_age :: "nat option"
  ns_proxy_windows :: "pressure_window_snapshot list"
  ns_setup_pressure_age :: "nat option"
  ns_setup_windows :: "pressure_window_snapshot list"
  ns_control :: "host_status_snapshot option"

definition windows_snapshot :: "instant \<Rightarrow> pressure option \<Rightarrow> pressure_window_snapshot list" where
  "windows_snapshot now p = (case p of None \<Rightarrow> []
     | Some p \<Rightarrow> map (\<lambda>w. \<lparr>ws_age = now - pw_ended_at w, ws_duration = pw_duration w, ws_arrivals = pw_arrivals w,
         ws_completions = pw_completions w, ws_pending = pw_pending w, ws_mean_latency_us = pw_mean_latency_us w, ws_trend = pw_trend w\<rparr>)
         (pr_history p @ (case current_window now p of None \<Rightarrow> [] | Some w \<Rightarrow> [w])))"

definition control_snapshot :: "instant \<Rightarrow> host_rate \<Rightarrow> host_status_snapshot" where
  "control_snapshot now h = \<lparr>hs_mode = mode_of h, hs_state_age = map_option (\<lambda>t. now - t) (hr_state_since h),
     hs_rate_per_sec = hr_rate h,
     hs_tokens = map_option (\<lambda>r. min (f64_add (hr_tokens h) (f64_mul (as_secs_f64 (now - hr_last_refill h)) r)) BUCKET_BURST) (hr_rate h),
     hs_last_token_shortage_age = map_option (\<lambda>t. now - t) (hr_last_denied h), hs_source_proxy = hr_source_proxy h,
     hs_transitions = map (\<lambda>t. \<lparr>ts_mode = ct_mode t, ts_age = now - ct_at t, ts_source_proxy = ct_source_proxy t\<rparr>) (rev (hr_transitions h))\<rparr>"

definition node_snapshot :: "instant \<Rightarrow> congestion \<Rightarrow> ip_addr \<Rightarrow> node_congestion_snapshot" where
  "node_snapshot now st node = (let
       proxy = hm_get (cg_proxies st) node; setup = map_option sp_pressure (hm_get (cg_setups st) node)
     in \<lparr>ns_proxy_pressure_age = map_option (\<lambda>p. now - pr_last_observed p) proxy, ns_proxy_windows = windows_snapshot now proxy,
         ns_setup_pressure_age = map_option (\<lambda>p. now - pr_last_observed p) setup, ns_setup_windows = windows_snapshot now setup,
         ns_control = map_option (control_snapshot now) (hm_get (cg_hosts st) node)\<rparr>)"

definition snapshots :: "instant \<Rightarrow> ip_addr list \<Rightarrow> congestion \<Rightarrow> (ip_addr, node_congestion_snapshot) hmap" where
  "snapshots now nodes st = fold (\<lambda>node. hm_insert node (node_snapshot now st node)) nodes []"

end
