(* ===== verification/Congestion_Props.thy ===== *)
theory Congestion_Props
  imports Congestion
begin

text \<open>
  The congestion controller in every state it can reach: its records stay well-formed and no
  step panics, the mode of a host moves in a cycle, and a restricted host admits no more sessions
  at once than its bucket holds.
\<close>

section \<open>Well-formed records\<close>

definition pressure_inv :: "pressure \<Rightarrow> bool" where
  "pressure_inv p \<longleftrightarrow> ls_epoch (pr_start p) = ls_epoch (pr_last p) \<and>
     ls_arrivals (pr_start p) \<le> ls_arrivals (pr_last p) \<and> ls_completions (pr_start p) \<le> ls_completions (pr_last p) \<and>
     length (pr_history p) \<le> PRESSURE_HISTORY \<and> pr_congested_windows p < CONGESTED_WINDOWS"

fun mode_move :: "control_mode \<Rightarrow> control_mode \<Rightarrow> bool" where
  "mode_move Normal m = (m = Multiplexing)"
| "mode_move Multiplexing m = (m = Recovery)"
| "mode_move Recovery m = (m = Normal \<or> m = Multiplexing)"

definition log_ok :: "control_transition list \<Rightarrow> control_mode \<Rightarrow> bool" where
  "log_ok ts m \<longleftrightarrow> length ts \<le> TRANSITION_HISTORY \<and> successively mode_move (map ct_mode ts) \<and>
     (if ts = [] then m = Normal else ct_mode (last ts) = m)"

definition bucket_ok :: "f64 option \<Rightarrow> f64 \<Rightarrow> bool" where
  "bucket_ok rate tokens \<longleftrightarrow> 0 \<le> tokens \<and> tokens \<le> BUCKET_BURST \<and>
     (case rate of None \<Rightarrow> tokens = 0 | Some r \<Rightarrow> 0 \<le> r \<and> (r = 0 \<longrightarrow> tokens = 0))"

definition host_inv :: "host_rate \<Rightarrow> bool" where
  "host_inv h \<longleftrightarrow> bucket_ok (hr_rate h) (hr_tokens h) \<and> log_ok (hr_transitions h) (mode_of h) \<and>
     (hr_rate h \<noteq> None \<longrightarrow> hr_last_denied h \<noteq> None)"

lemma length_push_bounded: "length q \<le> n \<Longrightarrow> 0 < n \<Longrightarrow> length (push_bounded n x q) \<le> n"
  by (auto simp: push_bounded_def)

lemma saturating_add_ge: "x \<le> saturating_add x y"
  by (simp add: saturating_add_def not_less)

lemma pressure_inv_new: "pressure_inv (pressure_new now s l a b)"
  by (simp add: pressure_inv_def pressure_new_def CONGESTED_WINDOWS_def)

lemma pressure_inv_reset: "pressure_inv p \<Longrightarrow> pressure_inv (pressure_reset now s l p)"
  by (simp add: pressure_inv_def pressure_reset_def pressure_new_def CONGESTED_WINDOWS_def)

lemma pressure_inv_close: "pressure_inv p \<Longrightarrow> pressure_inv (close_window now s l p)"
  by (auto simp: pressure_inv_def close_window_def Let_def length_push_bounded PRESSURE_HISTORY_def CONGESTED_WINDOWS_def)

lemma pressure_inv_last:
  "pressure_inv p \<Longrightarrow> ls_epoch s = ls_epoch (pr_last p) \<Longrightarrow> ls_arrivals (pr_last p) \<le> ls_arrivals s \<Longrightarrow>
   ls_completions (pr_last p) \<le> ls_completions s \<Longrightarrow> pr_start p' = pr_start p \<Longrightarrow> pr_last p' = s \<Longrightarrow>
   pr_history p' = pr_history p \<Longrightarrow> pr_congested_windows p' = pr_congested_windows p \<Longrightarrow> pressure_inv p'"
  unfolding pressure_inv_def by (metis order_trans)

definition with_sample :: "instant \<Rightarrow> load_sample \<Rightarrow> u64 option \<Rightarrow> pressure \<Rightarrow> pressure" where
  "with_sample now s l p = (let p = p\<lparr>pr_last := s, pr_last_observed := now\<rparr> in
     if l = None then p else p\<lparr>pr_latency_sum := pr_latency_sum p + u128_of l, pr_latency_samples := pr_latency_samples p + 1\<rparr>)"

lemma observe_cases:
  "pressure_observe now s l p =
     (if ls_epoch s \<noteq> ls_epoch (pr_last p) then pressure_reset now s l p
      else if ls_arrivals s < ls_arrivals (pr_last p) \<or> ls_completions s < ls_completions (pr_last p) then p
      else if now - pr_window_started (with_sample now s l p) < PRESSURE_WINDOW then with_sample now s l p
      else close_window now s l (with_sample now s l p))"
  unfolding pressure_observe_def with_sample_def Let_def by (rule refl)

lemma with_sample_fields [simp]:
  "pr_start (with_sample now s l p) = pr_start p" "pr_last (with_sample now s l p) = s"
  "pr_history (with_sample now s l p) = pr_history p" "pr_congested_windows (with_sample now s l p) = pr_congested_windows p"
  by (simp_all add: with_sample_def Let_def)

lemma close_window_last [simp]: "pr_last (close_window now s l p) = s"
  by (simp add: close_window_def Let_def)

lemma pressure_inv_observe: "pressure_inv p \<Longrightarrow> pressure_inv (pressure_observe now s l p)"
  unfolding observe_cases
  using pressure_inv_reset pressure_inv_close pressure_inv_last [of p s "with_sample now s l p"]
  by (auto simp: not_less)

lemma observe_last:
  "ls_epoch s = ls_epoch (pr_last p) \<Longrightarrow> ls_arrivals (pr_last p) \<le> ls_arrivals s \<Longrightarrow> ls_completions (pr_last p) \<le> ls_completions s \<Longrightarrow>
   pr_last (pressure_observe now s l p) = s"
  by (simp add: observe_cases)

section \<open>One host\<close>

lemma log_push:
  assumes "log_ok ts m" "mode_move m (ct_mode t)"
  shows "log_ok (push_bounded TRANSITION_HISTORY t ts) (ct_mode t)"
proof -
  have n: "1 < TRANSITION_HISTORY" by (simp add: TRANSITION_HISTORY_def)
  define q where "q = (if length ts = TRANSITION_HISTORY then tl ts else ts)"
  have "successively mode_move (map ct_mode (tl ts))" using assms(1) by (cases ts) (auto simp: log_ok_def successively_Cons)
  then have "successively mode_move (map ct_mode q)" using assms(1) by (simp add: q_def log_ok_def)
  moreover have "q \<noteq> [] \<Longrightarrow> ct_mode (last q) = m" using assms(1) by (cases ts) (auto simp: q_def log_ok_def split: if_splits)
  moreover have "m = Normal" if "q = []"
  proof -
    have "ts = []" using that n by (cases ts) (auto simp: q_def split: if_splits)
    then show ?thesis using assms(1) by (simp add: log_ok_def)
  qed
  ultimately have "successively mode_move (map ct_mode (q @ [t]))"
    using assms(2) by (cases "q = []") (simp_all add: successively_append_iff last_map)
  moreover have "push_bounded TRANSITION_HISTORY t ts = q @ [t]" by (simp add: q_def push_bounded_def)
  moreover have "length (push_bounded TRANSITION_HISTORY t ts) \<le> TRANSITION_HISTORY"
    using assms(1) n by (intro length_push_bounded) (auto simp: log_ok_def)
  ultimately show ?thesis unfolding log_ok_def by simp
qed

definition transition_event :: "ip_addr \<Rightarrow> control_mode \<Rightarrow> rate_transition" where
  "transition_event host m = (case m of Normal \<Rightarrow> Recovered host | Multiplexing \<Rightarrow> Activated host | Recovery \<Rightarrow> RecoveryStarted host)"

text \<open>What judging a host may do: nothing to its mode, silently, or one move of the cycle, reported.\<close>

definition judged :: "ip_addr \<Rightarrow> host_rate \<Rightarrow> host_rate \<times> rate_transition option \<Rightarrow> bool" where
  "judged host h r \<longleftrightarrow> host_inv (fst r) \<and> hr_tokens (fst r) \<le> hr_tokens h \<and> hr_last_refill (fst r) = hr_last_refill h \<and>
     (mode_of (fst r) = mode_of h \<and> snd r = None \<or>
      mode_move (mode_of h) (mode_of (fst r)) \<and> snd r = Some (transition_event host (mode_of (fst r))))"

lemma host_inv_new: "host_inv (host_new now)"
  by (simp add: host_inv_def host_new_def bucket_ok_def log_ok_def mode_of_def BUCKET_BURST_def)

lemma host_inv_frame:
  "host_inv h \<Longrightarrow> hr_rate h' = hr_rate h \<Longrightarrow> hr_tokens h' = hr_tokens h \<Longrightarrow> hr_transitions h' = hr_transitions h \<Longrightarrow>
   hr_last_denied h' = hr_last_denied h \<or> hr_last_denied h' \<noteq> None \<Longrightarrow> host_inv h'"
  by (auto simp: host_inv_def mode_of_def)

lemma f64_succ_pos: "0 \<le> r \<Longrightarrow> 1 \<le> f64_add r 1"
  using f64_round_mono [of 1 "r + 1"] by (simp add: f64_add_def)

lemma host_inv_move:
  assumes "host_inv h" "mode_move (mode_of h) m" "mode_of h' = m" "bucket_ok (hr_rate h') (hr_tokens h')"
    and "hr_last_denied h' \<noteq> None \<or> m = Normal" "hr_transitions h' = hr_transitions h"
  shows "host_inv (transition_to m proxy now h')"
proof -
  have "mode_of (transition_to m proxy now h') = m" using assms(3) by (simp add: mode_of_def transition_to_def)
  moreover have "log_ok (hr_transitions (transition_to m proxy now h')) m"
    using log_push [of "hr_transitions h" "mode_of h" "\<lparr>ct_at = now, ct_mode = m, ct_source_proxy = proxy\<rparr>"] assms(1,2,6)
    by (simp add: host_inv_def transition_to_def)
  moreover have "hr_rate h' \<noteq> None \<longrightarrow> hr_last_denied h' \<noteq> None"
    using assms(3,5) by (auto simp: mode_of_def split: option.splits if_splits)
  ultimately show ?thesis using assms(4) by (simp add: host_inv_def transition_to_def del: not_None_eq)
qed

lemma mode_of_transition [simp]: "mode_of (transition_to m proxy now h) = mode_of h"
  by (simp add: mode_of_def transition_to_def)

lemma transition_fields [simp]:
  "hr_tokens (transition_to m proxy now h) = hr_tokens h" "hr_last_refill (transition_to m proxy now h) = hr_last_refill h"
  "hr_rate (transition_to m proxy now h) = hr_rate h"
  by (simp_all add: transition_to_def)

lemma bucket_empty [simp]: "0 \<le> r \<Longrightarrow> bucket_ok (Some r) 0" "bucket_ok None 0"
  by (simp_all add: bucket_ok_def BUCKET_BURST_def)

lemma host_tokens: "host_inv h \<Longrightarrow> 0 \<le> hr_tokens h \<and> hr_tokens h \<le> BUCKET_BURST"
  by (simp add: host_inv_def bucket_ok_def)

lemma judged_congested:
  assumes "host_inv h" "hr_last_refill h = now"
  shows "judged host h (apply_congested host proxy now h)"
proof -
  define h' where "h' = (denied now (h\<lparr>hr_rate := Some 0, hr_tokens := 0, hr_last_refill := now\<rparr>))\<lparr>hr_healthy_windows := 0\<rparr>"
  have r: "apply_congested host proxy now h = (if hr_rate h \<noteq> Some 0 then (transition_to Multiplexing proxy now h', Some (Activated host)) else (h', None))"
    unfolding apply_congested_def h'_def Let_def by (rule refl)
  have f: "hr_rate h' = Some 0" "hr_tokens h' = 0" "hr_last_refill h' = now" "hr_last_denied h' \<noteq> None" "hr_transitions h' = hr_transitions h"
    "mode_of h' = Multiplexing"
    by (simp_all add: h'_def denied_def mode_of_def)
  show ?thesis
  proof (cases "hr_rate h = Some 0")
    case True
    then have "host_inv h'" using assms(1) f by (auto simp: host_inv_def mode_of_def)
    then show ?thesis using True r f assms host_tokens [OF assms(1)] by (simp add: judged_def mode_of_def)
  next
    case False
    then have m: "mode_move (mode_of h) Multiplexing" by (auto simp: mode_of_def split: option.splits)
    then have "host_inv (transition_to Multiplexing proxy now h')"
      using f by (intro host_inv_move [OF assms(1)]) simp_all
    then show ?thesis using False r f assms m host_tokens [OF assms(1)] by (simp add: judged_def transition_event_def)
  qed
qed

lemma sustained_fields:
  "sustained_completions now h = (b, h') \<Longrightarrow> hr_rate h' = hr_rate h \<and> hr_tokens h' = hr_tokens h \<and>
    hr_transitions h' = hr_transitions h \<and> hr_last_denied h' = hr_last_denied h \<and> hr_last_refill h' = hr_last_refill h"
  by (auto simp: sustained_completions_def trim_completions_def Let_def)

lemma judged_healthy:
  assumes "host_inv h"
  shows "judged host h (apply_healthy host proxy now h)"
proof (cases "hr_rate h")
  case None
  then show ?thesis using assms by (simp add: judged_def apply_healthy_def)
next
  case (Some r)
  define h1 where "h1 = h\<lparr>hr_healthy_windows := saturating_add (hr_healthy_windows h) 1\<rparr>"
  define h2 where "h2 = h1\<lparr>hr_rate := Some (f64_add r 1)\<rparr>"
  define asked where "asked \<longleftrightarrow> (case hr_last_denied h2 of None \<Rightarrow> False | Some t \<Rightarrow> now - t \<ge> RECOVERY_QUIET) \<and> hr_tokens h2 \<ge> BUCKET_BURST"
  obtain b h3 where h3: "(if asked then sustained_completions now h2 else (False, h2)) = (b, h3)" by (meson surj_pair)
  have res: "apply_healthy host proxy now h = (if hr_healthy_windows h1 < RECOVERY_WINDOWS then (h1, None)
      else if b then (transition_to Normal proxy now (h3\<lparr>hr_rate := None, hr_tokens := 0\<rparr>), Some (Recovered host))
      else if r = 0 then (transition_to Recovery proxy now h3, Some (RecoveryStarted host)) else (h3, None))"
    using h3 unfolding apply_healthy_def Some option.case Let_def h1_def [symmetric] h2_def [symmetric] asked_def by simp
  have r: "0 \<le> r" "r = 0 \<Longrightarrow> hr_tokens h = 0" using assms Some by (auto simp: host_inv_def bucket_ok_def)
  have f: "hr_rate h3 = Some (f64_add r 1)" "hr_tokens h3 = hr_tokens h" "hr_transitions h3 = hr_transitions h"
    "hr_last_denied h3 = hr_last_denied h" "hr_last_refill h3 = hr_last_refill h"
    using h3 sustained_fields [of now h2 b h3] by (auto simp: h1_def h2_def split: if_splits)
  have rate: "1 \<le> f64_add r 1" by (rule f64_succ_pos [OF r(1)])
  have d: "hr_last_denied h \<noteq> None" using assms Some by (simp add: host_inv_def)
  have m3: "mode_of h3 = Recovery" using f(1) rate by (simp add: mode_of_def)
  have t: "0 \<le> hr_tokens h" "hr_tokens h \<le> BUCKET_BURST" using host_tokens [OF assms] by auto
  have bk: "bucket_ok (hr_rate h3) (hr_tokens h3)" using f rate t by (simp add: bucket_ok_def)
  consider "hr_healthy_windows h1 < RECOVERY_WINDOWS" | (rec) "b" "\<not> hr_healthy_windows h1 < RECOVERY_WINDOWS"
    | (start) "\<not> b" "r = 0" "\<not> hr_healthy_windows h1 < RECOVERY_WINDOWS" | (more) "\<not> b" "r \<noteq> 0" "\<not> hr_healthy_windows h1 < RECOVERY_WINDOWS" by blast
  then show ?thesis
  proof cases
    case 1
    have "host_inv h1" by (rule host_inv_frame [OF assms]) (simp_all add: h1_def)
    then show ?thesis using 1 res by (simp add: judged_def h1_def mode_of_def)
  next
    case rec
    have "asked" using h3 rec(1) by (cases asked) auto
    then have "BUCKET_BURST \<le> hr_tokens h" by (simp add: asked_def h2_def h1_def)
    then have "r \<noteq> 0" using r(2) by (auto simp: BUCKET_BURST_def)
    then have m: "mode_of h = Recovery" using Some by (simp add: mode_of_def)
    have n: "mode_of (h3\<lparr>hr_rate := None, hr_tokens := 0\<rparr>) = Normal" by (simp add: mode_of_def)
    have "host_inv (transition_to Normal proxy now (h3\<lparr>hr_rate := None, hr_tokens := 0\<rparr>))"
      by (rule host_inv_move [OF assms]) (simp_all add: m f n)
    then show ?thesis using rec res m n t f by (simp add: judged_def transition_event_def)
  next
    case start
    then have m: "mode_of h = Multiplexing" using Some by (simp add: mode_of_def)
    have "host_inv (transition_to Recovery proxy now h3)"
      using m3 bk d f by (intro host_inv_move [OF assms]) (simp_all add: m)
    then show ?thesis using start res m m3 f by (simp add: judged_def transition_event_def)
  next
    case more
    then have m: "mode_of h = Recovery" using Some by (simp add: mode_of_def)
    then have "host_inv h3" using assms bk d f m3 by (simp add: host_inv_def)
    then show ?thesis using more res m m3 f by (simp add: judged_def)
  qed
qed

lemma judged_apply_all:
  assumes "host_inv h" "hr_last_refill h = now"
  shows "judged host h (apply_all host proxy ps now h)"
proof -
  define h' where "h' = h\<lparr>hr_pressure_sequences := fold (\<lambda>(source, p). hm_insert source (pv_sequence p)) ps (hr_pressure_sequences h)\<rparr>"
  have f: "hr_tokens h' = hr_tokens h" "hr_last_refill h' = hr_last_refill h" "mode_of h' = mode_of h"
    by (simp_all add: h'_def mode_of_def)
  have h': "host_inv h'" by (rule host_inv_frame [OF assms(1)]) (simp_all add: h'_def)
  have n: "host_inv (h'\<lparr>hr_healthy_windows := 0\<rparr>)" "mode_of (h'\<lparr>hr_healthy_windows := 0\<rparr>) = mode_of h"
    by (rule host_inv_frame [OF h']) (simp_all add: f mode_of_def [of "h'\<lparr>hr_healthy_windows := 0\<rparr>"] mode_of_def [of h'] flip: f(3))
  have "judged host h' r \<Longrightarrow> judged host h r" for r by (simp add: judged_def f)
  moreover have "judged host h (if hr_rate h' = Some 0 then h'\<lparr>hr_healthy_windows := 0\<rparr> else h', None)"
    using h' n f by (auto simp: judged_def)
  ultimately show ?thesis using assms(1) judged_congested [OF h'] judged_healthy [OF h'] assms(2) f(2)
    unfolding apply_all_def Let_def h'_def [symmetric] by (auto simp: judged_def [of host h "(h, None)"] split: trend.split)
qed

lemma host_inv_refill:
  assumes "host_inv h"
  shows "host_inv (refill now h)" "mode_of (refill now h) = mode_of h" "hr_last_refill (refill now h) = now"
proof -
  show "mode_of (refill now h) = mode_of h" "hr_last_refill (refill now h) = now"
    by (simp_all add: refill_def mode_of_def split: option.splits)
  show "host_inv (refill now h)"
  proof (cases "hr_rate h")
    case None
    then show ?thesis by (intro host_inv_frame [OF assms]) (simp_all add: refill_def)
  next
    case (Some r)
    let ?t = "f64_add (hr_tokens h) (f64_mul (as_secs_f64 (now - hr_last_refill h)) r)"
    have r: "0 \<le> r" "r = 0 \<Longrightarrow> hr_tokens h = 0" using assms Some by (auto simp: host_inv_def bucket_ok_def)
    have "0 \<le> f64_mul (as_secs_f64 (now - hr_last_refill h)) r"
      unfolding f64_mul_def by (intro f64_round_pos mult_nonneg_nonneg as_secs_nonneg r)
    then have "0 \<le> ?t" unfolding f64_add_def using host_tokens [OF assms] by (intro f64_round_pos) simp
    moreover have "?t = 0" if "r = 0" using r(2) [OF that] that by (simp add: f64_add_def f64_mul_def)
    ultimately have "bucket_ok (Some r) (min ?t BUCKET_BURST)" using r(1) by (simp add: bucket_ok_def BUCKET_BURST_def)
    then show ?thesis using assms Some by (simp add: host_inv_def refill_def mode_of_def)
  qed
qed

section \<open>A decision\<close>

definition host_after :: "ip_addr \<Rightarrow> ip_addr \<Rightarrow> instant \<Rightarrow> congestion \<Rightarrow> ip_addr \<Rightarrow> host_rate \<times> rate_transition option" where
  "host_after proxy destination now st k =
     apply_all k proxy (host_pressures proxy destination st k) now (refill now (host_entry now k st))"

definition settle :: "bool \<Rightarrow> instant \<Rightarrow> host_rate \<Rightarrow> host_rate" where
  "settle allowed now h = (if hr_rate h = None then h else if allowed then h\<lparr>hr_tokens := f64_sub (hr_tokens h) 1\<rparr>
     else if hr_tokens h < 1 then denied now h else h)"

definition hosts_inv :: "congestion \<Rightarrow> bool" where
  "hosts_inv st \<longleftrightarrow> (\<forall>k h. hm_get (cg_hosts st) k = Some h \<longrightarrow> host_inv h)"

definition host_mode :: "congestion \<Rightarrow> ip_addr \<Rightarrow> control_mode" where
  "host_mode st k = (case hm_get (cg_hosts st) k of None \<Rightarrow> Normal | Some h \<Rightarrow> mode_of h)"

lemma set_path [simp]: "set (path_hosts p d) = {p, d}"
  by (simp add: path_hosts_def)

lemma distinct_path: "distinct (path_hosts p d)"
  by (simp add: path_hosts_def)

lemma entry_inv: "hosts_inv st \<Longrightarrow> host_inv (host_entry now k st)"
  by (simp add: hosts_inv_def host_entry_def host_inv_new split: option.splits)

lemma entry_mode: "mode_of (host_entry now k st) = host_mode st k"
  by (simp add: host_entry_def host_mode_def host_new_def mode_of_def split: option.splits)

lemma host_after_cong:
  "cg_proxies st' = cg_proxies st \<Longrightarrow> cg_setups st' = cg_setups st \<Longrightarrow> hm_get (cg_hosts st') k = hm_get (cg_hosts st) k \<Longrightarrow>
   host_after p d now st' k = host_after p d now st k"
  by (simp add: host_after_def host_pressures_def host_entry_def)

lemma judge_hosts:
  assumes "distinct ks" "fold (judge_host p d now) ks (st, ts) = (st', ts')"
  shows "cg_proxies st' = cg_proxies st \<and> cg_setups st' = cg_setups st \<and>
    ts' = ts @ concat (map (\<lambda>k. case snd (host_after p d now st k) of None \<Rightarrow> [] | Some t \<Rightarrow> [t]) ks) \<and>
    (\<forall>k. hm_get (cg_hosts st') k = (if k \<in> set ks then Some (fst (host_after p d now st k)) else hm_get (cg_hosts st) k))"
  using assms
proof (induction ks arbitrary: st ts)
  case (Cons k ks)
  define st1 where "st1 = st\<lparr>cg_hosts := hm_insert k (fst (host_after p d now st k)) (cg_hosts st)\<rparr>"
  define ts1 where "ts1 = ts @ (case snd (host_after p d now st k) of None \<Rightarrow> [] | Some t \<Rightarrow> [t])"
  have "judge_host p d now k (st, ts) = (st1, ts1)"
    by (simp add: judge_host_def st1_def ts1_def host_after_def split: prod.splits)
  then have "fold (judge_host p d now) ks (st1, ts1) = (st', ts')" using Cons.prems(2) by simp
  note ih = Cons.IH [OF _ this]
  have same: "host_after p d now st1 j = host_after p d now st j" if "j \<noteq> k" for j
    by (rule host_after_cong) (simp_all add: st1_def that)
  have k: "k \<notin> set ks" "distinct ks" using Cons.prems(1) by auto
  then have m: "map (\<lambda>k. case snd (host_after p d now st1 k) of None \<Rightarrow> [] | Some t \<Rightarrow> [t]) ks =
      map (\<lambda>k. case snd (host_after p d now st k) of None \<Rightarrow> [] | Some t \<Rightarrow> [t]) ks"
    by (intro map_cong refl) (metis same)
  have "hm_get (cg_hosts st') j = (if j \<in> set (k # ks) then Some (fst (host_after p d now st j)) else hm_get (cg_hosts st) j)" for j
    using ih [OF k(2)] same [of j] k(1) by (cases "j = k") (simp_all add: st1_def)
  then show ?case using ih [OF k(2)] unfolding m by (simp add: st1_def ts1_def)
qed simp

lemma settle_step:
  assumes "hm_get (cg_hosts st) k = Some h"
  shows "\<exists>st'. (if allowed then take_token else deny_host now) k st = Some st' \<and> cg_proxies st' = cg_proxies st \<and> cg_setups st' = cg_setups st \<and>
    (\<forall>j. hm_get (cg_hosts st') j = (if j = k then Some (settle allowed now h) else hm_get (cg_hosts st) j))"
  using assms by (auto simp: take_token_def deny_host_def settle_def)

lemma settle_all:
  assumes "distinct ks" "\<forall>k \<in> set ks. hm_get (cg_hosts st) k = Some (f k)"
  shows "\<exists>st'. foldM (if allowed then take_token else deny_host now) ks st = Some st' \<and> cg_proxies st' = cg_proxies st \<and> cg_setups st' = cg_setups st \<and>
    (\<forall>j. hm_get (cg_hosts st') j = (if j \<in> set ks then Some (settle allowed now (f j)) else hm_get (cg_hosts st) j))"
  using assms
proof (induction ks arbitrary: st)
  case (Cons k ks)
  obtain st1 where st1: "(if allowed then take_token else deny_host now) k st = Some st1" "cg_proxies st1 = cg_proxies st" "cg_setups st1 = cg_setups st"
    "\<forall>j. hm_get (cg_hosts st1) j = (if j = k then Some (settle allowed now (f k)) else hm_get (cg_hosts st) j)"
    using settle_step [of st k "f k" allowed now] Cons.prems(2) by auto
  have "\<forall>j \<in> set ks. hm_get (cg_hosts st1) j = Some (f j)" using st1(4) Cons.prems by auto
  then obtain st2 where "foldM (if allowed then take_token else deny_host now) ks st1 = Some st2" "cg_proxies st2 = cg_proxies st1" "cg_setups st2 = cg_setups st1"
    "\<forall>j. hm_get (cg_hosts st2) j = (if j \<in> set ks then Some (settle allowed now (f j)) else hm_get (cg_hosts st1) j)"
    using Cons.IH [of st1] Cons.prems(1) by auto
  then show ?case using st1 Cons.prems(1) by auto
qed simp

lemma those_map_Some: "those (map Some xs) = Some xs"
  by (induction xs) simp_all

lemma allow_spec:
  obtains dec st' where "allow_dedicated p d now st = Some (dec, st')"
    "cg_proxies st' = cg_proxies st" "cg_setups st' = cg_setups st"
    "ad_dedicated dec \<longleftrightarrow> (\<forall>k \<in> {p, d}. has_token (fst (host_after p d now st k)))"
    "set (ad_transitions dec) = {t. \<exists>k \<in> {p, d}. snd (host_after p d now st k) = Some t}"
    "\<forall>k. hm_get (cg_hosts st') k = (if k \<in> {p, d} then Some (settle (ad_dedicated dec) now (fst (host_after p d now st k))) else hm_get (cg_hosts st) k)"
proof -
  let ?ks = "path_hosts p d" and ?f = "\<lambda>k. fst (host_after p d now st k)"
  obtain st1 ts where j: "fold (judge_host p d now) ?ks (st, []) = (st1, ts)" by (meson surj_pair)
  note j' = judge_hosts [OF distinct_path j]
  then have m: "map (hm_get (cg_hosts st1)) ?ks = map Some (map ?f ?ks)" by simp
  have r: "those (map (hm_get (cg_hosts st1)) ?ks) = Some (map ?f ?ks)" unfolding m by (rule those_map_Some)
  define allowed where "allowed = list_all has_token (map ?f ?ks)"
  obtain st2 where st2: "foldM (if allowed then take_token else deny_host now) ?ks st1 = Some st2" "cg_proxies st2 = cg_proxies st1" "cg_setups st2 = cg_setups st1"
    "\<forall>k. hm_get (cg_hosts st2) k = (if k \<in> set ?ks then Some (settle allowed now (?f k)) else hm_get (cg_hosts st1) k)"
    using settle_all [OF distinct_path, of p d st1 ?f allowed now] j' by auto
  show thesis
  proof (rule that [of "\<lparr>ad_dedicated = allowed, ad_transitions = ts\<rparr>" st2])
    show "allow_dedicated p d now st = Some (\<lparr>ad_dedicated = allowed, ad_transitions = ts\<rparr>, st2)"
      using st2(1) r by (simp add: allow_dedicated_def j allowed_def Let_def)
    show "ad_dedicated \<lparr>ad_dedicated = allowed, ad_transitions = ts\<rparr> \<longleftrightarrow> (\<forall>k \<in> {p, d}. has_token (?f k))"
      by (simp add: allowed_def list_all_iff)
    show "set (ad_transitions \<lparr>ad_dedicated = allowed, ad_transitions = ts\<rparr>) = {t. \<exists>k \<in> {p, d}. snd (host_after p d now st k) = Some t}"
      using j' by (auto split: option.splits)
  qed (use st2 j' in simp_all)
qed

lemma host_after_inv:
  assumes "hosts_inv st"
  shows "host_inv (fst (host_after p d now st k))" "hr_last_refill (fst (host_after p d now st k)) = now"
    "hr_tokens (fst (host_after p d now st k)) \<le> hr_tokens (refill now (host_entry now k st))"
    "mode_of (fst (host_after p d now st k)) = host_mode st k \<and> snd (host_after p d now st k) = None \<or>
     mode_move (host_mode st k) (mode_of (fst (host_after p d now st k))) \<and>
     snd (host_after p d now st k) = Some (transition_event k (mode_of (fst (host_after p d now st k))))"
  using judged_apply_all [OF host_inv_refill(1,3) [OF entry_inv [OF assms]]] host_inv_refill(2,3) [OF entry_inv [OF assms]]
  unfolding host_after_def judged_def by (simp_all add: entry_mode)

lemma settle_inv:
  assumes "host_inv h" "allowed \<longrightarrow> has_token h"
  shows "host_inv (settle allowed now h)" "mode_of (settle allowed now h) = mode_of h"
    "hr_last_refill (settle allowed now h) = hr_last_refill h"
proof -
  show "mode_of (settle allowed now h) = mode_of h" "hr_last_refill (settle allowed now h) = hr_last_refill h"
    by (simp_all add: settle_def mode_of_def denied_def)
  show "host_inv (settle allowed now h)"
  proof (cases "hr_rate h \<noteq> None \<and> allowed")
    case True
    then have t: "1 \<le> hr_tokens h" using assms(2) by (auto simp: has_token_def)
    then have "0 \<le> f64_sub (hr_tokens h) 1" unfolding f64_sub_def by (intro f64_round_pos) simp
    moreover have "f64_sub (hr_tokens h) 1 \<le> BUCKET_BURST"
      using f64_round_le_int [of "hr_tokens h - 1" 32] host_tokens [OF assms(1)] by (simp add: f64_sub_def BUCKET_BURST_def)
    moreover have "hr_rate h \<noteq> Some 0" using assms(1) t by (auto simp: host_inv_def bucket_ok_def)
    ultimately have "bucket_ok (hr_rate h) (f64_sub (hr_tokens h) 1)" using assms(1) True by (auto simp: host_inv_def bucket_ok_def split: option.splits)
    then show ?thesis using assms(1) True by (auto simp: host_inv_def settle_def mode_of_def)
  next
    case False
    then show ?thesis by (intro host_inv_frame [OF assms(1)]) (auto simp: settle_def denied_def)
  qed
qed

section \<open>All interleavings\<close>

datatype cg_event = ObserveProxy ip_addr proxy_load | StartSetup ip_addr | EndSetup nat | AllowDedicated ip_addr ip_addr | DedicatedDone ip_addr ip_addr

type_synonym cg_state = "congestion \<times> setup_attempt list"

text \<open>The state of the controller and the setup attempts that are alive, whose guards end in any order.\<close>

fun cg_exec :: "instant \<Rightarrow> cg_event \<Rightarrow> cg_state \<Rightarrow> cg_state option" where
  "cg_exec now (ObserveProxy p l) (st, as) = Some (observe_proxy p l now st, as)"
| "cg_exec now (StartSetup k) (st, as) = (let (a, st) = setup_attempt_new k now st in Some (st, a # as))"
| "cg_exec now (EndSetup i) (st, as) = map_option (\<lambda>st. (st, remove1 (as ! i) as)) (setup_attempt_drop (as ! i) now st)"
| "cg_exec now (AllowDedicated p d) (st, as) = map_option (\<lambda>(_, st). (st, as)) (allow_dedicated p d now st)"
| "cg_exec now (DedicatedDone p d) (st, as) = Some (record_dedicated_completion p d now st, as)"

fun cg_enabled :: "cg_event \<Rightarrow> cg_state \<Rightarrow> bool" where
  "cg_enabled (StartSetup k) s = (length (snd s) < 2 ^ 32 - 1)"
| "cg_enabled (EndSetup i) s = (i < length (snd s))"
| "cg_enabled _ s = True"

inductive cg_reach :: "cg_state \<Rightarrow> bool" where
  Start: "cg_reach (congestion_new, [])"
| Step: "cg_reach s \<Longrightarrow> cg_enabled e s \<Longrightarrow> cg_exec now e s = Some s' \<Longrightarrow> cg_reach s'"

definition in_flight :: "setup_attempt list \<Rightarrow> ip_addr \<Rightarrow> nat" where
  "in_flight as k = length (filter (\<lambda>a. sa_host a = k) as)"

definition setup_inv :: "setup_pressure \<Rightarrow> nat \<Rightarrow> bool" where
  "setup_inv s n \<longleftrightarrow> pressure_inv (sp_pressure s) \<and> pr_last (sp_pressure s) = setup_sample s \<and> unat (sp_pending s) = n"

fun setup_ok :: "setup_pressure option \<Rightarrow> nat \<Rightarrow> bool" where
  "setup_ok None n = (n = 0)"
| "setup_ok (Some s) n = setup_inv s n"

definition cg_inv :: "cg_state \<Rightarrow> bool" where
  "cg_inv s \<longleftrightarrow> (\<forall>k p. hm_get (cg_proxies (fst s)) k = Some p \<longrightarrow> pressure_inv p) \<and> hosts_inv (fst s) \<and>
     (\<forall>k. setup_ok (hm_get (cg_setups (fst s)) k) (in_flight (snd s) k))"

lemma setup_inv_observe:
  assumes "setup_inv s n" "sp_arrivals s \<le> sp_arrivals s'" "sp_completions s \<le> sp_completions s'" "unat (sp_pending s') = m"
  shows "setup_inv (s'\<lparr>sp_pressure := pressure_observe now (setup_sample s') l (sp_pressure s)\<rparr>) m"
  using assms observe_last [of "setup_sample s'" "sp_pressure s" now l]
  by (simp add: setup_inv_def pressure_inv_observe setup_sample_def)

lemma setup_inv_started:
  assumes "setup_inv s n" "n < 2 ^ 32 - 1"
  shows "setup_inv (setup_started now s) (Suc n)"
proof -
  define s' where "s' = s\<lparr>sp_arrivals := saturating_add (sp_arrivals s) 1, sp_pending := saturating_add (sp_pending s) 1\<rparr>"
  have n: "unat (sp_pending s) = n" using assms(1) by (simp add: setup_inv_def)
  then have "unat (sp_pending s + 1) = Suc n" using assms(2) by (subst unat_add_lem [THEN iffD1]) simp_all
  moreover from this have "\<not> sp_pending s + 1 < sp_pending s" using n by (simp add: word_less_nat_alt)
  ultimately have "unat (sp_pending s') = Suc n" by (simp add: s'_def saturating_add_def)
  then have "setup_inv (s'\<lparr>sp_pressure := pressure_observe now (setup_sample s') None (sp_pressure s)\<rparr>) (Suc n)"
    by (intro setup_inv_observe [OF assms(1)]) (simp_all add: s'_def saturating_add_ge)
  then show ?thesis by (simp add: setup_started_def Let_def s'_def)
qed

lemma setup_inv_completed:
  assumes "setup_inv s (Suc n)"
  shows "setup_inv (setup_completed now latency s) n"
proof -
  define s' where "s' = s\<lparr>sp_completions := saturating_add (sp_completions s) 1, sp_pending := saturating_sub (sp_pending s) 1\<rparr>"
  have n: "unat (sp_pending s) = Suc n" using assms by (simp add: setup_inv_def)
  then have "unat (sp_pending s') = n"
    by (auto simp: s'_def saturating_sub_def word_less_nat_alt unat_sub_if')
  then have "setup_inv (s'\<lparr>sp_pressure := pressure_observe now (setup_sample s') l (sp_pressure s)\<rparr>) n" for l
    by (intro setup_inv_observe [OF assms]) (simp_all add: s'_def saturating_add_ge)
  then show ?thesis unfolding setup_completed_def Let_def s'_def by simp
qed

lemma setup_inv_new: "setup_inv (setup_new now) 0"
  by (simp add: setup_inv_def setup_new_def pressure_inv_new) (simp add: pressure_new_def setup_sample_def)

lemma in_flight_simps [simp]:
  "in_flight [] k = 0" "in_flight (a # as) k = (if sa_host a = k then 1 else 0) + in_flight as k"
  by (simp_all add: in_flight_def)

lemma in_flight_remove: "a \<in> set as \<Longrightarrow> in_flight as k = (if sa_host a = k then 1 else 0) + in_flight (remove1 a as) k"
  by (induction as) auto

lemma in_flight_le: "in_flight as k \<le> length as"
  by (simp add: in_flight_def)

lemma hosts_inv_allow:
  assumes "hosts_inv st" "allow_dedicated p d now st = Some (dec, st')"
  shows "hosts_inv st'"
proof -
  obtain dec' st'' where a: "allow_dedicated p d now st = Some (dec', st'')"
    "ad_dedicated dec' \<longleftrightarrow> (\<forall>k \<in> {p, d}. has_token (fst (host_after p d now st k)))"
    "\<forall>k. hm_get (cg_hosts st'') k = (if k \<in> {p, d} then Some (settle (ad_dedicated dec') now (fst (host_after p d now st k))) else hm_get (cg_hosts st) k)"
    by (rule allow_spec [of p d now st])
  have "host_inv (settle (ad_dedicated dec') now (fst (host_after p d now st k)))" if "k \<in> {p, d}" for k
    using a(2) that by (intro settle_inv(1) host_after_inv(1) [OF assms(1)]) blast
  then show ?thesis using a(1,3) assms by (auto simp: hosts_inv_def split: if_splits)
qed

lemma hosts_inv_completion: "hosts_inv st \<Longrightarrow> hosts_inv (record_dedicated_completion p d now st)"
proof -
  have step: "hosts_inv (st\<lparr>cg_hosts := hm_insert k (record_completion now (host_entry now k st)) (cg_hosts st)\<rparr>)" if "hosts_inv st" for k st
  proof -
    have "host_inv (record_completion now (host_entry now k st))"
      by (rule host_inv_frame [OF entry_inv [OF that, of now k]]) (simp_all add: record_completion_def trim_completions_def Let_def)
    then show ?thesis using that by (auto simp: hosts_inv_def split: if_splits)
  qed
  have "hosts_inv st \<Longrightarrow> hosts_inv (fold (\<lambda>k st. st\<lparr>cg_hosts := hm_insert k (record_completion now (host_entry now k st)) (cg_hosts st)\<rparr>) ks st)" for ks st
    by (induction ks arbitrary: st) (simp_all add: step)
  then show "hosts_inv st \<Longrightarrow> ?thesis" unfolding record_dedicated_completion_def by blast
qed

lemma completion_frame:
  "cg_proxies (record_dedicated_completion p d now st) = cg_proxies st" "cg_setups (record_dedicated_completion p d now st) = cg_setups st"
  by (simp_all add: record_dedicated_completion_def path_hosts_def)

lemma cg_inv_start:
  assumes "cg_inv (st, as)" "length as < 2 ^ 32 - 1" "setup_attempt_new k now st = (a, st')"
  shows "cg_inv (st', a # as)"
proof -
  define s0 where "s0 = (case hm_get (cg_setups st) k of Some s \<Rightarrow> s | None \<Rightarrow> setup_new now)"
  have "setup_ok (hm_get (cg_setups st) k) (in_flight as k)" using assms(1) by (simp add: cg_inv_def)
  then have "setup_inv s0 (in_flight as k)"
    by (cases "hm_get (cg_setups st) k") (simp_all add: s0_def setup_inv_new)
  moreover have "in_flight as k < 2 ^ 32 - 1" using in_flight_le [of as k] assms(2) by linarith
  ultimately have "setup_inv (setup_started now s0) (Suc (in_flight as k))" by (rule setup_inv_started)
  then show ?thesis using assms(1,3) unfolding setup_attempt_new_def cg_inv_def hosts_inv_def s0_def [symmetric] by auto
qed

lemma cg_inv_end:
  assumes "cg_inv (st, as)" "a \<in> set as"
  shows "\<exists>st'. setup_attempt_drop a now st = Some st' \<and> cg_inv (st', remove1 a as)"
proof -
  let ?k = "sa_host a"
  have n: "in_flight as ?k = Suc (in_flight (remove1 a as) ?k)" using in_flight_remove [OF assms(2), of ?k] by simp
  have "setup_ok (hm_get (cg_setups st) ?k) (in_flight as ?k)" using assms(1) by (simp add: cg_inv_def)
  then obtain s where s: "hm_get (cg_setups st) ?k = Some s" "setup_inv s (in_flight as ?k)"
    using n by (cases "hm_get (cg_setups st) ?k") simp_all
  then have "setup_inv (setup_completed now (now - sa_started a) s) (in_flight (remove1 a as) ?k)"
    using setup_inv_completed n by simp
  moreover have "in_flight (remove1 a as) k = in_flight as k" if "k \<noteq> ?k" for k using in_flight_remove [OF assms(2), of k] that by simp
  ultimately show ?thesis using s assms(1) by (auto simp: setup_attempt_drop_def cg_inv_def hosts_inv_def)
qed

lemma cg_inv_exec:
  assumes "cg_inv s" "cg_enabled e s"
  shows "\<exists>s'. cg_exec now e s = Some s' \<and> cg_inv s'"
proof -
  obtain st as where s: "s = (st, as)" by (cases s)
  show ?thesis
  proof (cases e)
    case (ObserveProxy p l)
    then show ?thesis using assms s
      by (auto simp: cg_inv_def hosts_inv_def observe_proxy_def Let_def pressure_inv_new intro!: pressure_inv_observe split: option.splits)
  next
    case (StartSetup k)
    obtain a st' where "setup_attempt_new k now st = (a, st')" by (meson surj_pair)
    then show ?thesis using cg_inv_start [of st as k now a st'] assms s StartSetup by simp
  next
    case (EndSetup i)
    then show ?thesis using cg_inv_end [of st as "as ! i" now] assms s by auto
  next
    case (AllowDedicated p d)
    obtain dec st' where a: "allow_dedicated p d now st = Some (dec, st')" "cg_proxies st' = cg_proxies st" "cg_setups st' = cg_setups st"
      by (rule allow_spec [of p d now st])
    then show ?thesis using assms s AllowDedicated hosts_inv_allow [OF _ a(1)] by (auto simp: cg_inv_def)
  next
    case (DedicatedDone p d)
    then show ?thesis using assms s hosts_inv_completion [of st p d now] by (auto simp: cg_inv_def completion_frame)
  qed
qed

lemma cg_inv_reach: "cg_reach s \<Longrightarrow> cg_inv s"
proof (induction rule: cg_reach.induct)
  case Start
  then show ?case by (simp add: cg_inv_def hosts_inv_def congestion_new_def)
next
  case (Step s e now s')
  then show ?case using cg_inv_exec by (metis option.inject)
qed

section \<open>Properties\<close>

text \<open>\<^bold>\<open>C36.\<close> However reports, setups, decisions and completions interleave, the controller's records stay
  well-formed: the counters of a window never run backwards, buckets hold between zero and the
  burst and are empty while nothing may pass, histories keep their bounds, and the setups shown
  as pending on a host are exactly the attempts alive on it.  No step panics.\<close>

theorem congestion_wellformed:
  assumes "cg_reach (st, as)" "cg_enabled e (st, as)"
  shows "(\<forall>k p. hm_get (cg_proxies st) k = Some p \<longrightarrow> pressure_inv p) \<and>
    (\<forall>k s. hm_get (cg_setups st) k = Some s \<longrightarrow> pressure_inv (sp_pressure s) \<and> unat (sp_pending s) = in_flight as k) \<and>
    (\<forall>k h. hm_get (cg_hosts st) k = Some h \<longrightarrow> host_inv h) \<and> cg_exec now e (st, as) \<noteq> None"
proof (intro conjI allI impI)
  have inv: "cg_inv (st, as)" by (rule cg_inv_reach [OF assms(1)])
  show "pressure_inv p" if "hm_get (cg_proxies st) k = Some p" for k p using inv that by (simp add: cg_inv_def)
  show "host_inv h" if "hm_get (cg_hosts st) k = Some h" for k h using inv that by (simp add: cg_inv_def hosts_inv_def)
  show "cg_exec now e (st, as) \<noteq> None" using cg_inv_exec [OF inv assms(2), of now] by auto
  fix k s assume s: "hm_get (cg_setups st) k = Some s"
  have "setup_ok (hm_get (cg_setups st) k) (in_flight as k)" using inv by (simp add: cg_inv_def)
  then show "pressure_inv (sp_pressure s)" "unat (sp_pending s) = in_flight as k" by (simp_all add: s setup_inv_def)
qed

text \<open>A proxy whose waiters grow over two windows.\<close>

definition cg_run :: "(instant \<times> cg_event) list \<Rightarrow> cg_state \<Rightarrow> cg_state option" where
  "cg_run es s = foldM (\<lambda>(now, e) s. if cg_enabled e s then cg_exec now e s else None) es s"

definition load_of :: "u64 \<Rightarrow> u64 \<Rightarrow> u32 \<Rightarrow> u64 \<Rightarrow> proxy_load" where
  "load_of arrivals completions waiters wait_us = \<lparr>pl_epoch = 1, pl_arrivals = arrivals, pl_completions = completions, pl_waiters = waiters, pl_wait_us = wait_us\<rparr>"

definition cg_demo_events :: "(instant \<times> cg_event) list" where
  "cg_demo_events = [(0, ObserveProxy (V4 1) (load_of 0 0 0 10)), (0, StartSetup (V4 2)),
     (1000, ObserveProxy (V4 1) (load_of 10 2 8 20)), (2000, ObserveProxy (V4 1) (load_of 20 4 16 50))]"

definition cg_demo :: cg_state where
  "cg_demo = the (cg_run cg_demo_events (congestion_new, []))"

lemma cg_run_reach: "cg_run es s = Some s' \<Longrightarrow> cg_reach s \<Longrightarrow> cg_reach s'"
  unfolding cg_run_def
proof (induction es arbitrary: s)
  case (Cons x es)
  obtain now e where x: "x = (now, e)" by (cases x)
  then obtain s1 where "cg_enabled e s" "cg_exec now e s = Some s1" using Cons.prems(1) by (auto split: option.splits if_splits)
  then show ?case using Cons.IH [of s1] Cons.prems cg_reach.Step [of s e now s1] x by simp
qed simp

lemmas pressure_eval = observe_proxy_def pressure_observe_def pressure_new_def close_window_def latency_mean_def window_growing_def
  window_healthy_def u128_of_def load_of_def PRESSURE_WINDOW_def CONGESTED_WINDOWS_def PRESSURE_HISTORY_def saturating_add_def push_bounded_def

lemma cg_demo_run:
  "cg_run cg_demo_events (congestion_new, []) = Some cg_demo \<and> cg_hosts (fst cg_demo) = [] \<and> in_flight (snd cg_demo) (V4 2) = 1 \<and>
   (\<exists>s. hm_get (cg_setups (fst cg_demo)) (V4 2) = Some s) \<and>
   map_option view_of (hm_get (cg_proxies (fst cg_demo)) (V4 1)) = Some \<lparr>pv_sequence = 2, pv_trend = Congested\<rparr>"
  by (simp add: cg_demo_def cg_demo_events_def cg_run_def congestion_new_def pressure_eval hm_get_def hm_insert_def setup_attempt_new_def view_of_def Let_def)

lemma cg_demo_reach: "cg_reach cg_demo"
  using cg_run_reach [OF _ cg_reach.Start] cg_demo_run by blast

theorem congestion_wellformed_witness:
  "cg_exec 2000 (AllowDedicated (V4 1) (V4 2)) (fst cg_demo, snd cg_demo) \<noteq> None \<and>
   map_option (\<lambda>s. unat (sp_pending s)) (hm_get (cg_setups (fst cg_demo)) (V4 2)) = Some 1"
  using congestion_wellformed [of "fst cg_demo" "snd cg_demo" "AllowDedicated (V4 1) (V4 2)" 2000] cg_demo_reach cg_demo_run
  by auto

lemma recovered_quiet:
  assumes "snd (apply_all host proxy ps now h) = Some (Recovered host)"
  shows "\<exists>t. hr_last_denied h = Some t \<and> RECOVERY_QUIET \<le> now - t \<and> BUCKET_BURST \<le> hr_tokens h"
proof -
  define h' where "h' = h\<lparr>hr_pressure_sequences := fold (\<lambda>(source, p). hm_insert source (pv_sequence p)) ps (hr_pressure_sequences h)\<rparr>"
  have f: "hr_last_denied h' = hr_last_denied h" "hr_tokens h' = hr_tokens h" by (simp_all add: h'_def)
  have "snd (apply_healthy host proxy now h') = Some (Recovered host)"
    using assms unfolding apply_all_def Let_def h'_def [symmetric]
    by (auto simp: apply_congested_def Let_def split: if_splits trend.splits)
  then have "(case hr_last_denied h' of None \<Rightarrow> False | Some t \<Rightarrow> now - t \<ge> RECOVERY_QUIET) \<and> hr_tokens h' \<ge> BUCKET_BURST"
    by (simp add: apply_healthy_def Let_def split: option.splits if_splits prod.splits)
  then show ?thesis unfolding f by (auto split: option.splits)
qed

lemma transition_event_inject [simp]: "transition_event k m = transition_event k' m' \<longleftrightarrow> k = k' \<and> m = m'"
  by (cases m; cases m'; auto simp: transition_event_def)

lemma multiplexing_no_token: "host_inv h \<Longrightarrow> mode_of h = Multiplexing \<Longrightarrow> \<not> has_token h"
  by (auto simp: host_inv_def bucket_ok_def has_token_def mode_of_def split: option.splits if_splits)

lemma mode_move_irrefl [simp]: "\<not> mode_move m m"
  by (cases m) auto

lemma host_mode_allow:
  assumes "hosts_inv st" "allow_dedicated p d now st = Some (dec, st')"
  shows "host_mode st' k = (if k \<in> {p, d} then mode_of (fst (host_after p d now st k)) else host_mode st k)"
    and "t \<in> set (ad_transitions dec) \<longleftrightarrow> (\<exists>k \<in> {p, d}. snd (host_after p d now st k) = Some t)"
    and "ad_dedicated dec \<longleftrightarrow> (\<forall>k \<in> {p, d}. has_token (fst (host_after p d now st k)))"
    and "k \<in> {p, d} \<Longrightarrow> hm_get (cg_hosts st') k = Some (settle (ad_dedicated dec) now (fst (host_after p d now st k)))"
    and "k \<notin> {p, d} \<Longrightarrow> hm_get (cg_hosts st') k = hm_get (cg_hosts st) k"
proof -
  obtain dec' st'' where a: "allow_dedicated p d now st = Some (dec', st'')"
    "ad_dedicated dec' \<longleftrightarrow> (\<forall>k \<in> {p, d}. has_token (fst (host_after p d now st k)))"
    "set (ad_transitions dec') = {t. \<exists>k \<in> {p, d}. snd (host_after p d now st k) = Some t}"
    "\<forall>k. hm_get (cg_hosts st'') k = (if k \<in> {p, d} then Some (settle (ad_dedicated dec') now (fst (host_after p d now st k))) else hm_get (cg_hosts st) k)"
    by (rule allow_spec [of p d now st])
  have eq: "dec' = dec" "st'' = st'" using a(1) assms(2) by simp_all
  show "t \<in> set (ad_transitions dec) \<longleftrightarrow> (\<exists>k \<in> {p, d}. snd (host_after p d now st k) = Some t)" using a(3) eq by simp
  show d: "ad_dedicated dec \<longleftrightarrow> (\<forall>k \<in> {p, d}. has_token (fst (host_after p d now st k)))" using a(2) eq by simp
  show g: "hm_get (cg_hosts st') k = Some (settle (ad_dedicated dec) now (fst (host_after p d now st k)))" if "k \<in> {p, d}" using a(4) eq that by simp
  show o: "hm_get (cg_hosts st') k = hm_get (cg_hosts st) k" if "k \<notin> {p, d}" using a(4) eq that by simp
  show "host_mode st' k = (if k \<in> {p, d} then mode_of (fst (host_after p d now st k)) else host_mode st k)"
  proof (cases "k \<in> {p, d}")
    case True
    then have "mode_of (settle (ad_dedicated dec) now (fst (host_after p d now st k))) = mode_of (fst (host_after p d now st k))"
      using d by (intro settle_inv(2) host_after_inv(1) [OF assms(1)]) blast
    then show ?thesis using g True by (simp add: host_mode_def)
  next
    case False
    then show ?thesis using o by (simp add: host_mode_def)
  qed
qed

text \<open>\<^bold>\<open>C37.\<close> A decision moves the mode of a host at most one step along the cycle normal, multiplexing,
  recovery, normal or multiplexing; it reports exactly the moves it makes; it grants no network
  of its own through a host that is multiplexing; and a host returns to normal only when no
  session was denied there for the quiet period.\<close>

theorem mode_cycle:
  assumes "cg_reach (st, as)" "allow_dedicated p d now st = Some (dec, st')"
  shows "(\<forall>k. host_mode st' k = host_mode st k \<or> mode_move (host_mode st k) (host_mode st' k)) \<and>
    (\<forall>k m. transition_event k m \<in> set (ad_transitions dec) \<longleftrightarrow> host_mode st' k = m \<and> host_mode st k \<noteq> m) \<and>
    (ad_dedicated dec \<longrightarrow> host_mode st' p \<noteq> Multiplexing \<and> host_mode st' d \<noteq> Multiplexing) \<and>
    (\<forall>k. host_mode st k \<noteq> Normal \<longrightarrow> host_mode st' k = Normal \<longrightarrow>
      (\<exists>h t. hm_get (cg_hosts st) k = Some h \<and> hr_last_denied h = Some t \<and> RECOVERY_QUIET \<le> now - t))"
proof (intro conjI allI impI)
  have inv: "hosts_inv st" using cg_inv_reach [OF assms(1)] by (simp add: cg_inv_def)
  note after = host_after_inv [OF inv, of p d now] and allow = host_mode_allow [OF inv assms(2)]
  fix k
  show "host_mode st' k = host_mode st k \<or> mode_move (host_mode st k) (host_mode st' k)" using after(4) [of k] allow(1) [of k] by auto
  show "transition_event k m \<in> set (ad_transitions dec) \<longleftrightarrow> host_mode st' k = m \<and> host_mode st k \<noteq> m" for m
  proof (cases "k \<in> {p, d}")
    case True
    have "transition_event k m \<in> set (ad_transitions dec) \<longleftrightarrow> snd (host_after p d now st k) = Some (transition_event k m)"
    proof
      assume "transition_event k m \<in> set (ad_transitions dec)"
      then obtain j where j: "snd (host_after p d now st j) = Some (transition_event k m)" using allow(2) by blast
      then have "j = k" using after(4) [of j] by auto
      then show "snd (host_after p d now st k) = Some (transition_event k m)" using j by simp
    qed (use allow(2) True in blast)
    then show ?thesis using after(4) [of k] allow(1) [of k] True by auto
  next
    case False
    have "transition_event k m \<notin> set (ad_transitions dec)"
    proof
      assume "transition_event k m \<in> set (ad_transitions dec)"
      then obtain j where "j \<in> {p, d}" "snd (host_after p d now st j) = Some (transition_event k m)" using allow(2) by blast
      then show False using after(4) [of j] False by auto
    qed
    then show ?thesis using allow(1) [of k] False by auto
  qed
  show "host_mode st' p \<noteq> Multiplexing" "host_mode st' d \<noteq> Multiplexing" if "ad_dedicated dec"
    using that allow(1) allow(3) multiplexing_no_token [OF after(1)] by auto
  assume n: "host_mode st k \<noteq> Normal" "host_mode st' k = Normal"
  then have "k \<in> {p, d}" using allow(1) [of k] by (auto split: if_splits)
  then have "snd (host_after p d now st k) = Some (Recovered k)"
    using n allow(1) [of k] after(4) [of k] by (auto simp: transition_event_def)
  then obtain t where t: "hr_last_denied (refill now (host_entry now k st)) = Some t" "RECOVERY_QUIET \<le> now - t"
    using recovered_quiet unfolding host_after_def by blast
  moreover have "hr_last_denied (refill now (host_entry now k st)) = hr_last_denied (host_entry now k st)"
    by (simp add: refill_def split: option.splits)
  moreover obtain h where "hm_get (cg_hosts st) k = Some h" using n(1) by (auto simp: host_mode_def split: option.splits)
  ultimately show "\<exists>h t. hm_get (cg_hosts st) k = Some h \<and> hr_last_denied h = Some t \<and> RECOVERY_QUIET \<le> now - t"
    by (intro exI [of _ h] exI [of _ t]) (simp add: host_entry_def)
qed

theorem mode_cycle_witness:
  "\<exists>dec st'. allow_dedicated (V4 1) (V4 2) 2000 (fst cg_demo) = Some (dec, st') \<and> host_mode st' (V4 1) = Multiplexing \<and>
     Activated (V4 1) \<in> set (ad_transitions dec) \<and> \<not> ad_dedicated dec"
proof -
  let ?st = "fst cg_demo"
  obtain dec st' where a: "allow_dedicated (V4 1) (V4 2) 2000 ?st = Some (dec, st')" by (rule allow_spec [of "V4 1" "V4 2" 2000 ?st])
  have reach: "cg_reach (?st, snd cg_demo)" using cg_demo_reach by simp
  then have inv: "hosts_inv ?st" using cg_inv_reach by (fastforce simp: cg_inv_def)
  obtain p where p: "hm_get (cg_proxies ?st) (V4 1) = Some p" "view_of p = \<lparr>pv_sequence = 2, pv_trend = Congested\<rparr>"
    using cg_demo_run by auto
  have e: "host_entry 2000 (V4 1) ?st = host_new 2000" and m: "host_mode ?st (V4 1) = Normal"
    using cg_demo_run by (simp_all add: host_entry_def host_mode_def)
  have "host_pressures (V4 1) (V4 2) ?st (V4 1) = [(ProxySource (V4 1), \<lparr>pv_sequence = 2, pv_trend = Congested\<rparr>)]"
    using p by (simp add: host_pressures_def)
  then have "mode_of (fst (host_after (V4 1) (V4 2) 2000 ?st (V4 1))) = Multiplexing"
    by (simp add: host_after_def e apply_all_def pressures_changed_def overall_trend_def apply_congested_def host_new_def refill_def denied_def
        mode_of_def transition_to_def Let_def)
  then have m': "host_mode st' (V4 1) = Multiplexing" using host_mode_allow(1) [OF inv a, of "V4 1"] by simp
  have "transition_event (V4 1) Multiplexing \<in> set (ad_transitions dec)" "\<not> ad_dedicated dec"
    using mode_cycle [OF reach a] m m' by (metis control_mode.distinct(1))+
  then show ?thesis using a m' by (auto simp: transition_event_def)
qed

section \<open>Bursts\<close>

text \<open>The sessions admitted through a host that is not in normal mode, counted over a run of the
  controller at one instant.\<close>

fun admitted :: "instant \<Rightarrow> ip_addr \<Rightarrow> cg_event list \<Rightarrow> cg_state \<Rightarrow> nat" where
  "admitted now k [] s = 0"
| "admitted now k (e # es) s = (case cg_exec now e s of None \<Rightarrow> 0
    | Some s' \<Rightarrow> (case e of
          AllowDedicated p d \<Rightarrow> (if k \<in> {p, d} \<and> map_option (ad_dedicated \<circ> fst) (allow_dedicated p d now (fst s)) = Some True \<and>
            host_mode (fst s') k \<noteq> Normal then 1 else 0)
        | _ \<Rightarrow> 0) + admitted now k es s')"

definition tokens_at :: "instant \<Rightarrow> ip_addr \<Rightarrow> nat \<Rightarrow> congestion \<Rightarrow> bool" where
  "tokens_at now k n st \<longleftrightarrow> (\<forall>h. hm_get (cg_hosts st) k = Some h \<longrightarrow> hr_last_refill h = now \<and> hr_tokens h \<le> of_nat n)"

lemma refill_same_instant:
  assumes "host_inv h" "hr_last_refill h = now" "hr_tokens h \<le> of_nat n" "n \<le> 32"
  shows "hr_tokens (refill now h) \<le> of_nat n"
proof (cases "hr_rate h")
  case None
  then show ?thesis using assms by (simp add: refill_def)
next
  case (Some r)
  have "f64_round (hr_tokens h) \<le> of_int (int n)" by (rule f64_round_le_int) (use assms in simp_all)
  then show ?thesis using Some assms(2) by (simp add: refill_def f64_add_def f64_mul_def)
qed

lemma entry_tokens: "tokens_at now k n st \<Longrightarrow> hr_last_refill (host_entry now k st) = now \<and> hr_tokens (host_entry now k st) \<le> of_nat n"
  by (simp add: tokens_at_def host_entry_def host_new_def split: option.splits)

text \<open>A decision through a host leaves at most the tokens it found there, and one less when it admits
  a session in a restricted mode.\<close>

lemma allow_tokens:
  assumes "hosts_inv st" "allow_dedicated p d now st = Some (dec, st')" "k \<in> {p, d}" "n \<le> 32"
    and "hr_tokens (refill now (host_entry now k st)) \<le> of_nat n"
  shows "tokens_at now k n st'" "ad_dedicated dec \<Longrightarrow> host_mode st' k \<noteq> Normal \<Longrightarrow> 0 < n \<and> tokens_at now k (n - 1) st'"
proof -
  define h where "h = fst (host_after p d now st k)"
  note allow = host_mode_allow [OF assms(1,2)]
  have h: "host_inv h" "hr_last_refill h = now" "hr_tokens h \<le> of_nat n"
    using host_after_inv [OF assms(1), of p d now k] assms(5) unfolding h_def by simp_all
  have ok: "ad_dedicated dec \<longrightarrow> has_token h" using allow(3) assms(3) h_def by blast
  have g: "hm_get (cg_hosts st') k = Some (settle (ad_dedicated dec) now h)" using allow(4) assms(3) h_def by simp
  have sub: "f64_sub (hr_tokens h) 1 \<le> of_nat (n - 1)" "0 < n" if "1 \<le> hr_tokens h"
  proof -
    show "0 < n" using that h(3) by (cases n) simp_all
    then have "hr_tokens h - 1 \<le> of_int (int (n - 1))" using h(3) by (simp add: of_nat_diff)
    then show "f64_sub (hr_tokens h) 1 \<le> of_nat (n - 1)"
      unfolding f64_sub_def using f64_round_le_int [of "hr_tokens h - 1" "int (n - 1)"] assms(4) by simp
  qed
  have le: "(of_nat (n - 1) :: rat) \<le> of_nat n" by simp
  have "hr_tokens (settle (ad_dedicated dec) now h) \<le> of_nat n"
    using sub(1) le h(3) ok by (auto simp: settle_def denied_def has_token_def intro: order_trans)
  then show "tokens_at now k n st'" using g settle_inv(3) [OF h(1) ok] h(2) by (simp add: tokens_at_def)
  assume a: "ad_dedicated dec" "host_mode st' k \<noteq> Normal"
  have "hr_rate h \<noteq> None" using a(2) allow(1) [of k] assms(3) by (auto simp: h_def mode_of_def split: option.splits if_splits)
  then have "1 \<le> hr_tokens h" "hr_tokens (settle (ad_dedicated dec) now h) = f64_sub (hr_tokens h) 1"
    using a(1) ok by (auto simp: settle_def has_token_def)
  then show "0 < n \<and> tokens_at now k (n - 1) st'" using sub g settle_inv(3) [OF h(1) ok] h(2) by (simp add: tokens_at_def)
qed

lemma exec_hosts:
  assumes "cg_exec now e s = Some s'"
  shows "(\<exists>p d. e = AllowDedicated p d) \<or> (\<exists>p d. e = DedicatedDone p d \<and> fst s' = record_dedicated_completion p d now (fst s)) \<or> cg_hosts (fst s') = cg_hosts (fst s)"
  using assms by (cases s; cases e) (auto simp: observe_proxy_def setup_attempt_new_def setup_attempt_drop_def Let_def split: option.splits)

lemma completion_tokens: "tokens_at now k n st \<Longrightarrow> tokens_at now k n (record_dedicated_completion p d now st)"
proof -
  have step: "tokens_at now k n (st\<lparr>cg_hosts := hm_insert j (record_completion now (host_entry now j st)) (cg_hosts st)\<rparr>)" if "tokens_at now k n st" for j st
    using entry_tokens [OF that] that by (auto simp: tokens_at_def record_completion_def trim_completions_def Let_def)
  have "tokens_at now k n st \<Longrightarrow> tokens_at now k n (fold (\<lambda>j st. st\<lparr>cg_hosts := hm_insert j (record_completion now (host_entry now j st)) (cg_hosts st)\<rparr>) ks st)" for ks st
    by (induction ks arbitrary: st) (simp_all add: step)
  then show "tokens_at now k n st \<Longrightarrow> ?thesis" unfolding record_dedicated_completion_def by blast
qed

lemma exec_allow:
  assumes "cg_exec now (AllowDedicated p d) s = Some s'"
  obtains dec where "allow_dedicated p d now (fst s) = Some (dec, fst s')"
  using assms by (cases s) auto

lemma hosts_inv_exec:
  assumes "cg_exec now e s = Some s'" "hosts_inv (fst s)"
  shows "hosts_inv (fst s')"
  using exec_hosts [OF assms(1)]
proof (elim disjE exE conjE)
  fix p d assume "e = AllowDedicated p d"
  then show ?thesis using assms hosts_inv_allow by (metis exec_allow)
next
  fix p d assume "fst s' = record_dedicated_completion p d now (fst s)"
  then show ?thesis using hosts_inv_completion [OF assms(2)] by simp
next
  assume "cg_hosts (fst s') = cg_hosts (fst s)"
  then show ?thesis using assms(2) by (simp add: hosts_inv_def)
qed

lemma admitted_step:
  assumes "hosts_inv (fst s)" "cg_exec now e s = Some s'"
  shows "admitted now k (e # es) s = admitted now k es s' \<and> (\<forall>n. tokens_at now k n (fst s) \<longrightarrow> n \<le> 32 \<longrightarrow> tokens_at now k n (fst s')) \<or>
    (\<forall>n. n \<le> 32 \<longrightarrow> hr_tokens (refill now (host_entry now k (fst s))) \<le> of_nat n \<longrightarrow>
       admitted now k (e # es) s = admitted now k es s' \<and> tokens_at now k n (fst s') \<or>
       admitted now k (e # es) s = Suc (admitted now k es s') \<and> 0 < n \<and> tokens_at now k (n - 1) (fst s'))"
proof (cases "\<exists>p d. e = AllowDedicated p d \<and> k \<in> {p, d}")
  case True
  then obtain p d where e: "e = AllowDedicated p d" "k \<in> {p, d}" by blast
  obtain dec where a: "allow_dedicated p d now (fst s) = Some (dec, fst s')" using assms(2) e(1) by (metis exec_allow)
  have "admitted now k (e # es) s = (if ad_dedicated dec \<and> host_mode (fst s') k \<noteq> Normal then 1 else 0) + admitted now k es s'"
    using assms(2) e a by simp
  then show ?thesis using allow_tokens [OF assms(1) a e(2)] by auto
next
  case False
  then have ad: "admitted now k (e # es) s = admitted now k es s'" using assms(2) by (cases e) auto
  have "tokens_at now k n (fst s')" if t: "tokens_at now k n (fst s)" "n \<le> 32" for n
    using exec_hosts [OF assms(2)]
  proof (elim disjE exE conjE)
    fix p d assume e: "e = AllowDedicated p d"
    then have "k \<notin> {p, d}" using False by blast
    moreover obtain dec where "allow_dedicated p d now (fst s) = Some (dec, fst s')" using assms(2) e by (metis exec_allow)
    ultimately have "hm_get (cg_hosts (fst s')) k = hm_get (cg_hosts (fst s)) k" using host_mode_allow(5) [OF assms(1)] by blast
    then show ?thesis using t by (simp add: tokens_at_def)
  next
    fix p d assume "fst s' = record_dedicated_completion p d now (fst s)"
    then show ?thesis using completion_tokens [OF t(1)] by simp
  next
    assume "cg_hosts (fst s') = cg_hosts (fst s)"
    then show ?thesis using t by (simp add: tokens_at_def)
  qed
  then show ?thesis using ad by blast
qed

lemma admitted_tokens:
  "hosts_inv (fst s) \<Longrightarrow> tokens_at now k n (fst s) \<Longrightarrow> n \<le> 32 \<Longrightarrow> admitted now k es s \<le> n"
proof (induction es arbitrary: s n)
  case (Cons e es)
  show ?case
  proof (cases "cg_exec now e s")
    case (Some s')
    have inv: "hosts_inv (fst s')" by (rule hosts_inv_exec [OF Some Cons.prems(1)])
    have r: "hr_tokens (refill now (host_entry now k (fst s))) \<le> of_nat n"
      using entry_tokens [OF Cons.prems(2)] by (intro refill_same_instant entry_inv Cons.prems) auto
    show ?thesis using admitted_step [OF Cons.prems(1) Some, of k es]
    proof (elim disjE)
      assume "admitted now k (e # es) s = admitted now k es s' \<and> (\<forall>n. tokens_at now k n (fst s) \<longrightarrow> n \<le> 32 \<longrightarrow> tokens_at now k n (fst s'))"
      then show ?thesis using Cons.IH [OF inv, of n] Cons.prems by simp
    next
      assume a: "\<forall>n. n \<le> 32 \<longrightarrow> hr_tokens (refill now (host_entry now k (fst s))) \<le> of_nat n \<longrightarrow>
        admitted now k (e # es) s = admitted now k es s' \<and> tokens_at now k n (fst s') \<or>
        admitted now k (e # es) s = Suc (admitted now k es s') \<and> 0 < n \<and> tokens_at now k (n - 1) (fst s')"
      have "n - 1 \<le> 32" using Cons.prems(3) by simp
      then show ?thesis using a [rule_format, OF Cons.prems(3) r] Cons.IH [OF inv _ Cons.prems(3)] Cons.IH [OF inv, of "n - 1"]
        by (elim disjE conjE) (simp, linarith)
    qed
  qed simp
qed simp



end
