(* ===== verification/Config_Input.thy ===== *)
theory Config_Input
  imports Chain_Setup "HOL-Library.List_Lexorder" "HOL-Library.Char_ord"
begin

text \<open>
  Stack configuration (nullnet-server, \<^verbatim>\<open>services/input.rs\<close>): the declared services and routes of a
  stack, their validation into the registry's initial entries, the host-match index and the route
  table, and the conflicts between stacks.  The CIDR parser is an argument, as in \<^verbatim>\<open>Filter_Policy\<close>.
\<close>

section \<open>What is declared\<close>

datatype protocol_toml = HttpToml | TcpToml | UdpToml

fun service_protocol_from :: "protocol_toml \<Rightarrow> service_protocol" where
  "service_protocol_from HttpToml = Http"
| "service_protocol_from TcpToml = Tcp"
| "service_protocol_from UdpToml = Udp"

record service_toml =
  st_name :: string
  st_docker_container :: "string option"
  st_process_path :: "string option"
  st_host_ip :: "string option"
  st_pausable :: bool
  st_port :: "u16 option"
  st_timeout :: "u64 option"
  st_proxy_dependencies :: "string list list"
  st_backends :: "string list"
  st_max_networks :: "u32 option"
  st_protocol :: "protocol_toml option"
  st_listen_port :: "u16 option"
  st_egress_filter :: filter_policy
  st_ingress_filter :: filter_policy

record route_toml =
  rt_host :: string
  rt_path :: string
  rt_service :: "string option"
  rt_strip_prefix :: bool
  rt_redirect_to :: "string option"
  rt_redirect_status :: "u16 option"
  rt_preserve_path :: bool
  rt_preserve_query :: bool

section \<open>What it is validated into\<close>

record match_entry =
  me_name :: string
  me_port :: u16
  me_docker_container :: "string option"
  me_process_path :: "string option"
  me_host_ip :: "u32 option"

datatype route_target =
    RouteService string bool
  | RouteRedirect string u16 bool bool

record route_entry =
  re_host :: string
  re_path :: string
  re_target :: route_target

type_synonym match_index = "(string, match_entry list) hmap"
type_synonym route_map = "(string, route_entry list) hmap"
type_synonym parsed_stack = "services \<times> match_entry list \<times> route_entry list"

datatype config_error =
    RouteBothTargets string string
  | RouteNoTarget string string
  | RoutePreserveOnService string string
  | RouteUnknownService string string string
  | RouteNotHttp string string string
  | RouteNotReachable string string string
  | RouteStripOnRedirect string string
  | RouteBadStatus string string u16
  | InvalidHostIp string string
  | MatchKeyWithoutPort string
  | EmptyPeer
  | PausableWithoutContainer string
  | ListenPortOnHttp string
  | ListenPortMissing string
  | InvalidFilter string filter_error
  | IngressFilterUnreachable string
  | PeerWithoutPort string string
  | PeerPortClash string string string u16

section \<open>Strings of the standard library\<close>

definition is_digit :: "char \<Rightarrow> bool" where
  "is_digit c \<longleftrightarrow> 48 \<le> (of_char c :: nat) \<and> (of_char c :: nat) \<le> 57"

fun split_on :: "char \<Rightarrow> string \<Rightarrow> string list" where
  "split_on c [] = [[]]"
| "split_on c (x # xs) = (if x = c then [] # split_on c xs else (case split_on c xs of
     [] \<Rightarrow> [[x]] | y # ys \<Rightarrow> (x # y) # ys))"

text \<open>\<^verbatim>\<open>str::parse::<Ipv4Addr>\<close>: four decimal octets without leading zeros.\<close>

definition parse_octet :: "string \<Rightarrow> nat option" where
  "parse_octet s = (if s = [] \<or> length s > 3 \<or> \<not> list_all is_digit s \<or> (hd s = CHR ''0'' \<and> length s > 1) then None
     else (let n = nat_of_string s in if n \<le> 255 then Some n else None))"

definition parse_ipv4 :: "string \<Rightarrow> u32 option" where
  "parse_ipv4 s = (case split_on CHR ''.'' s of
       [a, b, c, d] \<Rightarrow> do {
         a \<leftarrow> parse_octet a; b \<leftarrow> parse_octet b; c \<leftarrow> parse_octet c; d \<leftarrow> parse_octet d;
         Some (of_nat (a * 2 ^ 24 + b * 2 ^ 16 + c * 2 ^ 8 + d))
       }
     | _ \<Rightarrow> None)"

text \<open>\<^verbatim>\<open>str::trim().is_empty()\<close> on ASCII text.\<close>

definition blank :: "string \<Rightarrow> bool" where
  "blank s \<longleftrightarrow> list_all (\<lambda>c. (of_char c :: nat) = 32 \<or> (9 \<le> (of_char c :: nat) \<and> (of_char c :: nat) \<le> 13)) s"

text \<open>A loop that stops at the first error.\<close>

fun try_fold :: "('a \<Rightarrow> 's \<Rightarrow> 'e + 's) \<Rightarrow> 'a list \<Rightarrow> 's \<Rightarrow> 'e + 's" where
  "try_fold f [] s = Inr s"
| "try_fold f (x # xs) s = (case f x s of Inl e \<Rightarrow> Inl e | Inr s' \<Rightarrow> try_fold f xs s')"

section \<open>Routes\<close>

definition toml_protocol :: "service_toml \<Rightarrow> service_protocol" where
  "toml_protocol s = (case st_protocol s of None \<Rightarrow> Http | Some p \<Rightarrow> service_protocol_from p)"

definition route_target_of :: "service_toml list \<Rightarrow> route_toml \<Rightarrow> config_error + route_target" where
  "route_target_of services r = (let h = rt_host r; p = rt_path r in case (rt_service r, rt_redirect_to r) of
       (Some _, Some _) \<Rightarrow> Inl (RouteBothTargets h p)
     | (None, None) \<Rightarrow> Inl (RouteNoTarget h p)
     | (Some name, None) \<Rightarrow>
         if rt_preserve_path r \<or> rt_preserve_query r then Inl (RoutePreserveOnService h p)
         else (case find (\<lambda>s. st_name s = name) services of
             None \<Rightarrow> Inl (RouteUnknownService h p name)
           | Some svc \<Rightarrow> if toml_protocol svc \<noteq> Http then Inl (RouteNotHttp h p name)
               else if st_timeout svc = None then Inl (RouteNotReachable h p name)
               else Inr (RouteService name (rt_strip_prefix r)))
     | (None, Some to) \<Rightarrow>
         if rt_strip_prefix r then Inl (RouteStripOnRedirect h p)
         else (let status = (case rt_redirect_status r of None \<Rightarrow> 301 | Some n \<Rightarrow> n)
           in if status \<notin> {301, 302, 307, 308} then Inl (RouteBadStatus h p status)
              else Inr (RouteRedirect to status (rt_preserve_path r) (rt_preserve_query r))))"

definition build_route_entries :: "service_toml list \<Rightarrow> route_toml list \<Rightarrow> config_error + route_entry list" where
  "build_route_entries services routes = try_map (\<lambda>r.
     map_sum id (\<lambda>target. \<lparr>re_host = rt_host r, re_path = rt_path r, re_target = target\<rparr>) (route_target_of services r)) routes"

section \<open>Host-match entries\<close>

definition match_host_ip :: "service_toml \<Rightarrow> config_error + u32 option" where
  "match_host_ip s = (case st_host_ip s of
       None \<Rightarrow> Inr None
     | Some ip \<Rightarrow> (case parse_ipv4 ip of None \<Rightarrow> Inl (InvalidHostIp (st_name s) ip) | Some a \<Rightarrow> Inr (Some a)))"

definition push_match_entry :: "service_toml \<Rightarrow> match_entry list \<Rightarrow> config_error + match_entry list" where
  "push_match_entry s entries = (case match_host_ip s of
       Inl e \<Rightarrow> Inl e
     | Inr host_ip \<Rightarrow>
         if st_docker_container s = None \<and> st_process_path s = None then Inr entries
         else (case st_port s of
             None \<Rightarrow> Inl (MatchKeyWithoutPort (st_name s))
           | Some port \<Rightarrow> Inr (entries @ [\<lparr>me_name = st_name s, me_port = port, me_docker_container = st_docker_container s,
               me_process_path = st_process_path s, me_host_ip = host_ip\<rparr>])))"

definition build_match_entries :: "service_toml list \<Rightarrow> config_error + match_entry list" where
  "build_match_entries services = try_fold push_match_entry services []"

section \<open>The registry entries of a stack\<close>

definition peer_ports :: "service_toml list \<Rightarrow> (string, u16) hmap" where
  "peer_ports services = fold (\<lambda>s m. case st_port s of None \<Rightarrow> m | Some p \<Rightarrow> hm_insert (st_name s) p m) services []"

text \<open>The names a declaration refers to; the first blank peer is an error.\<close>

definition dep_names :: "service_toml list \<Rightarrow> config_error + string list" where
  "dep_names services = try_fold (\<lambda>s names.
     map_sum id (\<lambda>_. names @ concat (st_proxy_dependencies s) @ st_backends s)
       (try_fold (\<lambda>peer _. if blank peer then Inl EmptyPeer else Inr ()) (st_backends s) ())) services []"

definition placeholder :: service_info where
  "placeholder = service_info_new [] [] None None Http None PolicyNone PolicyNone"

definition add_trigger :: "string \<Rightarrow> (string, u16) hmap \<Rightarrow> string \<Rightarrow> (u16, string) hmap \<Rightarrow> config_error + (u16, string) hmap" where
  "add_trigger name ports peer triggers = (case hm_get ports peer of
       None \<Rightarrow> Inl (PeerWithoutPort name peer)
     | Some port \<Rightarrow> if port = 0 then Inl (PeerWithoutPort name peer)
         else (case hm_get triggers port of
             Some previous \<Rightarrow> Inl (PeerPortClash name previous peer port)
           | None \<Rightarrow> Inr (hm_insert port peer triggers)))"

definition declare_service ::
  "(string \<Rightarrow> 'net option) \<Rightarrow> (string, u16) hmap \<Rightarrow> service_toml \<Rightarrow> services \<Rightarrow> config_error + services" where
  "declare_service net_of_str ports s m =
     (if st_pausable s \<and> st_docker_container s = None then Inl (PausableWithoutContainer (st_name s))
      else if toml_protocol s = Http \<and> st_listen_port s \<noteq> None then Inl (ListenPortOnHttp (st_name s))
      else if toml_protocol s \<noteq> Http \<and> st_listen_port s = None then Inl (ListenPortMissing (st_name s))
      else (case validate net_of_str Egress (st_egress_filter s) of
        Inl e \<Rightarrow> Inl (InvalidFilter (st_name s) e)
      | Inr egress \<Rightarrow> (case validate net_of_str Ingress (st_ingress_filter s) of
        Inl e \<Rightarrow> Inl (InvalidFilter (st_name s) e)
      | Inr ingress \<Rightarrow>
          if ingress \<noteq> PolicyNone \<and> st_timeout s = None then Inl (IngressFilterUnreachable (st_name s))
          else (case try_fold (add_trigger (st_name s) ports) (st_backends s) [] of
            Inl e \<Rightarrow> Inl e
          | Inr triggers \<Rightarrow> Inr (hm_insert (st_name s) (with_pausable (st_pausable s)
              (service_info_new (st_proxy_dependencies s) triggers (map_option unat (st_timeout s))
                (map_option unat (st_max_networks s)) (toml_protocol s) (st_listen_port s) egress ingress)) m)))))"

definition services_map :: "(string \<Rightarrow> 'net option) \<Rightarrow> service_toml list \<Rightarrow> config_error + services" where
  "services_map net_of_str services = (case dep_names services of
       Inl e \<Rightarrow> Inl e
     | Inr names \<Rightarrow> try_fold (declare_service net_of_str (peer_ports services)) services
         (fold (\<lambda>name. hm_insert name placeholder) names []))"

definition validate_stack :: "(string \<Rightarrow> 'net option) \<Rightarrow> service_toml list \<Rightarrow> route_toml list \<Rightarrow> config_error + parsed_stack" where
  "validate_stack net_of_str services routes = (case build_match_entries services of
       Inl e \<Rightarrow> Inl e
     | Inr matches \<Rightarrow> (case build_route_entries services routes of
         Inl e \<Rightarrow> Inl e
       | Inr entries \<Rightarrow> map_sum id (\<lambda>m. (m, matches, entries)) (services_map net_of_str services)))"

section \<open>Conflicts between stacks\<close>

text \<open>The scan the three checks share: the first to claim a key keeps it, every later claim is a conflict.\<close>

fun claim_conflicts :: "('k \<times> 'a) list \<Rightarrow> ('k, 'a) hmap \<Rightarrow> ('k \<times> 'a \<times> 'a) list" where
  "claim_conflicts [] claimed = []"
| "claim_conflicts ((k, a) # cs) claimed = (case hm_get claimed k of
     Some other \<Rightarrow> (k, other, a) # claim_conflicts cs claimed
   | None \<Rightarrow> claim_conflicts cs (hm_insert k a claimed))"

record port_conflict =
  pc_stack_a :: string
  pc_service_a :: string
  pc_stack_b :: string
  pc_service_b :: string
  pc_protocol :: service_protocol
  pc_listen_port :: u16

definition port_claims :: "stack_map \<Rightarrow> ((service_protocol \<times> u16) \<times> string \<times> string) list" where
  "port_claims stacks = concat (map (\<lambda>(stack, services). List.map_filter (\<lambda>(name, info).
     map_option (\<lambda>port. ((sc_protocol (si_config info), port), stack, name)) (sc_listen_port (si_config info))) services) stacks)"

definition detect_port_conflicts :: "stack_map \<Rightarrow> port_conflict list" where
  "detect_port_conflicts stacks = map (\<lambda>((protocol, port), (stack_a, service_a), (stack_b, service_b)).
     \<lparr>pc_stack_a = stack_a, pc_service_a = service_a, pc_stack_b = stack_b, pc_service_b = service_b,
      pc_protocol = protocol, pc_listen_port = port\<rparr>) (claim_conflicts (port_claims stacks) [])"

record route_conflict =
  rc_stack_a :: string
  rc_stack_b :: string
  rc_host :: string
  rc_path :: string

definition route_claims :: "route_map \<Rightarrow> ((string \<times> string) \<times> string) list" where
  "route_claims routes = concat (map (\<lambda>(stack, entries). map (\<lambda>e. ((re_host e, re_path e), stack)) entries) routes)"

definition detect_route_conflicts :: "route_map \<Rightarrow> route_conflict list" where
  "detect_route_conflicts routes = map (\<lambda>((host, path), stack_a, stack_b).
     \<lparr>rc_stack_a = stack_a, rc_stack_b = stack_b, rc_host = host, rc_path = path\<rparr>) (claim_conflicts (route_claims routes) [])"

record name_conflict =
  nc_stack_a :: string
  nc_stack_b :: string
  nc_service :: string

text \<open>Stacks and names in sorted order; the indexing of the map by its own keys cannot fail.\<close>

definition name_claims :: "stack_map \<Rightarrow> (string \<times> string) list" where
  "name_claims stacks = concat (map (\<lambda>stack. map (\<lambda>name. (name, stack))
     (sort (hm_keys (case hm_get stacks stack of Some m \<Rightarrow> m | None \<Rightarrow> [])))) (sort (hm_keys stacks)))"

definition detect_name_conflicts :: "stack_map \<Rightarrow> name_conflict list" where
  "detect_name_conflicts stacks = map (\<lambda>(service, stack_a, stack_b).
     \<lparr>nc_stack_a = stack_a, nc_stack_b = stack_b, nc_service = service\<rparr>) (claim_conflicts (name_claims stacks) [])"

record startup_conflicts =
  sf_ports :: "port_conflict list"
  sf_routes :: "route_conflict list"
  sf_names :: "name_conflict list"

type_synonym loaded = "stack_map \<times> match_index \<times> route_map"

definition bad_stacks :: "startup_conflicts \<Rightarrow> string list" where
  "bad_stacks c = concat (map (\<lambda>p. [pc_stack_a p, pc_stack_b p]) (sf_ports c)) @
     concat (map (\<lambda>r. [rc_stack_a r, rc_stack_b r]) (sf_routes c)) @ concat (map (\<lambda>n. [nc_stack_a n, nc_stack_b n]) (sf_names c))"

definition drop_conflicting :: "loaded \<Rightarrow> loaded \<times> startup_conflicts" where
  "drop_conflicting l = (case l of (stacks, index, routes) \<Rightarrow> (let
       conflicts = \<lparr>sf_ports = detect_port_conflicts stacks, sf_routes = detect_route_conflicts routes, sf_names = detect_name_conflicts stacks\<rparr>;
       bad = bad_stacks conflicts
     in ((fold hm_remove bad stacks, fold hm_remove bad index, fold hm_remove bad routes), conflicts)))"

section \<open>Observation of backend traffic\<close>

datatype observation_error =
    TooFewServices
  | PeerMustDeclarePort string string
  | BackendPortClash string string string u16

definition observe_peer ::
  "string \<Rightarrow> service_toml \<Rightarrow> (u16, string) hmap \<times> observation_error list \<Rightarrow> (u16, string) hmap \<times> observation_error list" where
  "observe_peer source peer s = (case st_port peer of
       None \<Rightarrow> (fst s, snd s @ [PeerMustDeclarePort source (st_name peer)])
     | Some port \<Rightarrow> if port = 0 then (fst s, snd s @ [PeerMustDeclarePort source (st_name peer)])
         else (hm_insert port (st_name peer) (fst s), snd s @ (case hm_get (fst s) port of
             None \<Rightarrow> [] | Some previous \<Rightarrow> [BackendPortClash source previous (st_name peer) port])))"

definition observation_errors :: "service_toml list \<Rightarrow> observation_error list" where
  "observation_errors services = (if length services < 2 then [TooFewServices] else []) @
     concat (map (\<lambda>source. snd (fold (observe_peer (st_name source))
       (filter (\<lambda>peer. st_name peer \<noteq> st_name source) services) ([], []))) services)"

definition observation_backends :: "service_toml list \<Rightarrow> observation_error list + service_toml list" where
  "observation_backends services = (if observation_errors services \<noteq> [] then Inl (observation_errors services)
     else Inr (map (\<lambda>s. s\<lparr>st_backends := filter (\<lambda>n. n \<noteq> st_name s) (map st_name services)\<rparr>) services))"

end
