(* ===== verification/Config_Store.thy ===== *)
theory Config_Store
  imports Config_Input Timeouts
begin

text \<open>
  Stored configuration and how it becomes live (nullnet-server, \<^verbatim>\<open>services/input.rs\<close>,
  \<^verbatim>\<open>db/stacks.rs\<close>, \<^verbatim>\<open>db/observations.rs\<close> and the handlers of \<^verbatim>\<open>http_server\<close>): the tables and their
  constraints, loading and validating every stack, applying a loaded configuration to the
  registry, and saving, deleting, observing.  A table is the list of its rows in the order of
  their keys.  The JSON codec, the filter engine and the geo cache are arguments.
\<close>

section \<open>Rows\<close>

record service_row =
  sr_id :: int
  sr_stack :: string
  sr_name :: string
  sr_docker_container :: "string option"
  sr_process_path :: "string option"
  sr_host_ip :: "string option"
  sr_pausable :: bool
  sr_port :: "int option"
  sr_timeout :: "int option"
  sr_max_networks :: "int option"
  sr_protocol :: "string option"
  sr_listen_port :: "int option"
  sr_egress_filter :: "string option"
  sr_ingress_filter :: "string option"

record trigger_row =
  tr_service_id :: int
  tr_peer :: string

record dependency_row =
  dr_service_id :: int
  dr_branch_index :: int
  dr_chain :: string

record route_row =
  rr_stack :: string
  rr_host :: string
  rr_path :: string
  rr_target_kind :: string
  rr_target_service :: "string option"
  rr_strip_prefix :: bool
  rr_redirect_to :: "string option"
  rr_redirect_status :: "int option"
  rr_preserve_path :: bool
  rr_preserve_query :: bool

record observed_edge =
  oe_source :: string
  oe_destination :: string
  oe_count :: int

text \<open>An observation keeps the services as they were saved when it started, and the edges counted.\<close>

record observation_row =
  ob_id :: int
  ob_stack :: string
  ob_ended :: bool
  ob_applied :: bool
  ob_saved :: "service_toml list"
  ob_counts :: "observed_edge list"

record database =
  db_stacks :: "string list"
  db_services :: "service_row list"
  db_triggers :: "trigger_row list"
  db_dependencies :: "dependency_row list"
  db_routes :: "route_row list"
  db_observations :: "observation_row list"
  db_next_service :: int
  db_next_observation :: int

section \<open>Rows and declarations\<close>

record json =
  js_policy :: "filter_policy \<Rightarrow> string"
  js_policy_of :: "string \<Rightarrow> filter_policy option"
  js_chain :: "string list \<Rightarrow> string"
  js_chain_of :: "string \<Rightarrow> string list option"

definition encode_filter :: "json \<Rightarrow> filter_policy \<Rightarrow> string option" where
  "encode_filter js p = (if p = PolicyNone then None else Some (js_policy js p))"

definition decode_filter :: "json \<Rightarrow> string option \<Rightarrow> filter_policy" where
  "decode_filter js j = (case Option.bind j (js_policy_of js) of None \<Rightarrow> PolicyNone | Some p \<Rightarrow> p)"

text \<open>\<^verbatim>\<open>try_from\<close> between machine integers and the signed columns of the tables.\<close>

definition to_signed :: "nat \<Rightarrow> 'a::len word \<Rightarrow> int option" where
  "to_signed bits w = (if uint w < 2 ^ (bits - 1) then Some (uint w) else None)"

definition of_signed :: "int \<Rightarrow> 'a::len word option" where
  "of_signed i = (if 0 \<le> i \<and> i < 2 ^ LENGTH('a) then Some (of_int i) else None)"

definition protocol_name :: "protocol_toml \<Rightarrow> string" where
  "protocol_name p = (case p of HttpToml \<Rightarrow> ''http'' | TcpToml \<Rightarrow> ''tcp'' | UdpToml \<Rightarrow> ''udp'')"

definition protocol_of_name :: "string \<Rightarrow> protocol_toml" where
  "protocol_of_name s = (if s = ''tcp'' then TcpToml else if s = ''udp'' then UdpToml else HttpToml)"

record service_insert =
  si_row :: service_row
  si_backends :: "string list"
  si_dependencies :: "string list"

text \<open>The columns of a service; the identifier and the stack are filled in by the insertion.\<close>

definition service_to_insert :: "json \<Rightarrow> service_toml \<Rightarrow> service_insert" where
  "service_to_insert js s = \<lparr>si_row = \<lparr>sr_id = 0, sr_stack = [], sr_name = st_name s, sr_docker_container = st_docker_container s,
       sr_process_path = st_process_path s, sr_host_ip = st_host_ip s, sr_pausable = st_pausable s,
       sr_port = map_option uint (st_port s), sr_timeout = Option.bind (st_timeout s) (to_signed 64),
       sr_max_networks = Option.bind (st_max_networks s) (to_signed 32), sr_protocol = map_option protocol_name (st_protocol s),
       sr_listen_port = map_option uint (st_listen_port s),
       sr_egress_filter = encode_filter js (st_egress_filter s), sr_ingress_filter = encode_filter js (st_ingress_filter s)\<rparr>,
     si_backends = st_backends s, si_dependencies = map (js_chain js) (st_proxy_dependencies s)\<rparr>"

definition services_to_inserts :: "json \<Rightarrow> service_toml list \<Rightarrow> service_insert list" where
  "services_to_inserts js services = map (service_to_insert js) services"

definition service_from_row :: "json \<Rightarrow> trigger_row list \<Rightarrow> dependency_row list \<Rightarrow> service_row \<Rightarrow> service_toml" where
  "service_from_row js triggers dependencies row = \<lparr>st_name = sr_name row, st_docker_container = sr_docker_container row,
     st_process_path = sr_process_path row, st_host_ip = sr_host_ip row, st_pausable = sr_pausable row,
     st_port = Option.bind (sr_port row) of_signed, st_timeout = Option.bind (sr_timeout row) of_signed,
     st_proxy_dependencies = map (\<lambda>d. case js_chain_of js (dr_chain d) of None \<Rightarrow> [] | Some c \<Rightarrow> c)
       (filter (\<lambda>d. dr_service_id d = sr_id row) dependencies),
     st_backends = map tr_peer (filter (\<lambda>t. tr_service_id t = sr_id row) triggers),
     st_max_networks = Option.bind (sr_max_networks row) of_signed, st_protocol = map_option protocol_of_name (sr_protocol row),
     st_listen_port = Option.bind (sr_listen_port row) of_signed,
     st_egress_filter = decode_filter js (sr_egress_filter row), st_ingress_filter = decode_filter js (sr_ingress_filter row)\<rparr>"

definition services_from_rows :: "json \<Rightarrow> service_row list \<Rightarrow> trigger_row list \<Rightarrow> dependency_row list \<Rightarrow> service_toml list" where
  "services_from_rows js rows triggers dependencies = map (service_from_row js triggers dependencies) rows"

definition route_toml_from_row :: "route_row \<Rightarrow> route_toml" where
  "route_toml_from_row row = \<lparr>rt_host = rr_host row, rt_path = rr_path row, rt_service = rr_target_service row,
     rt_strip_prefix = rr_strip_prefix row, rt_redirect_to = rr_redirect_to row,
     rt_redirect_status = Option.bind (rr_redirect_status row) of_signed,
     rt_preserve_path = rr_preserve_path row, rt_preserve_query = rr_preserve_query row\<rparr>"

definition route_entry_to_insert :: "string \<Rightarrow> route_entry \<Rightarrow> route_row" where
  "route_entry_to_insert stack r = (case re_target r of
       RouteService name strip \<Rightarrow> \<lparr>rr_stack = stack, rr_host = re_host r, rr_path = re_path r, rr_target_kind = ''service'',
         rr_target_service = Some name, rr_strip_prefix = strip, rr_redirect_to = None, rr_redirect_status = None,
         rr_preserve_path = False, rr_preserve_query = False\<rparr>
     | RouteRedirect to status preserve_path preserve_query \<Rightarrow> \<lparr>rr_stack = stack, rr_host = re_host r, rr_path = re_path r,
         rr_target_kind = ''redirect'', rr_target_service = None, rr_strip_prefix = False, rr_redirect_to = Some to,
         rr_redirect_status = Some (uint status), rr_preserve_path = preserve_path, rr_preserve_query = preserve_query\<rparr>)"

section \<open>Queries\<close>

definition services_for :: "string \<Rightarrow> database \<Rightarrow> service_row list" where
  "services_for stack db = filter (\<lambda>r. sr_stack r = stack) (db_services db)"

definition triggers_for :: "int list \<Rightarrow> database \<Rightarrow> trigger_row list" where
  "triggers_for ids db = filter (\<lambda>t. tr_service_id t \<in> set ids) (db_triggers db)"

definition dependencies_for :: "int list \<Rightarrow> database \<Rightarrow> dependency_row list" where
  "dependencies_for ids db = sort_key (\<lambda>d. (dr_service_id d, dr_branch_index d))
     (filter (\<lambda>d. dr_service_id d \<in> set ids) (db_dependencies db))"

definition routes_for :: "string \<Rightarrow> database \<Rightarrow> route_row list" where
  "routes_for stack db = filter (\<lambda>r. rr_stack r = stack) (db_routes db)"

definition observation_active :: "string \<Rightarrow> database \<Rightarrow> observation_row option" where
  "observation_active stack db = find (\<lambda>r. ob_stack r = stack \<and> \<not> ob_ended r) (db_observations db)"

definition stored_services :: "json \<Rightarrow> string \<Rightarrow> database \<Rightarrow> service_toml list" where
  "stored_services js stack db = (let rows = services_for stack db; ids = map sr_id rows
     in services_from_rows js rows (triggers_for ids db) (dependencies_for ids db))"

definition stack_services_from_db :: "json \<Rightarrow> string \<Rightarrow> database \<Rightarrow> service_toml list option" where
  "stack_services_from_db js stack db = (if stack \<in> set (db_stacks db) then Some (stored_services js stack db) else None)"

definition validate_new_services ::
  "(string \<Rightarrow> 'net option) \<Rightarrow> string \<Rightarrow> service_toml list \<Rightarrow> database \<Rightarrow> config_error + parsed_stack" where
  "validate_new_services net_of_str stack services db =
     validate_stack net_of_str services (map route_toml_from_row (routes_for stack db))"

section \<open>Transactions\<close>

text \<open>\<^const>\<open>None\<close> is a violated constraint, after which nothing is changed.\<close>

definition delete_services :: "string \<Rightarrow> database \<Rightarrow> database" where
  "delete_services stack db = (let ids = map sr_id (services_for stack db) in db\<lparr>
     db_services := filter (\<lambda>r. sr_stack r \<noteq> stack) (db_services db),
     db_triggers := filter (\<lambda>t. tr_service_id t \<notin> set ids) (db_triggers db),
     db_dependencies := filter (\<lambda>d. dr_service_id d \<notin> set ids) (db_dependencies db)\<rparr>)"

definition insert_service :: "string \<Rightarrow> service_insert \<Rightarrow> database \<Rightarrow> database option" where
  "insert_service stack ins db = (let n = db_next_service db in
     if list_ex (\<lambda>r. sr_stack r = stack \<and> sr_name r = sr_name (si_row ins)) (db_services db) \<or> \<not> distinct (si_backends ins) then None
     else Some (db\<lparr>db_services := db_services db @ [(si_row ins)\<lparr>sr_id := n, sr_stack := stack\<rparr>],
       db_triggers := db_triggers db @ map (\<lambda>peer. \<lparr>tr_service_id = n, tr_peer = peer\<rparr>) (si_backends ins),
       db_dependencies := db_dependencies db @ map (\<lambda>(i, chain). \<lparr>dr_service_id = n, dr_branch_index = int i, dr_chain = chain\<rparr>)
         (enumerate 0 (si_dependencies ins)),
       db_next_service := n + 1\<rparr>))"

definition insert_route :: "route_row \<Rightarrow> database \<Rightarrow> database option" where
  "insert_route row db = (if list_ex (\<lambda>r. rr_stack r = rr_stack row \<and> rr_host r = rr_host row \<and> rr_path r = rr_path row) (db_routes db)
     then None else Some (db\<lparr>db_routes := db_routes db @ [row]\<rparr>))"

definition put_configuration :: "string \<Rightarrow> service_insert list option \<Rightarrow> route_row list option \<Rightarrow> database \<Rightarrow> database option" where
  "put_configuration stack new_services new_routes db = do {
     let db = db\<lparr>db_stacks := (if stack \<in> set (db_stacks db) then db_stacks db else db_stacks db @ [stack])\<rparr>;
     db \<leftarrow> (case new_services of None \<Rightarrow> Some db | Some items \<Rightarrow> foldM (insert_service stack) items (delete_services stack db));
     (case new_routes of None \<Rightarrow> Some db
      | Some rows \<Rightarrow> foldM insert_route rows (db\<lparr>db_routes := filter (\<lambda>r. rr_stack r \<noteq> stack) (db_routes db)\<rparr>))
   }"

definition delete_stack :: "string \<Rightarrow> database \<Rightarrow> database" where
  "delete_stack stack db = (delete_services stack db)\<lparr>db_stacks := removeAll stack (db_stacks db),
     db_routes := filter (\<lambda>r. rr_stack r \<noteq> stack) (db_routes db),
     db_observations := filter (\<lambda>r. ob_stack r \<noteq> stack) (db_observations db)\<rparr>"

section \<open>Loading\<close>

datatype load_error = InvalidStack config_error | InvalidObservation "observation_error list"

definition load_stack :: "(string \<Rightarrow> 'net option) \<Rightarrow> json \<Rightarrow> database \<Rightarrow> string \<Rightarrow> load_error + parsed_stack" where
  "load_stack net_of_str js db stack = (let
       services = stored_services js stack db;
       observed = (if observation_active stack db \<noteq> None then observation_backends services else Inr services)
     in case observed of
          Inl errors \<Rightarrow> Inl (InvalidObservation errors)
        | Inr services \<Rightarrow> map_sum InvalidStack id (validate_stack net_of_str services (map route_toml_from_row (routes_for stack db))))"

definition load :: "(string \<Rightarrow> 'net option) \<Rightarrow> json \<Rightarrow> database \<Rightarrow> load_error + loaded" where
  "load net_of_str js db = try_fold (\<lambda>stack (stacks, index, routes).
     map_sum id (\<lambda>(services, matches, entries). (hm_insert stack services stacks, hm_insert stack matches index, hm_insert stack entries routes))
       (load_stack net_of_str js db stack)) (db_stacks db) ([], [], [])"

definition load_validated :: "(string \<Rightarrow> 'net option) \<Rightarrow> json \<Rightarrow> database \<Rightarrow> load_error + loaded \<times> startup_conflicts" where
  "load_validated net_of_str js db = map_sum id drop_conflicting (load net_of_str js db)"

section \<open>Applying a configuration\<close>

record ('e, 'net) engine =
  en_from_tokens :: "filter_rule rpn_token list \<Rightarrow> 'e option"
  en_evaluate :: "'e \<Rightarrow> (filter_rule \<Rightarrow> bool) \<Rightarrow> bool"
  en_net_of_str :: "string \<Rightarrow> 'net option"
  en_net_contains :: "'net \<Rightarrow> ip_addr \<Rightarrow> bool"

definition policy_allows :: "('e, 'net) engine \<Rightarrow> filter_policy \<Rightarrow> filter_context \<Rightarrow> bool" where
  "policy_allows en = allows (en_from_tokens en) (en_evaluate en) (en_net_of_str en) (en_net_contains en)"

definition policies_of :: "(service_config \<Rightarrow> filter_policy) \<Rightarrow> stack_map \<Rightarrow> (string \<times> string, filter_policy) hmap" where
  "policies_of f services = concat (map (\<lambda>(stack, m). map (\<lambda>(name, si). ((stack, name), f (si_config si)))
     (filter (\<lambda>(_, si). f (si_config si) \<noteq> PolicyNone) m)) services)"

definition egress_policies :: "stack_map \<Rightarrow> (string \<times> string, filter_policy) hmap" where
  "egress_policies = policies_of sc_egress_policy"

definition ingress_policies :: "stack_map \<Rightarrow> (string \<times> string, filter_policy) hmap" where
  "ingress_policies = policies_of sc_ingress_policy"

definition session_denied :: "('e, 'net) engine \<Rightarrow> (u32 \<Rightarrow> geo_info option) \<Rightarrow> filter_policy \<Rightarrow> client \<Rightarrow> bool" where
  "session_denied en geo_get policy c \<longleftrightarrow> cl_proxy c \<noteq> None \<and> (case parse_ipv4 (cl_name c) of
       None \<Rightarrow> False | Some ip \<Rightarrow> \<not> policy_allows en policy \<lparr>fc_ip = ip, fc_geo = geo_get ip\<rparr>)"

definition denied_sessions ::
  "('e, 'net) engine \<Rightarrow> (u32 \<Rightarrow> geo_info option) \<Rightarrow> (string \<times> string) list \<Rightarrow> stack_map \<Rightarrow> (string \<times> string \<times> client) list" where
  "denied_sessions en geo_get changed services = concat (map (\<lambda>(stack, m). concat (map (\<lambda>(name, info).
     (let policy = sc_ingress_policy (si_config info) in
      if (stack, name) \<notin> set changed \<or> policy = PolicyNone then []
      else (case info of
          Registered reg \<Rightarrow> map (\<lambda>c. (stack, name, c)) (filter (session_denied en geo_get policy) (map fst (all_clients_owned reg)))
        | Unregistered _ \<Rightarrow> []))) m)) services)"

definition teardown_ingress_denied_sessions ::
  "('e, 'net) engine \<Rightarrow> (u32 \<Rightarrow> geo_info option) \<Rightarrow> (string \<times> string) list \<Rightarrow> stack_map \<times> orch \<Rightarrow> (stack_map \<times> orch) option" where
  "teardown_ingress_denied_sessions en geo_get changed w =
     foldM (\<lambda>(stack, name, c). on_stack stack (apply_changes [ForceSessionTeardown name c] None stack))
       (denied_sessions en geo_get changed (fst w)) w"

definition remove_stack :: "string \<Rightarrow> stack_map \<times> orch \<Rightarrow> (stack_map \<times> orch) option" where
  "remove_stack stack w = do {
     w \<leftarrow> on_stack stack (\<lambda>sw. apply_changes (map Removed (hm_keys (fst sw))) None stack sw) (fst w, emit (ConfigStackRemoved stack) (snd w));
     Some (hm_remove stack (fst w), snd w)
   }"

definition reload_stack :: "instant \<Rightarrow> string \<Rightarrow> services \<Rightarrow> stack_map \<times> orch \<Rightarrow> (stack_map \<times> orch) option" where
  "reload_stack now stack loaded_stack w = do {
     w \<leftarrow> on_stack stack (\<lambda>sw. apply_changes (detect_config_changes now (fst sw) loaded_stack) (Some loaded_stack) stack sw)
       (if hm_get (fst w) stack = None then hm_insert stack [] (fst w) else fst w, snd w);
     Some (fst w, emit (ConfigReloaded stack) (snd w))
   }"

definition changed_ingress :: "stack_map \<Rightarrow> stack_map \<Rightarrow> (string \<times> string) list" where
  "changed_ingress before after =
     map fst (filter (\<lambda>(k, v). hm_get (ingress_policies before) k \<noteq> Some v) (ingress_policies after))"

definition apply_config_update ::
  "('e, 'net) engine \<Rightarrow> (u32 \<Rightarrow> geo_info option) \<Rightarrow> instant \<Rightarrow> stack_map \<Rightarrow> stack_map \<times> orch \<Rightarrow> (stack_map \<times> orch) option" where
  "apply_config_update en geo_get now loaded_services w = do {
     let services = fst w;
     w \<leftarrow> foldM remove_stack (filter (\<lambda>s. hm_get loaded_services s = None) (hm_keys services)) w;
     w \<leftarrow> foldM (\<lambda>(stack, loaded_stack). reload_stack now stack loaded_stack) loaded_services w;
     let st = reconcile_container_pauses (fst w) (snd w);
     let st = (if \<not> hm_eq (egress_policies services) (egress_policies loaded_services) then broadcast_egress_policy_changed st else st);
     let changed = changed_ingress services loaded_services;
     (if changed = [] then Some (fst w, st) else teardown_ingress_denied_sessions en geo_get changed (fst w, st))
   }"

section \<open>The application\<close>

record app =
  ap_db :: database
  ap_services :: stack_map
  ap_index :: match_index
  ap_routes :: route_map
  ap_orch :: orch

definition misplaced_replicas :: "match_entry list \<Rightarrow> services \<Rightarrow> service_change list" where
  "misplaced_replicas entries services = concat (map (\<lambda>e. case (me_host_ip e, hm_get services (me_name e)) of
       (Some host_ip, Some (Registered reg)) \<Rightarrow> map (\<lambda>r. ReplicaRemoved (me_name e) (rp_ip r) (rp_docker r))
         (filter (\<lambda>r. rp_ip r \<noteq> V4 host_ip) (rg_replicas reg))
     | _ \<Rightarrow> []) entries)"

text \<open>\<^const>\<open>None\<close> for a stack of the index that is not in the registry, where the code unwraps.\<close>

definition move_replicas :: "string \<times> match_entry list \<Rightarrow> stack_map \<times> orch \<Rightarrow> (stack_map \<times> orch) option" where
  "move_replicas e w = (case hm_get (fst w) (fst e) of
       None \<Rightarrow> None
     | Some _ \<Rightarrow> on_stack (fst e) (\<lambda>sw. apply_changes (misplaced_replicas (snd e) (fst sw)) None (fst e) sw) w)"

definition apply_loaded ::
  "('e, 'net) engine \<Rightarrow> (u32 \<Rightarrow> geo_info option) \<Rightarrow> instant \<Rightarrow> loaded \<Rightarrow> app \<Rightarrow> app option" where
  "apply_loaded en geo_get now l a = (case l of (loaded_services, loaded_index, loaded_routes) \<Rightarrow> do {
     w \<leftarrow> apply_config_update en geo_get now loaded_services (ap_services a, ap_orch a);
     w \<leftarrow> foldM move_replicas loaded_index w;
     Some (a\<lparr>ap_services := fst w, ap_orch := snd w, ap_index := loaded_index, ap_routes := loaded_routes\<rparr>)
   })"

definition protocol_debug :: "service_protocol \<Rightarrow> string" where
  "protocol_debug p = (case p of Http \<Rightarrow> ''Http'' | Tcp \<Rightarrow> ''Tcp'' | Udp \<Rightarrow> ''Udp'')"

definition report_conflicts :: "startup_conflicts \<Rightarrow> orch \<Rightarrow> orch" where
  "report_conflicts c st = fold (\<lambda>n. emit (ServiceNameConflict (nc_stack_a n) (nc_stack_b n) (nc_service n))) (sf_names c)
     (fold (\<lambda>r. emit (RouteConflictFound (rc_stack_a r) (rc_stack_b r) (rc_host r) (rc_path r))) (sf_routes c)
       (fold (\<lambda>p. emit (PortMappingConflict (pc_stack_a p) (pc_service_a p) (pc_stack_b p) (pc_service_b p)
          (protocol_debug (pc_protocol p)) (pc_listen_port p))) (sf_ports c) st))"

definition startup :: "(string \<Rightarrow> 'net option) \<Rightarrow> json \<Rightarrow> database \<Rightarrow> orch \<Rightarrow> load_error + app" where
  "startup net_of_str js db st = map_sum id (\<lambda>((stacks, index, routes), conflicts).
     \<lparr>ap_db = db, ap_services = stacks, ap_index = index, ap_routes = routes, ap_orch = report_conflicts conflicts st\<rparr>)
     (load_validated net_of_str js db)"

text \<open>A load that fails is logged and leaves everything as it is.\<close>

definition reload_and_apply ::
  "('e, 'net) engine \<Rightarrow> (u32 \<Rightarrow> geo_info option) \<Rightarrow> json \<Rightarrow> instant \<Rightarrow> app \<Rightarrow> app option" where
  "reload_and_apply en geo_get js now a = (case load (en_net_of_str en) js (ap_db a) of
       Inl _ \<Rightarrow> Some a
     | Inr l \<Rightarrow> (let conflicts = snd (drop_conflicting l) in
         if sf_ports conflicts = [] \<and> sf_routes conflicts = [] \<and> sf_names conflicts = [] then apply_loaded en geo_get now l a
         else Some (a\<lparr>ap_orch := report_conflicts conflicts (ap_orch a)\<rparr>)))"

section \<open>Saving\<close>

text \<open>Every handler runs under the configuration lock; the check of the caller's scopes comes before.\<close>

datatype reject =
    InvalidStackName
  | StopObservationFirst
  | InvalidConfiguration config_error
  | InvalidObservationConfig "observation_error list"
  | ListenPortUsed u16 string string
  | ServiceNameUsed string string
  | RouteClaimed string string string
  | StackMissing
  | WriteFailed
  | ObservationMissing
  | ObservationRunning
  | ConfigurationChanged
  | InternalError

definition is_alphanumeric :: "char \<Rightarrow> bool" where
  "is_alphanumeric c \<longleftrightarrow> is_digit c \<or> (65 \<le> (of_char c :: nat) \<and> (of_char c :: nat) \<le> 90) \<or> (97 \<le> (of_char c :: nat) \<and> (of_char c :: nat) \<le> 122)"

definition valid_stack_name :: "string \<Rightarrow> bool" where
  "valid_stack_name stack \<longleftrightarrow> stack \<noteq> [] \<and> list_all (\<lambda>c. is_alphanumeric c \<or> c = CHR ''_'' \<or> c = CHR ''-'') stack"

definition port_conflict_message :: "stack_map \<Rightarrow> string \<Rightarrow> reject option" where
  "port_conflict_message candidate stack = map_option (\<lambda>c.
     if pc_stack_a c = stack then ListenPortUsed (pc_listen_port c) (pc_service_b c) (pc_stack_b c)
     else ListenPortUsed (pc_listen_port c) (pc_service_a c) (pc_stack_a c))
     (find (\<lambda>c. pc_stack_a c = stack \<or> pc_stack_b c = stack) (detect_port_conflicts candidate))"

definition route_conflict_message :: "route_map \<Rightarrow> string \<Rightarrow> reject option" where
  "route_conflict_message candidate stack = map_option (\<lambda>c.
     RouteClaimed (rc_host c) (rc_path c) (if rc_stack_a c = stack then rc_stack_b c else rc_stack_a c))
     (find (\<lambda>c. rc_stack_a c = stack \<or> rc_stack_b c = stack) (detect_route_conflicts candidate))"

definition name_conflict_message :: "stack_map \<Rightarrow> string \<Rightarrow> reject option" where
  "name_conflict_message candidate stack = map_option (\<lambda>c.
     ServiceNameUsed (nc_service c) (if nc_stack_a c = stack then nc_stack_b c else nc_stack_a c))
     (find (\<lambda>c. nc_stack_a c = stack \<or> nc_stack_b c = stack) (detect_name_conflicts candidate))"

text \<open>The pre-check of a save: the first conflict the stack is party to, in the order of the code.\<close>

definition cross_stack_conflict :: "string \<Rightarrow> services \<Rightarrow> route_entry list \<Rightarrow> app \<Rightarrow> reject option" where
  "cross_stack_conflict stack parsed parsed_routes a = (let candidate = hm_insert stack parsed (ap_services a) in
     case port_conflict_message candidate stack of
       Some r \<Rightarrow> Some r
     | None \<Rightarrow> (case name_conflict_message candidate stack of
         Some r \<Rightarrow> Some r
       | None \<Rightarrow> route_conflict_message (hm_insert stack parsed_routes (ap_routes a)) stack))"

type_synonym response = "(reject option \<times> app) option"

definition persisted ::
  "('e, 'net) engine \<Rightarrow> (u32 \<Rightarrow> geo_info option) \<Rightarrow> json \<Rightarrow> instant \<Rightarrow> database option \<Rightarrow> app \<Rightarrow> response" where
  "persisted en geo_get js now db a = (case db of
       None \<Rightarrow> Some (Some WriteFailed, a)
     | Some db \<Rightarrow> map_option (\<lambda>a. (None, a)) (reload_and_apply en geo_get js now (a\<lparr>ap_db := db\<rparr>)))"

definition save_services ::
  "('e, 'net) engine \<Rightarrow> (u32 \<Rightarrow> geo_info option) \<Rightarrow> json \<Rightarrow> instant \<Rightarrow> string \<Rightarrow> service_toml list \<Rightarrow> app \<Rightarrow> response" where
  "save_services en geo_get js now stack services a =
     (if \<not> valid_stack_name stack then Some (Some InvalidStackName, a)
      else if observation_active stack (ap_db a) \<noteq> None then Some (Some StopObservationFirst, a)
      else (case validate_new_services (en_net_of_str en) stack services (ap_db a) of
          Inl e \<Rightarrow> Some (Some (InvalidConfiguration e), a)
        | Inr (parsed, _, parsed_routes) \<Rightarrow> (case cross_stack_conflict stack parsed parsed_routes a of
            Some r \<Rightarrow> Some (Some r, a)
          | None \<Rightarrow> persisted en geo_get js now (put_configuration stack (Some (services_to_inserts js services)) None (ap_db a)) a)))"

text \<open>The parse of an uploaded file is an argument.\<close>

definition import_stack ::
  "('e, 'net) engine \<Rightarrow> (u32 \<Rightarrow> geo_info option) \<Rightarrow> json \<Rightarrow> instant \<Rightarrow> string \<Rightarrow> service_toml list \<Rightarrow> route_toml list \<Rightarrow> app \<Rightarrow> response" where
  "import_stack en geo_get js now stack services routes a =
     (if \<not> valid_stack_name stack then Some (Some InvalidStackName, a)
      else if observation_active stack (ap_db a) \<noteq> None then Some (Some StopObservationFirst, a)
      else (case validate_stack (en_net_of_str en) services routes of
          Inl e \<Rightarrow> Some (Some (InvalidConfiguration e), a)
        | Inr (parsed, _, parsed_routes) \<Rightarrow> (case cross_stack_conflict stack parsed parsed_routes a of
            Some r \<Rightarrow> Some (Some r, a)
          | None \<Rightarrow> persisted en geo_get js now (put_configuration stack (Some (services_to_inserts js services))
              (Some (map (route_entry_to_insert stack) parsed_routes)) (ap_db a)) a)))"

definition delete_handler ::
  "('e, 'net) engine \<Rightarrow> (u32 \<Rightarrow> geo_info option) \<Rightarrow> json \<Rightarrow> instant \<Rightarrow> string \<Rightarrow> app \<Rightarrow> response" where
  "delete_handler en geo_get js now stack a =
     (if \<not> valid_stack_name stack then Some (Some InvalidStackName, a)
      else if observation_active stack (ap_db a) \<noteq> None then Some (Some StopObservationFirst, a)
      else if stack \<notin> set (db_stacks (ap_db a)) then Some (Some StackMissing, a)
      else persisted en geo_get js now (Some (delete_stack stack (ap_db a))) a)"

definition check_route :: "services \<Rightarrow> route_entry \<Rightarrow> config_error + route_entry" where
  "check_route services r = (let h = re_host r; p = re_path r in case re_target r of
       RouteService name _ \<Rightarrow> (case hm_get services name of
           None \<Rightarrow> Inl (RouteUnknownService h p name)
         | Some info \<Rightarrow> if sc_protocol (si_config info) \<noteq> Http then Inl (RouteNotHttp h p name)
             else if si_timeout info = None then Inl (RouteNotReachable h p name) else Inr r)
     | RouteRedirect _ status _ _ \<Rightarrow> if status \<notin> {301, 302, 307, 308} then Inl (RouteBadStatus h p status) else Inr r)"

definition save_routes ::
  "('e, 'net) engine \<Rightarrow> (u32 \<Rightarrow> geo_info option) \<Rightarrow> json \<Rightarrow> instant \<Rightarrow> string \<Rightarrow> route_entry list \<Rightarrow> app \<Rightarrow> response" where
  "save_routes en geo_get js now stack body a =
     (if \<not> valid_stack_name stack then Some (Some InvalidStackName, a)
      else if observation_active stack (ap_db a) \<noteq> None then Some (Some StopObservationFirst, a)
      else (case hm_get (ap_services a) stack of
          None \<Rightarrow> Some (Some StackMissing, a)
        | Some services \<Rightarrow> (case try_map (check_route services) body of
            Inl e \<Rightarrow> Some (Some (InvalidConfiguration e), a)
          | Inr entries \<Rightarrow> (case route_conflict_message (hm_insert stack entries (ap_routes a)) stack of
              Some r \<Rightarrow> Some (Some r, a)
            | None \<Rightarrow> persisted en geo_get js now (put_configuration stack None (Some (map (route_entry_to_insert stack) entries)) (ap_db a)) a))))"

section \<open>Observations\<close>

definition links :: "service_toml list \<Rightarrow> (string \<times> string) list" where
  "links services = concat (map (\<lambda>s. map (\<lambda>peer. (st_name s, peer)) (st_backends s)) services)"

definition suggested :: "service_toml list \<Rightarrow> observed_edge list \<Rightarrow> service_toml list" where
  "suggested services counts = map (\<lambda>s. s\<lparr>st_backends := map oe_destination (filter (\<lambda>e. oe_source e = st_name s \<and>
     oe_destination e \<noteq> st_name s \<and> oe_destination e \<in> set (map st_name services) \<and> oe_count e > 0) counts)\<rparr>) services"

text \<open>What the three handlers share: the stack's services are replaced in a fresh load of everything,
  and the step of the observation is reported.\<close>

definition apply_observed ::
  "('e, 'net) engine \<Rightarrow> (u32 \<Rightarrow> geo_info option) \<Rightarrow> json \<Rightarrow> instant \<Rightarrow> string \<Rightarrow> service_toml list \<Rightarrow> database option \<Rightarrow> event \<Rightarrow> app \<Rightarrow> response" where
  "apply_observed en geo_get js now stack services db ev a =
     (case validate_new_services (en_net_of_str en) stack services (ap_db a) of
        Inl _ \<Rightarrow> Some (Some InternalError, a)
      | Inr (parsed, _, _) \<Rightarrow> (case load (en_net_of_str en) js (ap_db a) of
          Inl _ \<Rightarrow> Some (Some InternalError, a)
        | Inr (loaded, index, routes) \<Rightarrow> (case db of
            None \<Rightarrow> Some (Some InternalError, a)
          | Some db \<Rightarrow> map_option (\<lambda>a. (None, a\<lparr>ap_orch := emit ev (ap_orch a)\<rparr>))
              (apply_loaded en geo_get now (hm_insert stack parsed loaded, index, routes) (a\<lparr>ap_db := db\<rparr>)))))"

definition start_observation ::
  "('e, 'net) engine \<Rightarrow> (u32 \<Rightarrow> geo_info option) \<Rightarrow> json \<Rightarrow> instant \<Rightarrow> string \<Rightarrow> app \<Rightarrow> response" where
  "start_observation en geo_get js now stack a =
     (if \<not> valid_stack_name stack then Some (Some InvalidStackName, a)
      else if observation_active stack (ap_db a) \<noteq> None then Some (Some StopObservationFirst, a)
      else (case stack_services_from_db js stack (ap_db a) of
          None \<Rightarrow> Some (Some StackMissing, a)
        | Some saved \<Rightarrow> (case observation_backends saved of
            Inl errors \<Rightarrow> Some (Some (InvalidObservationConfig errors), a)
          | Inr expanded \<Rightarrow> (let db = ap_db a; row = \<lparr>ob_id = db_next_observation db, ob_stack = stack, ob_ended = False,
                ob_applied = False, ob_saved = saved, ob_counts = []\<rparr>
              in apply_observed en geo_get js now stack expanded (Some (db\<lparr>db_observations := db_observations db @ [row],
                db_next_observation := db_next_observation db + 1\<rparr>)) (ObservationChanged stack (ob_id row) ''started'') a))))"

definition find_observation :: "string \<Rightarrow> int \<Rightarrow> database \<Rightarrow> observation_row option" where
  "find_observation stack n db = find (\<lambda>r. ob_stack r = stack \<and> ob_id r = n) (db_observations db)"

definition stop_observation ::
  "('e, 'net) engine \<Rightarrow> (u32 \<Rightarrow> geo_info option) \<Rightarrow> json \<Rightarrow> instant \<Rightarrow> string \<Rightarrow> int \<Rightarrow> app \<Rightarrow> response" where
  "stop_observation en geo_get js now stack n a = (let db = ap_db a in case find_observation stack n db of
       None \<Rightarrow> Some (Some ObservationMissing, a)
     | Some row \<Rightarrow> if ob_ended row then Some (None, a)
         else (case stack_services_from_db js stack db of
             None \<Rightarrow> Some (Some StackMissing, a)
           | Some saved \<Rightarrow> apply_observed en geo_get js now stack saved (Some (db\<lparr>db_observations :=
               map (\<lambda>r. if ob_id r = n \<and> \<not> ob_ended r then r\<lparr>ob_ended := True\<rparr> else r) (db_observations db)\<rparr>)) (ObservationChanged stack n ''stopped'') a))"

definition replace_triggers :: "string \<Rightarrow> service_toml list \<Rightarrow> database \<Rightarrow> database option" where
  "replace_triggers stack services db = (let
       rows = services_for stack db; ids = map sr_id rows;
       new = concat (map (\<lambda>s. concat (map (\<lambda>peer. map (\<lambda>r. \<lparr>tr_service_id = sr_id r, tr_peer = peer\<rparr>)
         (filter (\<lambda>r. sr_name r = st_name s) rows)) (st_backends s))) services)
     in if \<not> distinct new then None
        else Some (db\<lparr>db_triggers := filter (\<lambda>t. tr_service_id t \<notin> set ids) (db_triggers db) @ new\<rparr>))"

definition apply_observation ::
  "('e, 'net) engine \<Rightarrow> (u32 \<Rightarrow> geo_info option) \<Rightarrow> json \<Rightarrow> instant \<Rightarrow> string \<Rightarrow> int \<Rightarrow> app \<Rightarrow> response" where
  "apply_observation en geo_get js now stack n a = (let db = ap_db a in
     if observation_active stack db \<noteq> None then Some (Some StopObservationFirst, a)
     else (case find_observation stack n db of
         None \<Rightarrow> Some (Some ObservationMissing, a)
       | Some row \<Rightarrow> if \<not> ob_ended row then Some (Some ObservationRunning, a)
           else if ob_applied row then Some (None, a)
           else (case stack_services_from_db js stack db of
               None \<Rightarrow> Some (Some StackMissing, a)
             | Some saved \<Rightarrow> if saved \<noteq> ob_saved row then Some (Some ConfigurationChanged, a)
                 else (let next = suggested saved (ob_counts row) in apply_observed en geo_get js now stack next
                   (map_option (\<lambda>db. db\<lparr>db_observations := map (\<lambda>r. if ob_id r = n then r\<lparr>ob_applied := True\<rparr> else r) (db_observations db)\<rparr>)
                     (replace_triggers stack next db)) (ObservationChanged stack n ''applied'') a))))"

end
