(* ===== verification/Config_Props.thy ===== *)
theory Config_Props
  imports Config_Input Proxy_Requests
begin

text \<open>
  What validation of a stack and the scan for conflicts guarantee: a validated stack is
  well-formed, and of stacks that conflict none is left, so that every lookup by service name,
  port or route has one answer.
\<close>

section \<open>Loops that stop at the first error\<close>

lemma try_fold_ConsE:
  assumes "try_fold f (x # xs) s = Inr s'"
  obtains s1 where "f x s = Inr s1" "try_fold f xs s1 = Inr s'"
  using assms by (auto split: sum.splits)

lemma try_fold_inv:
  assumes "try_fold f xs s = Inr s'" "I s" "\<And>x s s'. x \<in> set xs \<Longrightarrow> I s \<Longrightarrow> f x s = Inr s' \<Longrightarrow> I s'"
  shows "I s'"
  using assms
proof (induction xs arbitrary: s)
  case (Cons x xs)
  then obtain s1 where "f x s = Inr s1" "try_fold f xs s1 = Inr s'" by (auto split: sum.splits)
  then show ?case using Cons.IH [of s1] Cons.prems(2,3) by auto
qed simp

section \<open>A validated stack\<close>

definition declared_info :: "(string \<Rightarrow> 'net option) \<Rightarrow> (string, u16) hmap \<Rightarrow> service_toml \<Rightarrow> service_info \<Rightarrow> bool" where
  "declared_info net_of_str ports s si \<longleftrightarrow> (\<exists>egress ingress triggers.
     si = with_pausable (st_pausable s) (service_info_new (st_proxy_dependencies s) triggers (map_option unat (st_timeout s))
       (map_option unat (st_max_networks s)) (toml_protocol s) (st_listen_port s) egress ingress) \<and>
     (st_listen_port s \<noteq> None \<longleftrightarrow> toml_protocol s \<noteq> Http) \<and>
     validate net_of_str Egress (st_egress_filter s) = Inr egress \<and> validate net_of_str Ingress (st_ingress_filter s) = Inr ingress \<and>
     (ingress \<noteq> PolicyNone \<longrightarrow> st_timeout s \<noteq> None) \<and> (st_pausable s \<longrightarrow> st_docker_container s \<noteq> None) \<and>
     try_fold (add_trigger (st_name s) ports) (st_backends s) [] = Inr triggers)"

lemma declare_service_Inr:
  assumes "declare_service net_of_str ports s m = Inr m'"
  obtains si where "m' = hm_insert (st_name s) si m" "declared_info net_of_str ports s si"
  using assms unfolding declare_service_def declared_info_def by (auto split: if_splits sum.splits)

lemma declared_services:
  assumes "try_fold (declare_service net_of_str ports) services m0 = Inr m" "distinct (map st_name services)"
  shows "(\<forall>s \<in> set services. \<exists>si. hm_get m (st_name s) = Some si \<and> declared_info net_of_str ports s si) \<and>
    (\<forall>n. n \<notin> st_name ` set services \<longrightarrow> hm_get m n = hm_get m0 n)"
  using assms
proof (induction services arbitrary: m0)
  case (Cons s services)
  then obtain m1 where m1: "declare_service net_of_str ports s m0 = Inr m1" "try_fold (declare_service net_of_str ports) services m1 = Inr m"
    by (auto split: sum.splits)
  obtain si where si: "m1 = hm_insert (st_name s) si m0" "declared_info net_of_str ports s si"
    by (rule declare_service_Inr [OF m1(1)])
  have ih: "(\<forall>s \<in> set services. \<exists>si. hm_get m (st_name s) = Some si \<and> declared_info net_of_str ports s si) \<and>
    (\<forall>n. n \<notin> st_name ` set services \<longrightarrow> hm_get m n = hm_get m1 n)"
    using Cons.IH [OF m1(2)] Cons.prems(2) by simp
  have "st_name s \<notin> st_name ` set services" using Cons.prems(2) by simp
  then have "hm_get m (st_name s) = Some si" using ih si(1) by simp
  then show ?case using ih si by auto
qed simp

text \<open>The triggers of a declared service are the declared peers under their own ports.\<close>

lemma add_trigger_inv:
  assumes "try_fold (add_trigger name ports) peers [] = Inr triggers"
  shows "hm_inv triggers \<and> (\<forall>port peer. hm_get triggers port = Some peer \<longrightarrow> peer \<in> set peers \<and> port \<noteq> 0 \<and> hm_get ports peer = Some port)"
proof (rule try_fold_inv [OF assms])
  fix peer m m'
  assume "peer \<in> set peers" "add_trigger name ports peer m = Inr m'"
    and inv: "hm_inv m \<and> (\<forall>port peer. hm_get m port = Some peer \<longrightarrow> peer \<in> set peers \<and> port \<noteq> 0 \<and> hm_get ports peer = Some port)"
  moreover from this obtain port where "hm_get ports peer = Some port" "port \<noteq> 0" "m' = hm_insert port peer m"
    by (auto simp: add_trigger_def split: option.splits if_splits)
  ultimately show "hm_inv m' \<and> (\<forall>port peer. hm_get m' port = Some peer \<longrightarrow> peer \<in> set peers \<and> port \<noteq> 0 \<and> hm_get ports peer = Some port)"
    by simp
qed simp

lemma dep_names_Inr:
  assumes "dep_names services = Inr names" "s \<in> set services"
  shows "set (concat (st_proxy_dependencies s)) \<union> set (st_backends s) \<subseteq> set names"
proof -
  let ?f = "\<lambda>s names. map_sum id (\<lambda>_. names @ concat (st_proxy_dependencies s) @ st_backends s)
       (try_fold (\<lambda>peer _. if blank peer then Inl EmptyPeer else Inr ()) (st_backends s) ())"
  have step: "names' = names @ concat (st_proxy_dependencies s) @ st_backends s" if "?f s names = Inr names'" for s names names'
    using that by (cases "try_fold (\<lambda>peer _. if blank peer then Inl EmptyPeer else Inr ()) (st_backends s) ()") auto
  have "try_fold ?f ss names0 = Inr names \<Longrightarrow> set names0 \<subseteq> set names \<and>
    (\<forall>s \<in> set ss. set (concat (st_proxy_dependencies s)) \<union> set (st_backends s) \<subseteq> set names)" for ss names0
  proof (induction ss arbitrary: names0)
    case (Cons s ss)
    obtain names1 where n: "?f s names0 = Inr names1" "try_fold ?f ss names1 = Inr names"
      by (rule try_fold_ConsE [OF Cons.prems])
    have "names1 = names0 @ concat (st_proxy_dependencies s) @ st_backends s" by (rule step [OF n(1)])
    moreover have "set names1 \<subseteq> set names \<and> (\<forall>s \<in> set ss. set (concat (st_proxy_dependencies s)) \<union> set (st_backends s) \<subseteq> set names)"
      by (rule Cons.IH [OF n(2)])
    ultimately show ?case by auto
  qed simp
  then show ?thesis using assms unfolding dep_names_def by blast
qed

lemma placeholders_get: "hm_get (fold (\<lambda>name. hm_insert name v) names m) n = (if n \<in> set names then Some v else hm_get m n)"
  by (induction names arbitrary: m) auto

lemma placeholders_inv: "hm_inv m \<Longrightarrow> hm_inv (fold (\<lambda>name. hm_insert name v) names m)"
  by (induction names arbitrary: m) auto

lemma services_map_Inr:
  assumes "services_map net_of_str services = Inr m" "distinct (map st_name services)"
  shows "hm_inv m"
    and "s \<in> set services \<Longrightarrow> \<exists>si. hm_get m (st_name s) = Some si \<and> declared_info net_of_str (peer_ports services) s si"
    and "s \<in> set services \<Longrightarrow> n \<in> set (concat (st_proxy_dependencies s)) \<union> set (st_backends s) \<Longrightarrow> hm_get m n \<noteq> None"
    and "hm_get m n = Some si \<Longrightarrow> n \<notin> st_name ` set services \<Longrightarrow> si = placeholder"
proof -
  obtain names where names: "dep_names services = Inr names"
    "try_fold (declare_service net_of_str (peer_ports services)) services (fold (\<lambda>name. hm_insert name placeholder) names []) = Inr m"
    using assms(1) by (auto simp: services_map_def split: sum.splits)
  note d = declared_services [OF names(2) assms(2)]
  show "hm_inv m" by (rule try_fold_inv [OF names(2)]) (auto simp: placeholders_inv elim: declare_service_Inr)
  show "s \<in> set services \<Longrightarrow> \<exists>si. hm_get m (st_name s) = Some si \<and> declared_info net_of_str (peer_ports services) s si" using d by blast
  show "hm_get m n = Some si \<Longrightarrow> n \<notin> st_name ` set services \<Longrightarrow> si = placeholder"
    using d by (auto simp: placeholders_get split: if_splits)
  assume s: "s \<in> set services" "n \<in> set (concat (st_proxy_dependencies s)) \<union> set (st_backends s)"
  then have "n \<in> set names" using dep_names_Inr [OF names(1)] by blast
  then show "hm_get m n \<noteq> None" using d by (cases "n \<in> st_name ` set services") (auto simp: placeholders_get)
qed

definition service_wf :: "(string \<Rightarrow> 'net option) \<Rightarrow> services \<Rightarrow> service_info \<Rightarrow> bool" where
  "service_wf net_of_str m si \<longleftrightarrow> (let c = si_config si in
     (\<forall>n \<in> set (concat (sc_proxy_deps c)) \<union> set (hm_values (sc_triggers c)). hm_get m n \<noteq> None) \<and>
     hm_inv (sc_triggers c) \<and> 0 \<notin> set (hm_keys (sc_triggers c)) \<and>
     (sc_listen_port c \<noteq> None \<longleftrightarrow> sc_protocol c \<noteq> Http) \<and>
     (sc_ingress_policy c \<noteq> PolicyNone \<longrightarrow> sc_timeout c \<noteq> None) \<and>
     validate net_of_str Egress (sc_egress_policy c) = Inr (sc_egress_policy c) \<and>
     validate net_of_str Ingress (sc_ingress_policy c) = Inr (sc_ingress_policy c))"

definition route_wf :: "services \<Rightarrow> route_entry \<Rightarrow> bool" where
  "route_wf m e \<longleftrightarrow> (case re_target e of
       RouteService name _ \<Rightarrow> (\<exists>si. hm_get m name = Some si \<and> sc_protocol (si_config si) = Http \<and> si_timeout si \<noteq> None)
     | RouteRedirect _ status _ _ \<Rightarrow> status \<in> {301, 302, 307, 308})"

lemma si_config_pausable [simp]: "si_config (with_pausable b si) = (si_config si)\<lparr>sc_pausable := b\<rparr>"
  by (cases si) simp_all

lemma service_wf_placeholder: "service_wf net_of_str m placeholder"
  by (simp add: service_wf_def placeholder_def service_info_new_def validate_def)

lemma service_wf_declared:
  assumes "declared_info net_of_str ports s si"
    and "\<And>n. n \<in> set (concat (st_proxy_dependencies s)) \<union> set (st_backends s) \<Longrightarrow> hm_get m n \<noteq> None"
  shows "service_wf net_of_str m si"
proof -
  obtain egress ingress triggers where d: "si = with_pausable (st_pausable s) (service_info_new (st_proxy_dependencies s) triggers
      (map_option unat (st_timeout s)) (map_option unat (st_max_networks s)) (toml_protocol s) (st_listen_port s) egress ingress)"
    "st_listen_port s \<noteq> None \<longleftrightarrow> toml_protocol s \<noteq> Http" "validate net_of_str Egress (st_egress_filter s) = Inr egress"
    "validate net_of_str Ingress (st_ingress_filter s) = Inr ingress" "ingress \<noteq> PolicyNone \<longrightarrow> st_timeout s \<noteq> None"
    "try_fold (add_trigger (st_name s) ports) (st_backends s) [] = Inr triggers"
    using assms(1) unfolding declared_info_def by blast
  note t = add_trigger_inv [OF d(6)]
  have v: "\<forall>n \<in> set (hm_values triggers). n \<in> set (st_backends s)" "0 \<notin> set (hm_keys triggers)"
    using t hm_get_in_set [of triggers] by fastforce+
  have c: "si_config si = \<lparr>sc_proxy_deps = st_proxy_dependencies s, sc_triggers = triggers, sc_timeout = map_option unat (st_timeout s),
      sc_max_networks = map_option unat (st_max_networks s), sc_protocol = toml_protocol s, sc_listen_port = st_listen_port s,
      sc_egress_policy = egress, sc_ingress_policy = ingress, sc_pausable = st_pausable s\<rparr>"
    by (simp add: d(1) service_info_new_def)
  have "\<forall>n \<in> set (concat (st_proxy_dependencies s)) \<union> set (hm_values triggers). hm_get m n \<noteq> None" using assms(2) v(1) by blast
  then show ?thesis using t v(2) d(2,5) validate_idem [OF d(3)] validate_idem [OF d(4)]
    unfolding service_wf_def Let_def c by (simp del: not_None_eq set_concat)
qed

lemma route_wf_built:
  assumes "route_target_of services r = Inr target" "\<And>s. s \<in> set services \<Longrightarrow> \<exists>si. hm_get m (st_name s) = Some si \<and> declared_info net_of_str ports s si"
  shows "route_wf m \<lparr>re_host = h, re_path = p, re_target = target\<rparr>"
proof (cases "rt_service r")
  case None
  then show ?thesis using assms(1) by (auto simp: route_target_of_def route_wf_def Let_def split: option.splits if_splits)
next
  case (Some name)
  then obtain s where s: "find (\<lambda>s. st_name s = name) services = Some s" "toml_protocol s = Http" "st_timeout s \<noteq> None" "target = RouteService name (rt_strip_prefix r)"
    using assms(1) by (auto simp: route_target_of_def Let_def split: option.splits if_splits)
  then have "s \<in> set services" "st_name s = name" using find_SomeD by fastforce+
  then obtain si where "hm_get m name = Some si" "declared_info net_of_str ports s si" using assms(2) by blast
  then show ?thesis using s by (auto simp: route_wf_def declared_info_def service_info_new_def)
qed

lemma matches_named:
  assumes "build_match_entries services = Inr matches"
  shows "me_name ` set matches \<subseteq> st_name ` set services"
proof (rule try_fold_inv [OF assms [unfolded build_match_entries_def]])
  fix s es es'
  assume s: "s \<in> set services" "me_name ` set es \<subseteq> st_name ` set services" "push_match_entry s es = Inr es'"
  then have "me_name ` set es' \<subseteq> insert (st_name s) (me_name ` set es)"
    by (auto simp: push_match_entry_def split: sum.splits option.splits if_splits)
  then show "me_name ` set es' \<subseteq> st_name ` set services" using s by blast
qed simp


definition toml_of :: "string \<Rightarrow> u16 option \<Rightarrow> u64 option \<Rightarrow> string list list \<Rightarrow> string list \<Rightarrow> service_toml" where
  "toml_of name port timeout deps backends = \<lparr>st_name = name, st_docker_container = Some name, st_process_path = None, st_host_ip = None,
     st_pausable = True, st_port = port, st_timeout = timeout, st_proxy_dependencies = deps, st_backends = backends, st_max_networks = None,
     st_protocol = None, st_listen_port = None, st_egress_filter = PolicyNone, st_ingress_filter = PolicyNone\<rparr>"

definition demo_services :: "service_toml list" where
  "demo_services = [toml_of ''web'' (Some 80) (Some 60) [[''db'', ''log'']] [''db''], toml_of ''db'' (Some 5432) None [] []]"

definition demo_routes :: "route_toml list" where
  "demo_routes = [\<lparr>rt_host = ''h'', rt_path = ''/'', rt_service = Some ''web'', rt_strip_prefix = True, rt_redirect_to = None,
     rt_redirect_status = None, rt_preserve_path = False, rt_preserve_query = False\<rparr>]"


section \<open>Conflicts\<close>

lemma claims_free:
  assumes "\<And>k x a. (k, x, a) \<in> set (claim_conflicts cs claimed) \<Longrightarrow> \<not> P a"
  shows "distinct (map fst (filter (\<lambda>c. P (snd c)) cs)) \<and> (\<forall>c \<in> set cs. P (snd c) \<longrightarrow> hm_get claimed (fst c) = None)"
  using assms
proof (induction cs arbitrary: claimed)
  case (Cons c cs)
  obtain k a where c: "c = (k, a)" by (cases c)
  show ?case
  proof (cases "hm_get claimed k")
    case None
    then have "distinct (map fst (filter (\<lambda>c. P (snd c)) cs)) \<and> (\<forall>c \<in> set cs. P (snd c) \<longrightarrow> hm_get (hm_insert k a claimed) (fst c) = None)"
      using Cons.prems c by (intro Cons.IH) auto
    then show ?thesis using None c by (auto split: if_splits)
  next
    case (Some x)
    then have "\<not> P a" using Cons.prems [of k x a] c by simp
    moreover have "distinct (map fst (filter (\<lambda>c. P (snd c)) cs)) \<and> (\<forall>c \<in> set cs. P (snd c) \<longrightarrow> hm_get claimed (fst c) = None)"
      using Cons.prems Some c by (intro Cons.IH) auto
    ultimately show ?thesis using c by simp
  qed
qed simp

lemma no_conflicts_iff: "claim_conflicts cs claimed = [] \<longleftrightarrow> distinct (map fst cs) \<and> (\<forall>c \<in> set cs. hm_get claimed (fst c) = None)"
proof (induction cs arbitrary: claimed)
  case (Cons c cs)
  then show ?case by (cases c) (auto split: option.splits if_splits)
qed simp

lemma filtered_no_conflicts:
  assumes "\<And>k x a. (k, x, a) \<in> set (claim_conflicts cs []) \<Longrightarrow> \<not> P a"
  shows "claim_conflicts (filter (\<lambda>c. P (snd c)) cs) [] = []"
  using claims_free [of cs "[]" P] assms by (simp add: no_conflicts_iff)

lemma fold_remove: "fold hm_remove bad m = filter (\<lambda>e. fst e \<notin> set bad) m"
  by (induction bad arbitrary: m) (auto simp: hm_remove_def intro: filter_cong)

lemma port_claims_filter: "port_claims (filter (\<lambda>e. fst e \<notin> B) stacks) = filter (\<lambda>c. fst (snd c) \<notin> B) (port_claims stacks)"
proof -
  have f: "filter (\<lambda>c. fst (snd c) \<notin> B) (List.map_filter (\<lambda>(name, info). map_option (\<lambda>port. ((sc_protocol (si_config info), port), stack, name))
      (sc_listen_port (si_config info))) services) = (if stack \<in> B then [] else List.map_filter (\<lambda>(name, info).
      map_option (\<lambda>port. ((sc_protocol (si_config info), port), stack, name)) (sc_listen_port (si_config info))) services)" for stack and services :: services
    by (induction services) (auto simp: map_filter_simps split: option.splits)
  show ?thesis unfolding port_claims_def by (induction stacks) (auto simp: f)
qed

lemma route_claims_filter: "route_claims (filter (\<lambda>e. fst e \<notin> B) routes) = filter (\<lambda>c. snd c \<notin> B) (route_claims routes)"
  unfolding route_claims_def by (induction routes) (auto simp: filter_map comp_def)

lemma sort_filter: "sort (filter P xs) = filter P (sort xs)"
  by (rule filter_sort [symmetric])

lemma name_claims_filter:
  "name_claims (filter (\<lambda>e. fst e \<notin> B) stacks) = filter (\<lambda>c. snd c \<notin> B) (name_claims stacks)"
proof -
  define names where "names stack = sort (hm_keys (case hm_get stacks stack of Some m \<Rightarrow> m | None \<Rightarrow> []))" for stack
  have "hm_get (filter (\<lambda>e. fst e \<notin> B) stacks) k = hm_get stacks k" if "k \<notin> B" for k
    using that by (induction stacks) (auto simp: hm_get_def)
  then have "name_claims (filter (\<lambda>e. fst e \<notin> B) stacks) = concat (map (\<lambda>s. map (\<lambda>n. (n, s)) (names s)) (filter (\<lambda>s. s \<notin> B) (sort (hm_keys stacks))))"
    unfolding name_claims_def names_def by (auto simp: filter_map comp_def filter_sort intro!: arg_cong [where f = concat] map_cong)
  moreover have "concat (map (\<lambda>s. map (\<lambda>n. (n, s)) (names s)) (filter (\<lambda>s. s \<notin> B) xs)) = filter (\<lambda>c. snd c \<notin> B) (concat (map (\<lambda>s. map (\<lambda>n. (n, s)) (names s)) xs))" for xs
    by (induction xs) (auto simp: filter_map comp_def)
  ultimately show ?thesis unfolding name_claims_def names_def by simp
qed

definition conflict_free :: "stack_map \<Rightarrow> route_map \<Rightarrow> bool" where
  "conflict_free stacks routes \<longleftrightarrow> detect_port_conflicts stacks = [] \<and> detect_route_conflicts routes = [] \<and> detect_name_conflicts stacks = []"

lemma drop_conflicting_free:
  assumes "drop_conflicting (stacks, index, routes) = ((stacks', index', routes'), c)"
  shows "conflict_free stacks' routes'"
proof -
  let ?B = "set (bad_stacks c)"
  have c: "sf_ports c = detect_port_conflicts stacks" "sf_routes c = detect_route_conflicts routes" "sf_names c = detect_name_conflicts stacks"
    and s: "stacks' = filter (\<lambda>e. fst e \<notin> ?B) stacks" "routes' = filter (\<lambda>e. fst e \<notin> ?B) routes"
    using assms by (auto simp: drop_conflicting_def Let_def fold_remove)
  have "claim_conflicts (filter (\<lambda>x. fst (snd x) \<notin> ?B) (port_claims stacks)) [] = []"
    by (rule filtered_no_conflicts [where P = "\<lambda>a. fst a \<notin> ?B"]) (force simp: bad_stacks_def c detect_port_conflicts_def)
  moreover have "claim_conflicts (filter (\<lambda>x. snd x \<notin> ?B) (route_claims routes)) [] = []"
    by (rule filtered_no_conflicts [where P = "\<lambda>a. a \<notin> ?B"]) (force simp: bad_stacks_def c detect_route_conflicts_def)
  moreover have "claim_conflicts (filter (\<lambda>x. snd x \<notin> ?B) (name_claims stacks)) [] = []"
    by (rule filtered_no_conflicts [where P = "\<lambda>a. a \<notin> ?B"]) (force simp: bad_stacks_def c detect_name_conflicts_def)
  ultimately show ?thesis
    by (simp add: conflict_free_def detect_port_conflicts_def detect_route_conflicts_def detect_name_conflicts_def s port_claims_filter
        route_claims_filter name_claims_filter)
qed

lemma name_claims_set: "(n, s) \<in> set (name_claims stacks) \<longleftrightarrow> (\<exists>m. hm_get stacks s = Some m \<and> hm_get m n \<noteq> None)"
proof -
  have "(n, s) \<in> set (name_claims stacks) \<longleftrightarrow> s \<in> fst ` set stacks \<and> n \<in> fst ` set (case hm_get stacks s of Some m \<Rightarrow> m | None \<Rightarrow> [])"
    by (auto simp: name_claims_def)
  moreover have "s \<in> fst ` set stacks \<longleftrightarrow> hm_get stacks s \<noteq> None" unfolding hm_get_None_iff by blast
  moreover have "n \<in> fst ` set m \<longleftrightarrow> hm_get m n \<noteq> None" for m :: services unfolding hm_get_None_iff by blast
  ultimately show ?thesis by (cases "hm_get stacks s") simp_all
qed

end
