(* ===== verification/Config_Live.thy ===== *)
theory Config_Live
  imports Config_Store Config_Props
begin

text \<open>
  What applying a loaded configuration does to the live registry: it never panics, keeps the
  registry consistent, and afterwards the configuration the registry runs is the one that was
  loaded.  The abstraction is the map from stacks and names to configurations, which forgets
  replicas and sessions.
\<close>

section \<open>Operations that keep the set of names\<close>

definition names_of :: "services \<Rightarrow> string set" where
  "names_of m = fst ` set m"

definition keeps_names :: "(world \<Rightarrow> world option) \<Rightarrow> bool" where
  "keeps_names f \<longleftrightarrow> (\<forall>w w'. f w = Some w' \<longrightarrow> names_of (fst w') = names_of (fst w))"

lemma keeps_namesD: "keeps_names f \<Longrightarrow> f w = Some w' \<Longrightarrow> names_of (fst w') = names_of (fst w)"
  unfolding keeps_names_def by blast

lemma names_Some: "keeps_names Some"
  unfolding keeps_names_def by simp

lemma names_finish: "keeps_names (\<lambda>w. Some (fst w, g w))"
  unfolding keeps_names_def by simp

lemma names_state: "keeps_names f \<Longrightarrow> keeps_names (\<lambda>w. f (fst w, g w))"
  by (auto simp: keeps_names_def)

lemma names_depends: "(\<And>w. keeps_names (f w)) \<Longrightarrow> keeps_names (\<lambda>w. f w w)"
  unfolding keeps_names_def by simp

lemma names_bind: "keeps_names f \<Longrightarrow> keeps_names g \<Longrightarrow> keeps_names (\<lambda>w. Option.bind (f w) g)"
  unfolding keeps_names_def by (auto split: bind_splits)

lemma names_foldM: "(\<And>x. keeps_names (f x)) \<Longrightarrow> keeps_names (foldM f xs)"
proof (induction xs)
  case (Cons x xs)
  have "foldM f (x # xs) = (\<lambda>w. Option.bind (f x w) (foldM f xs))" by (auto simp: fun_eq_iff split: option.splits)
  then show ?case using names_bind [of "f x" "foldM f xs"] Cons by simp
qed (simp add: keeps_names_def)

lemma names_existing: "hm_get m n = Some si \<Longrightarrow> names_of (hm_insert n si' m) = names_of m"
  by (force simp: names_of_def dest: hm_get_SomeD)

lemma names_on_registered: "keeps_names (on_registered n f)"
  unfolding keeps_names_def on_registered_def
  by (auto split: option.splits service_info.splits simp: names_existing)

lemma names_registered:
  assumes "\<And>reg. keeps_names (f reg)" "keeps_names g"
  shows "keeps_names (\<lambda>w. case hm_get (fst w) n of None \<Rightarrow> g w
    | Some si \<Rightarrow> (case si of Unregistered _ \<Rightarrow> g w | Registered reg \<Rightarrow> f reg w))"
  using assms unfolding keeps_names_def by (auto split: option.splits service_info.splits)

lemma names_decrement_edges: "keeps_names (decrement_edges es)"
  unfolding decrement_edges_def split_def by (intro names_foldM names_on_registered)

lemma names_dep_chain: "keeps_names (teardown_dep_chain n ip docker)"
  unfolding teardown_dep_chain_def by (rule names_depends) (rule names_decrement_edges)

lemma names_remove_torn: "keeps_names (remove_torn_clients n tds)"
  unfolding remove_torn_clients_def by (rule names_on_registered)

lemma names_teardown_chain: "keeps_names (teardown_chain n f)"
  unfolding teardown_chain_def Let_def split_def
  by (intro names_registered names_bind names_foldM names_remove_torn names_finish names_Some names_dep_chain)

lemma names_backend_chain: "keeps_names (teardown_backend_chain n ip docker through p)"
  unfolding keeps_names_def teardown_backend_chain_def Let_def
  by (auto split: bind_splits prod.splits dest: keeps_namesD [OF names_decrement_edges])

lemma names_all_backend: "keeps_names (teardown_all_backend_chains_for n through)"
  unfolding teardown_all_backend_chains_for_def Let_def split_def
  by (rule names_depends) (intro names_foldM names_backend_chain)

lemma names_partial: "keeps_names (teardown_partial_replicas n f)"
proof -
  have "keeps_names (\<lambda>w. case cl_replica c of None \<Rightarrow> Some w
      | Some (src_ip, src_docker) \<Rightarrow> Option.bind (teardown_chain (cl_name c) (OnReplica src_ip src_docker) w)
          (teardown_backend_chain (cl_name c) src_ip src_docker (Some n) None))" for c
    by (cases "cl_replica c") (auto intro!: names_bind names_teardown_chain names_backend_chain names_Some)
  then show ?thesis unfolding teardown_partial_replicas_def Let_def
    by (intro names_registered names_bind names_foldM names_teardown_chain names_Some)
qed

lemma names_invalidated: "keeps_names (teardown_invalidated_service n b)"
proof -
  have unregister: "keeps_names (\<lambda>w. Some (case hm_get (fst w) n of
           Some (Registered reg) \<Rightarrow> if b then (hm_insert n (Unregistered (rg_config reg)) (fst w), snd w) else w
         | _ \<Rightarrow> w))"
    unfolding keeps_names_def by (auto split: option.splits service_info.splits simp: names_existing)
  show ?thesis unfolding teardown_invalidated_service_def Let_def with_pausable_config
    by (rule names_depends) (intro unregister names_bind names_foldM names_teardown_chain names_all_backend)
qed

lemma names_replica_removed: "keeps_names (replica_removed n ip docker)"
proof -
  have "keeps_names (\<lambda>w. Some (modify_service n f w))" for f
    unfolding keeps_names_def modify_service_def 
    by (auto simp: names_of_def simp flip: set_map)
  then have "keeps_names (\<lambda>w. Option.bind (teardown_backend_chain n ip docker None None w) (\<lambda>w.
      Option.bind (teardown_partial_replicas n (OnReplica ip docker) w) (\<lambda>w. Some (modify_service n (remove_replica ip docker) w))))"
    by (intro names_bind names_backend_chain names_partial)
  then show ?thesis using names_invalidated unfolding keeps_names_def replica_removed_def Let_def by (auto split: if_splits)
qed

text \<open>Changes that concern sessions and replicas keep the names; only a removal drops one.\<close>

fun keeps_services :: "service_change \<Rightarrow> bool" where
  "keeps_services (ReplicaRemoved _ _ _) = True"
| "keeps_services (ForceSessionTeardown _ _) = True"
| "keeps_services _ = False"

lemma names_apply_change: "keeps_services ch \<Longrightarrow> keeps_names (apply_change stack ch)"
proof -
  have *: "keeps_names f \<Longrightarrow> g = f \<Longrightarrow> keeps_names g" for f g by simp
  show "keeps_services ch \<Longrightarrow> keeps_names (apply_change stack ch)"
    by (cases ch) (auto intro: * [OF names_replica_removed] * [OF names_teardown_chain] simp: fun_eq_iff)
qed

section \<open>The configuration a registry runs\<close>

definition config_of :: "services \<Rightarrow> string \<Rightarrow> service_config option" where
  "config_of sv n = map_option si_config (hm_get sv n)"

definition live_config :: "stack_map \<Rightarrow> string \<Rightarrow> (string \<Rightarrow> service_config option) option" where
  "live_config stacks s = map_option config_of (hm_get stacks s)"

lemma less_si_config: "less_si si si' \<Longrightarrow> si_config si' = si_config si"
  by (cases "(si, si')" rule: less_si.cases) (auto simp: less_reg_def)

lemma config_of_less:
  assumes "less_services sv sv'" "names_of sv' = names_of sv"
  shows "config_of sv' = config_of sv"
proof
  fix n
  show "config_of sv' n = config_of sv n"
  proof (cases "hm_get sv' n")
    case None
    then have "hm_get sv n = None" using assms(2) unfolding names_of_def hm_get_None_iff by simp
    then show ?thesis using None by (simp add: config_of_def)
  next
    case (Some si')
    then obtain si where "hm_get sv n = Some si" "less_si si si'" using assms(1) unfolding less_services_def by blast
    then show ?thesis using Some less_si_config by (simp add: config_of_def)
  qed
qed

lemma session_changes_ok:
  assumes "world_inv sv" "\<forall>ch \<in> set chs. keeps_services ch"
  obtains sv' st' where "apply_changes chs None stack (sv, st) = Some (sv', st')" "world_inv sv'" "less_services sv sv'"
    "config_of sv' = config_of sv" "\<forall>ch \<in> set chs. change_post ch sv'"
proof -
  obtain sv' st' where w': "apply_changes chs None stack (sv, st) = Some (sv', st')" "world_inv sv'" "less_services sv sv'"
    "\<forall>ch \<in> set chs. change_post ch sv'" by (rule foldM_apply_ok [OF assms(1)])
  have names: "foldM (apply_change stack) chs w = Some w' \<Longrightarrow> names_of (fst w') = names_of (fst w)" for w w'
    using assms(2)
  proof (induction chs arbitrary: w)
    case (Cons ch chs)
    then obtain w1 where w1: "apply_change stack ch w = Some w1" "foldM (apply_change stack) chs w1 = Some w'" by (auto split: option.splits)
    then show ?case using Cons keeps_namesD [OF names_apply_change w1(1)] by simp
  qed simp
  have "names_of sv' = names_of sv" using names [of "(sv, st)" "(sv', st')"] w'(1) by (simp add: apply_changes_def)
  then show thesis using that w' config_of_less by blast
qed

lemma merge_loaded_config:
  "hm_inv loaded \<Longrightarrow> config_of (merge_loaded loaded sv) n = (if hm_get loaded n = None then config_of sv n else config_of loaded n)"
proof (induction loaded arbitrary: sv)
  case (Cons x xs)
  obtain k si where x: "x = (k, si)" by (cases x)
  let ?sv = "case hm_get sv k of Some existing \<Rightarrow> hm_insert k (update_from_file si existing) sv | None \<Rightarrow> hm_insert k si sv"
  have step: "config_of ?sv n = (if n = k then Some (si_config si) else config_of sv n)"
    by (auto simp: config_of_def update_from_file_def split: option.splits service_info.splits)
  have "hm_inv xs" "hm_get xs k = None" using Cons.prems by (simp_all add: x hm_inv_def hm_get_None_iff)
  then show ?case using Cons.IH [of ?sv] step by (auto simp: merge_loaded_def x config_of_def hm_get_def)
qed (simp add: merge_loaded_def)

lemma reload_ok:
  assumes "world_inv sv" "config_loaded loaded" "hm_inv loaded"
  shows "\<exists>sv' st'. apply_changes (detect_config_changes now sv loaded) (Some loaded) stack (sv, st) = Some (sv', st') \<and>
    world_inv sv' \<and> config_of sv' = config_of loaded"
proof -
  let ?chs = "detect_config_changes now sv loaded"
  obtain sv' st' where w': "apply_changes ?chs None stack (sv, st) = Some (sv', st')" "world_inv sv'" "less_services sv sv'"
    "\<forall>ch \<in> set ?chs. change_post ch sv'" by (rule foldM_apply_ok [OF assms(1)])
  have "hm_get sv' n = None" if "hm_get loaded n = None" for n
  proof (cases "hm_get sv n")
    case None
    then show ?thesis by (rule less_services_None [OF w'(3)])
  next
    case (Some si)
    then have "n \<in> set (filter (\<lambda>name. hm_get loaded name = None) (hm_keys sv))" using that imageI [OF hm_get_SomeD [OF Some], of fst] by simp
    then have "Removed n \<in> set ?chs" unfolding detect_config_changes_def by simp
    then show ?thesis using w'(4) by fastforce
  qed
  then have "config_of (merge_loaded loaded sv') = config_of loaded"
    by (auto simp: fun_eq_iff merge_loaded_config [OF assms(3)]) (simp_all add: config_of_def)
  then show ?thesis using apply_changes_loaded [OF w'(1), of loaded] merge_loaded_inv [OF assms(2) w'(2)] by auto
qed

section \<open>Stacks\<close>

lemma on_stack_spec:
  assumes "stacks_inv (fst w)" "hm_get (fst w) s = Some sv" "f (sv, snd w) = Some (sv', st')" "world_inv sv'"
  shows "on_stack s f w = Some (hm_insert s sv' (fst w), st')" "stacks_inv (hm_insert s sv' (fst w))"
  using assms by (auto simp: on_stack_def stacks_inv_def split: if_splits)

lemma live_config_insert: "live_config (hm_insert s sv stacks) = (live_config stacks)(s \<mapsto> config_of sv)"
  by (simp add: live_config_def fun_eq_iff)

lemma remove_stack_ok:
  assumes "stacks_inv (fst w)"
  shows "\<exists>w'. remove_stack s w = Some w' \<and> stacks_inv (fst w') \<and> live_config (fst w') = (live_config (fst w))(s := None)"
proof -
  let ?w = "(fst w, emit (ConfigStackRemoved s) (snd w))"
  have drop: "stacks_inv (hm_remove s m)" if "stacks_inv m" for m using that by (simp add: stacks_inv_def)
  show ?thesis
  proof (cases "hm_get (fst w) s")
    case None
    then show ?thesis using drop [OF assms] by (auto simp: remove_stack_def on_stack_def live_config_def fun_eq_iff)
  next
    case (Some sv)
    have "world_inv sv" using assms Some by (simp add: stacks_inv_def)
    then obtain sv' st' where a: "apply_changes (map Removed (hm_keys sv)) None s (sv, snd ?w) = Some (sv', st')" "world_inv sv'"
      by (rule foldM_apply_ok)
    have inv: "stacks_inv (fst ?w)" and g: "hm_get (fst ?w) s = Some sv" using assms Some by simp_all
    let ?f = "\<lambda>sw. apply_changes (map Removed (hm_keys (fst sw))) None s sw"
    have "?f (sv, snd ?w) = Some (sv', st')" using a(1) by simp
    note o = on_stack_spec [where w = ?w and f = ?f, OF inv g this a(2)]
    then show ?thesis using drop [OF o(2)] by (auto simp: remove_stack_def live_config_def fun_eq_iff)
  qed
qed

lemma reload_stack_ok:
  assumes "stacks_inv (fst w)" "config_loaded loaded" "hm_inv loaded"
  shows "\<exists>w'. reload_stack now s loaded w = Some w' \<and> stacks_inv (fst w') \<and>
    live_config (fst w') = (live_config (fst w))(s \<mapsto> config_of loaded)"
proof -
  let ?w = "(if hm_get (fst w) s = None then hm_insert s [] (fst w) else fst w, snd w)"
  have "world_inv []" by (simp add: world_inv_def services_inv_def)
  then have inv: "stacks_inv (fst ?w)" using assms(1) by (auto simp: stacks_inv_def)
  obtain sv where sv: "hm_get (fst ?w) s = Some sv" by (cases "hm_get (fst w) s") auto
  then have "world_inv sv" using inv by (simp add: stacks_inv_def)
  from reload_ok [OF this assms(2,3)] obtain sv' st' where
    r: "apply_changes (detect_config_changes now sv loaded) (Some loaded) s (sv, snd ?w) = Some (sv', st')"
      "world_inv sv'" "config_of sv' = config_of loaded" by blast
  let ?f = "\<lambda>sw. apply_changes (detect_config_changes now (fst sw) loaded) (Some loaded) s sw"
  have "?f (sv, snd ?w) = Some (sv', st')" using r(1) by simp
  note o = on_stack_spec [where w = ?w and f = ?f, OF inv sv this r(2)]
  have "live_config (hm_insert s sv' (fst ?w)) = (live_config (fst w))(s \<mapsto> config_of loaded)"
    using r(3) by (auto simp: live_config_insert live_config_def fun_eq_iff)
  then show ?thesis using o by (simp add: reload_stack_def)
qed

lemma remove_stacks_ok:
  assumes "stacks_inv (fst w)"
  shows "\<exists>w'. foldM remove_stack ss w = Some w' \<and> stacks_inv (fst w') \<and>
    live_config (fst w') = (\<lambda>s. if s \<in> set ss then None else live_config (fst w) s)"
  using assms
proof (induction ss arbitrary: w)
  case (Cons s ss)
  obtain w1 where w1: "remove_stack s w = Some w1" "stacks_inv (fst w1)" "live_config (fst w1) = (live_config (fst w))(s := None)"
    using remove_stack_ok [OF Cons.prems] by blast
  then show ?case using Cons.IH [OF w1(2)] by (auto simp: fun_eq_iff)
qed simp

definition stack_loaded :: "stack_map \<Rightarrow> bool" where
  "stack_loaded loaded \<longleftrightarrow> hm_inv loaded \<and> (\<forall>(s, l) \<in> set loaded. config_loaded l \<and> hm_inv l)"

lemma reload_stacks_ok:
  assumes "stacks_inv (fst w)" "stack_loaded loaded"
  shows "\<exists>w'. foldM (\<lambda>(s, l). reload_stack now s l) loaded w = Some w' \<and> stacks_inv (fst w') \<and>
    live_config (fst w') = (\<lambda>s. if hm_get loaded s = None then live_config (fst w) s else live_config loaded s)"
  using assms
proof (induction loaded arbitrary: w)
  case (Cons x xs)
  obtain s l where x: "x = (s, l)" by (cases x)
  have l: "config_loaded l" "hm_inv l" "stack_loaded xs" "hm_get xs s = None"
    using Cons.prems(2) by (auto simp: stack_loaded_def x hm_inv_def hm_get_None_iff)
  obtain w1 where w1: "reload_stack now s l w = Some w1" "stacks_inv (fst w1)" "live_config (fst w1) = (live_config (fst w))(s \<mapsto> config_of l)"
    using reload_stack_ok [OF Cons.prems(1) l(1,2)] by blast
  obtain w2 where w2: "foldM (\<lambda>(s, l). reload_stack now s l) xs w1 = Some w2" "stacks_inv (fst w2)"
    "live_config (fst w2) = (\<lambda>s. if hm_get xs s = None then live_config (fst w1) s else live_config xs s)"
    using Cons.IH [OF w1(2) l(3)] by blast
  have "live_config (fst w2) = (\<lambda>s. if hm_get (x # xs) s = None then live_config (fst w) s else live_config (x # xs) s)"
    using w2(3) w1(3) l(4) by (auto simp: fun_eq_iff x live_config_def hm_get_def)
  then show ?case using w1(1) w2 by (simp add: x)
qed (simp add: fun_eq_iff)

section \<open>Sessions a new filter denies\<close>

definition less_stacks :: "stack_map \<Rightarrow> stack_map \<Rightarrow> bool" where
  "less_stacks m m' \<longleftrightarrow> (\<forall>s sv'. hm_get m' s = Some sv' \<longrightarrow> (\<exists>sv. hm_get m s = Some sv \<and> less_services sv sv'))"

lemma less_stacks_refl [simp]: "less_stacks m m"
  by (simp add: less_stacks_def)

lemma less_stacks_trans: "less_stacks a b \<Longrightarrow> less_stacks b c \<Longrightarrow> less_stacks a c"
  unfolding less_stacks_def by (meson less_services_trans)

lemma stack_changes_ok:
  assumes "stacks_inv (fst w)" "\<And>sv. \<forall>ch \<in> set (g sv). keeps_services ch"
  obtains w' where "on_stack s (\<lambda>sw. apply_changes (g (fst sw)) None s sw) w = Some w'" "stacks_inv (fst w')"
    "live_config (fst w') = live_config (fst w)" "less_stacks (fst w) (fst w')"
    "\<forall>sv sv'. hm_get (fst w) s = Some sv \<longrightarrow> hm_get (fst w') s = Some sv' \<longrightarrow> (\<forall>ch \<in> set (g sv). change_post ch sv')"
proof (cases "hm_get (fst w) s")
  case None
  then show thesis using that [of w] assms(1) by (simp add: on_stack_def)
next
  case (Some sv)
  let ?f = "\<lambda>sw. apply_changes (g (fst sw)) None s sw"
  have "world_inv sv" using assms(1) Some by (simp add: stacks_inv_def)
  from session_changes_ok [OF this assms(2)] obtain sv' st' where a: "apply_changes (g sv) None s (sv, snd w) = Some (sv', st')"
    "world_inv sv'" "less_services sv sv'" "config_of sv' = config_of sv" "\<forall>ch \<in> set (g sv). change_post ch sv'" by blast
  then have "?f (sv, snd w) = Some (sv', st')" by simp
  note o = on_stack_spec [where f = ?f, OF assms(1) Some this a(2)]
  have "less_stacks (fst w) (hm_insert s sv' (fst w))" unfolding less_stacks_def using Some a(3) by auto
  moreover have "live_config (hm_insert s sv' (fst w)) = live_config (fst w)" using Some a(4) by (auto simp: live_config_def fun_eq_iff)
  ultimately show thesis using that [of "(hm_insert s sv' (fst w), st')"] o Some a(5) by simp
qed

definition session_closed :: "string \<Rightarrow> client \<Rightarrow> services \<Rightarrow> bool" where
  "session_closed n c sv \<longleftrightarrow> change_post (ForceSessionTeardown n c) sv"

lemma teardowns_ok:
  assumes "stacks_inv (fst w)"
  shows "\<exists>w'. foldM (\<lambda>(s, n, c). on_stack s (apply_changes [ForceSessionTeardown n c] None s)) xs w = Some w' \<and>
    stacks_inv (fst w') \<and> live_config (fst w') = live_config (fst w) \<and> less_stacks (fst w) (fst w') \<and>
    (\<forall>s n c sv. (s, n, c) \<in> set xs \<longrightarrow> hm_get (fst w') s = Some sv \<longrightarrow> session_closed n c sv)"
  using assms
proof (induction xs arbitrary: w)
  case (Cons x xs)
  obtain s n c where x: "x = (s, n, c)" by (cases x)
  obtain w1 where w1: "on_stack s (\<lambda>sw. apply_changes [ForceSessionTeardown n c] None s sw) w = Some w1" "stacks_inv (fst w1)"
    "live_config (fst w1) = live_config (fst w)" "less_stacks (fst w) (fst w1)"
    "\<forall>sv sv'. hm_get (fst w) s = Some sv \<longrightarrow> hm_get (fst w1) s = Some sv' \<longrightarrow> (\<forall>ch \<in> set [ForceSessionTeardown n c]. change_post ch sv')"
    by (rule stack_changes_ok [OF Cons.prems, of "\<lambda>_. [ForceSessionTeardown n c]" s]) auto
  obtain w2 where w2: "foldM (\<lambda>(s, n, c). on_stack s (apply_changes [ForceSessionTeardown n c] None s)) xs w1 = Some w2"
    "stacks_inv (fst w2)" "live_config (fst w2) = live_config (fst w1)" "less_stacks (fst w1) (fst w2)"
    "\<forall>s n c sv. (s, n, c) \<in> set xs \<longrightarrow> hm_get (fst w2) s = Some sv \<longrightarrow> session_closed n c sv"
    using Cons.IH [OF w1(2)] by blast
  have "session_closed n c sv2" if g2: "hm_get (fst w2) s = Some sv2" for sv2
  proof -
    obtain sv1 where sv1: "hm_get (fst w1) s = Some sv1" "less_services sv1 sv2" using w2(4) g2 unfolding less_stacks_def by blast
    obtain sv where "hm_get (fst w) s = Some sv" using w1(4) sv1(1) unfolding less_stacks_def by blast
    then have "session_closed n c sv1" using w1(5) sv1(1) unfolding session_closed_def by simp
    then show ?thesis using change_post_less [OF _ sv1(2)] unfolding session_closed_def by blast
  qed
  then show ?case using w1(1,3) w2 less_stacks_trans [OF w1(4) w2(4)] by (auto simp: x)
qed simp

lemma nested_concat_iff:
  "x \<in> set (concat (map (\<lambda>(a, m). concat (map (\<lambda>(b, i). f a b i) m)) stacks)) \<longleftrightarrow>
     (\<exists>a m b i. (a, m) \<in> set stacks \<and> (b, i) \<in> set m \<and> x \<in> set (f a b i))"
  by (force simp: split_def)

lemma denied_sessions_iff:
  assumes "stacks_inv stacks"
  shows "(s, n, c) \<in> set (denied_sessions en geo_get changed stacks) \<longleftrightarrow> (\<exists>sv reg r. hm_get stacks s = Some sv \<and>
    hm_get sv n = Some (Registered reg) \<and> (s, n) \<in> set changed \<and> sc_ingress_policy (rg_config reg) \<noteq> PolicyNone \<and>
    session_denied en geo_get (sc_ingress_policy (rg_config reg)) c \<and> r \<in> set (rg_replicas reg) \<and> live_at c r)"
proof -
  have st: "hm_get stacks s = Some sv \<longleftrightarrow> (s, sv) \<in> set stacks" for sv using assms by (simp add: stacks_inv_def hm_get_in_set)
  have sv: "hm_get sv n = Some si \<longleftrightarrow> (n, si) \<in> set sv" if "(s, sv) \<in> set stacks" for sv si
  proof -
    have "world_inv sv" using assms that st unfolding stacks_inv_def by blast
    then show ?thesis by (simp add: world_inv_def services_inv_def hm_get_in_set)
  qed
  have owned: "c \<in> fst ` set (all_clients_owned reg) \<longleftrightarrow> (\<exists>r \<in> set (rg_replicas reg). live_at c r)"
    if g: "(s, sv) \<in> set stacks" "(n, Registered reg) \<in> set sv" for sv reg
  proof -
    have "world_inv sv" using assms g(1) st unfolding stacks_inv_def by blast
    then have "reg_inv reg" using world_inv_get g sv by blast
    then have "hm_inv (entries_of r)" if "r \<in> set (rg_replicas reg)" for r
      using that by (auto simp: reg_inv_def reps_inv_def clients_inv_def)
    then show ?thesis by (force simp: all_clients_owned_def live_at_def hm_get_in_set)
  qed
  have "(s, n, c) \<in> set (denied_sessions en geo_get changed stacks) \<longleftrightarrow> (\<exists>sv reg. (s, sv) \<in> set stacks \<and>
    (n, Registered reg) \<in> set sv \<and> (s, n) \<in> set changed \<and> sc_ingress_policy (rg_config reg) \<noteq> PolicyNone \<and>
    session_denied en geo_get (sc_ingress_policy (rg_config reg)) c \<and> c \<in> fst ` set (all_clients_owned reg))"
  proof -
    define one where "one stack name info = (if (stack, name) \<notin> set changed \<or> sc_ingress_policy (si_config info) = PolicyNone then []
      else (case info of Registered reg \<Rightarrow> map (\<lambda>c. (stack, name, c)) (filter (session_denied en geo_get (sc_ingress_policy (si_config info)))
        (map fst (all_clients_owned reg))) | Unregistered _ \<Rightarrow> []))" for stack name info
    have one: "(s, n, c) \<in> set (one stack name info) \<longleftrightarrow> stack = s \<and> name = n \<and> (\<exists>reg. info = Registered reg \<and> (s, n) \<in> set changed \<and>
      sc_ingress_policy (rg_config reg) \<noteq> PolicyNone \<and> session_denied en geo_get (sc_ingress_policy (rg_config reg)) c \<and>
      c \<in> fst ` set (all_clients_owned reg))" for stack name info
      unfolding one_def by (cases info) auto
    have "denied_sessions en geo_get changed stacks = concat (map (\<lambda>(stack, m). concat (map (\<lambda>(name, info). one stack name info) m)) stacks)"
      unfolding denied_sessions_def one_def Let_def ..
    then show ?thesis by (simp only: nested_concat_iff one) blast
  qed
  then show ?thesis using st sv owned by blast
qed

lemma denied_sessions_less:
  assumes "stacks_inv m" "stacks_inv m'" "less_stacks m m'" "(s, n, c) \<in> set (denied_sessions en geo_get changed m')"
  shows "(s, n, c) \<in> set (denied_sessions en geo_get changed m)"
proof -
  obtain sv' reg' r' where d: "hm_get m' s = Some sv'" "hm_get sv' n = Some (Registered reg')" "(s, n) \<in> set changed"
    "sc_ingress_policy (rg_config reg') \<noteq> PolicyNone" "session_denied en geo_get (sc_ingress_policy (rg_config reg')) c"
    "r' \<in> set (rg_replicas reg')" "live_at c r'" using assms(4) unfolding denied_sessions_iff [OF assms(2)] by blast
  obtain sv where sv: "hm_get m s = Some sv" "less_services sv sv'" using assms(3) d(1) unfolding less_stacks_def by blast
  obtain reg where reg: "hm_get sv n = Some (Registered reg)" "less_reg reg reg'" using less_services_getD [OF sv(2) d(2)] by blast
  obtain r where r: "r \<in> set (rg_replicas reg)" "less_replica r r'" using less_regD [OF reg(2) d(6)] by blast
  have "live_at c r" using less_replica_live [OF r(2) d(7)] .
  then show ?thesis unfolding denied_sessions_iff [OF assms(1)] using sv(1) reg(1) d(3-5) less_reg_config [OF reg(2)] r(1) by auto
qed

lemma teardown_denied_ok:
  assumes "stacks_inv (fst w)"
  shows "\<exists>w'. teardown_ingress_denied_sessions en geo_get changed w = Some w' \<and> stacks_inv (fst w') \<and>
    live_config (fst w') = live_config (fst w) \<and> denied_sessions en geo_get changed (fst w') = []"
proof -
  let ?xs = "denied_sessions en geo_get changed (fst w)"
  obtain w' where w': "foldM (\<lambda>(s, n, c). on_stack s (apply_changes [ForceSessionTeardown n c] None s)) ?xs w = Some w'"
    "stacks_inv (fst w')" "live_config (fst w') = live_config (fst w)" "less_stacks (fst w) (fst w')"
    "\<forall>s n c sv. (s, n, c) \<in> set ?xs \<longrightarrow> hm_get (fst w') s = Some sv \<longrightarrow> session_closed n c sv"
    using teardowns_ok [OF assms] by blast
  have "(s, n, c) \<notin> set (denied_sessions en geo_get changed (fst w'))" for s n c
  proof
    assume d: "(s, n, c) \<in> set (denied_sessions en geo_get changed (fst w'))"
    then obtain sv reg r where l: "hm_get (fst w') s = Some sv" "hm_get sv n = Some (Registered reg)" "r \<in> set (rg_replicas reg)" "live_at c r"
      "session_denied en geo_get (sc_ingress_policy (rg_config reg)) c"
      unfolding denied_sessions_iff [OF w'(2)] by blast
    have "session_closed n c sv" using w'(5) denied_sessions_less [OF assms w'(2,4) d] l(1) by blast
    then show False using l(2-5) by (auto simp: session_closed_def no_replica_def session_denied_def)
  qed
  then have "denied_sessions en geo_get changed (fst w') = []" by (metis list.set_intros(1) neq_Nil_conv prod_cases3)
  then show ?thesis using w'(1-3) unfolding teardown_ingress_denied_sessions_def by blast
qed

lemma config_update_ok:
  assumes "stacks_inv stacks" "stack_loaded loaded"
  shows "\<exists>stacks' st'. apply_config_update en geo_get now loaded (stacks, st) = Some (stacks', st') \<and> stacks_inv stacks' \<and>
    live_config stacks' = live_config loaded \<and> denied_sessions en geo_get (changed_ingress stacks loaded) stacks' = []"
proof -
  have "stacks_inv (fst (stacks, st))" using assms(1) by simp
  from remove_stacks_ok [OF this] obtain w1 where w1: "foldM remove_stack (filter (\<lambda>s. hm_get loaded s = None) (hm_keys stacks)) (stacks, st) = Some w1"
    "stacks_inv (fst w1)"
    "live_config (fst w1) = (\<lambda>s. if s \<in> set (filter (\<lambda>s. hm_get loaded s = None) (hm_keys stacks)) then None else live_config stacks s)"
    by fastforce
  obtain w2 where w2: "foldM (\<lambda>(s, l). reload_stack now s l) loaded w1 = Some w2" "stacks_inv (fst w2)"
    "live_config (fst w2) = (\<lambda>s. if hm_get loaded s = None then live_config (fst w1) s else live_config loaded s)"
    using reload_stacks_ok [OF w1(2) assms(2)] by blast
  have "live_config stacks s = None" if "s \<notin> fst ` set stacks" for s using that by (simp add: live_config_def flip: hm_get_None_iff)
  then have live: "live_config (fst w2) = live_config loaded"
    using w1(3) w2(3) by (auto simp: fun_eq_iff) (auto simp: live_config_def)
  define st2 where "st2 = (let s = reconcile_container_pauses (fst w2) (snd w2) in
    if \<not> hm_eq (egress_policies stacks) (egress_policies loaded) then broadcast_egress_policy_changed s else s)"
  have run: "apply_config_update en geo_get now loaded (stacks, st) = (if changed_ingress stacks loaded = [] then Some (fst w2, st2)
      else teardown_ingress_denied_sessions en geo_get (changed_ingress stacks loaded) (fst w2, st2))"
    using w1(1) w2(1) by (simp add: apply_config_update_def st2_def Let_def)
  show ?thesis
  proof (cases "changed_ingress stacks loaded = []")
    case True
    then show ?thesis using run w2(2) live by (auto simp: denied_sessions_def Let_def split_def)
  next
    case False
    have "stacks_inv (fst (fst w2, st2))" using w2(2) by simp
    from teardown_denied_ok [OF this] show ?thesis using run False live by fastforce
  qed
qed

text \<open>\<^bold>\<open>C32.\<close> Applying a loaded configuration implements its assignment to the configuration the registry
  runs: from any consistent registry the update returns, the registry is consistent, every stack
  and service runs exactly the configuration that was loaded, none is missing and none is left
  over, and no live session remains that a filter changed by the update denies.\<close>

theorem config_update_refines:
  assumes "stacks_inv stacks" "stack_loaded loaded"
  shows "\<exists>stacks' st'. apply_config_update en geo_get now loaded (stacks, st) = Some (stacks', st') \<and> stacks_inv stacks' \<and>
    live_config stacks' = live_config loaded \<and> denied_sessions en geo_get (changed_ingress stacks loaded) stacks' = []"
  by (rule config_update_ok [OF assms])

definition plain_engine :: "(unit, unit) engine" where
  "plain_engine = \<lparr>en_from_tokens = (\<lambda>_. Some ()), en_evaluate = (\<lambda>_ _. True), en_net_of_str = (\<lambda>_. None), en_net_contains = (\<lambda>_ _. False)\<rparr>"

theorem config_update_refines_witness:
  "\<exists>stacks' st'. apply_config_update plain_engine (\<lambda>_. None) 60000 [(''s'', [(''web'', Unregistered ex_dep_config)])]
     ([(''s'', ex_stack), (''t'', ex_stack)], ex_orch) = Some (stacks', st') \<and>
     live_config stacks' ''t'' = None \<and> map_option (\<lambda>c. (c ''web'', c ''db'')) (live_config stacks' ''s'') = Some (Some ex_dep_config, None)"
proof -
  have "stacks_inv [(''s'', ex_stack), (''t'', ex_stack)]" using ex_stack_inv by (auto simp: stacks_inv_def hm_inv_def hm_get_def split: if_splits)
  moreover have "stack_loaded [(''s'', [(''web'', Unregistered ex_dep_config)])]"
    by (simp add: stack_loaded_def config_loaded_def hm_inv_def)
  ultimately obtain stacks' st' where "apply_config_update plain_engine (\<lambda>_. None) 60000 [(''s'', [(''web'', Unregistered ex_dep_config)])]
     ([(''s'', ex_stack), (''t'', ex_stack)], ex_orch) = Some (stacks', st')"
    "live_config stacks' = live_config [(''s'', [(''web'', Unregistered ex_dep_config)])]"
    using config_update_refines [of "[(''s'', ex_stack), (''t'', ex_stack)]" "[(''s'', [(''web'', Unregistered ex_dep_config)])]"] by blast
  moreover have "live_config [(''s'', [(''web'', Unregistered ex_dep_config)])] ''t'' = None"
    "map_option (\<lambda>c. (c ''web'', c ''db'')) (live_config [(''s'', [(''web'', Unregistered ex_dep_config)])] ''s'') = Some (Some ex_dep_config, None)"
    by (simp_all add: live_config_def config_of_def hm_get_def)
  ultimately show ?thesis by fastforce
qed

end
