(* ===== verification/Config_Reach.thy ===== *)
theory Config_Reach
  imports Config_Live
begin

text \<open>
  The configuration over the life of the server: after the start and after any sequence of saves,
  imports, route saves and deletions, interleaved with whatever replicas and sessions do, every
  service name and every listen port belongs to one stack, so that a lookup has one answer.  The
  handlers of observations do not keep this.
\<close>

section \<open>Unique names and ports\<close>

definition names_free :: "(string \<Rightarrow> (string \<Rightarrow> service_config option) option) \<Rightarrow> bool" where
  "names_free lc \<longleftrightarrow> (\<forall>s s' c c' n k k'. lc s = Some c \<longrightarrow> lc s' = Some c' \<longrightarrow> c n = Some k \<longrightarrow> c' n = Some k' \<longrightarrow> s = s')"

definition ports_free :: "(string \<Rightarrow> (string \<Rightarrow> service_config option) option) \<Rightarrow> bool" where
  "ports_free lc \<longleftrightarrow> (\<forall>s s' c c' n n' k k' p. lc s = Some c \<longrightarrow> lc s' = Some c' \<longrightarrow> c n = Some k \<longrightarrow> c' n' = Some k' \<longrightarrow>
     sc_protocol k = sc_protocol k' \<longrightarrow> sc_listen_port k = Some p \<longrightarrow> sc_listen_port k' = Some p \<longrightarrow> s = s' \<and> n = n')"

lemma live_configD:
  assumes "live_config stacks s = Some c" "c n = Some k"
  obtains sv si where "hm_get stacks s = Some sv" "hm_get sv n = Some si" "k = si_config si"
  using assms by (auto simp: live_config_def config_of_def)

lemma detected_names_free:
  assumes "detect_name_conflicts stacks = []"
  shows "names_free (live_config stacks)"
  unfolding names_free_def
proof (intro allI impI)
  fix s s' c c' n k k'
  assume a: "live_config stacks s = Some c" "live_config stacks s' = Some c'" "c n = Some k" "c' n = Some k'"
  have d: "distinct (map fst (name_claims stacks))" using assms by (simp add: detect_name_conflicts_def no_conflicts_iff)
  obtain sv si where g: "hm_get stacks s = Some sv" "hm_get sv n = Some si" by (rule live_configD [OF a(1,3)])
  obtain sv' si' where g': "hm_get stacks s' = Some sv'" "hm_get sv' n = Some si'" by (rule live_configD [OF a(2,4)])
  have "(n, s) \<in> set (name_claims stacks)" "(n, s') \<in> set (name_claims stacks)" unfolding name_claims_set using g g' by auto
  then show "s = s'" using d by (metis eq_key_imp_eq_value)
qed

lemma port_claimed:
  assumes "hm_get stacks s = Some sv" "hm_get sv n = Some si" "sc_listen_port (si_config si) = Some p"
  shows "((sc_protocol (si_config si), p), s, n) \<in> set (port_claims stacks)"
proof -
  have "((sc_protocol (si_config si), p), s, n) \<in> set (List.map_filter (\<lambda>(name, info).
     map_option (\<lambda>port. ((sc_protocol (si_config info), port), s, name)) (sc_listen_port (si_config info))) sv)"
    using hm_get_SomeD [OF assms(2)] assms(3) by (force simp: map_filter_def)
  then show ?thesis using hm_get_SomeD [OF assms(1)] unfolding port_claims_def by (auto simp: split_def intro!: bexI [of _ "(s, sv)"])
qed

lemma detected_ports_free:
  assumes "detect_port_conflicts stacks = []"
  shows "ports_free (live_config stacks)"
  unfolding ports_free_def
proof (intro allI impI)
  fix s s' c c' n n' k k' p
  assume a: "live_config stacks s = Some c" "live_config stacks s' = Some c'" "c n = Some k" "c' n' = Some k'"
    "sc_protocol k = sc_protocol k'" "sc_listen_port k = Some p" "sc_listen_port k' = Some p"
  have d: "distinct (map fst (port_claims stacks))" using assms by (simp add: detect_port_conflicts_def no_conflicts_iff)
  obtain sv si where g: "hm_get stacks s = Some sv" "hm_get sv n = Some si" "k = si_config si" by (rule live_configD [OF a(1,3)])
  obtain sv' si' where g': "hm_get stacks s' = Some sv'" "hm_get sv' n' = Some si'" "k' = si_config si'" by (rule live_configD [OF a(2,4)])
  have "((sc_protocol k, p), s, n) \<in> set (port_claims stacks)" "((sc_protocol k, p), s', n') \<in> set (port_claims stacks)"
    using port_claimed [OF g(1,2), of p] port_claimed [OF g'(1,2), of p] g(3) g'(3) a(5-7) by auto
  then have "(s, n) = (s', n')" using d by (metis eq_key_imp_eq_value)
  then show "s = s' \<and> n = n'" by simp
qed

lemma lookup_unique:
  assumes "names_free (live_config stacks)" "hm_inv stacks"
  shows "find_service_stack stacks name = Some s \<longleftrightarrow> (\<exists>c. live_config stacks s = Some c \<and> c name \<noteq> None)"
proof -
  have sel: "(\<exists>c. live_config stacks s = Some c \<and> c name \<noteq> None) \<longleftrightarrow> (\<exists>m. (s, m) \<in> set stacks \<and> hm_get m name \<noteq> None)" for s
    unfolding hm_get_in_set [OF assms(2), symmetric]
    by (cases "hm_get stacks s") (simp_all add: live_config_def config_of_def del: not_None_eq)
  have uniq: "s = s'" if s: "\<exists>c. live_config stacks s = Some c \<and> c name \<noteq> None" "\<exists>c. live_config stacks s' = Some c \<and> c name \<noteq> None" for s s'
    using s assms(1) unfolding names_free_def by fastforce
  show ?thesis
  proof
    assume "find_service_stack stacks name = Some s"
    then obtain m where "find (\<lambda>(_, m). hm_get m name \<noteq> None) stacks = Some (s, m)" by (auto simp: find_service_stack_def)
    then have "(s, m) \<in> set stacks" "hm_get m name \<noteq> None" by (auto dest: find_SomeD)
    then show "\<exists>c. live_config stacks s = Some c \<and> c name \<noteq> None" unfolding sel by blast
  next
    assume s: "\<exists>c. live_config stacks s = Some c \<and> c name \<noteq> None"
    then obtain m where "(s, m) \<in> set stacks" "hm_get m name \<noteq> None" unfolding sel by blast
    then have "find (\<lambda>(_, m). hm_get m name \<noteq> None) stacks \<noteq> None" by (auto simp: find_None_iff)
    then obtain s' m' where f: "find (\<lambda>(_, m). hm_get m name \<noteq> None) stacks = Some (s', m')" by auto
    then have "(s', m') \<in> set stacks" "hm_get m' name \<noteq> None" by (auto dest: find_SomeD)
    then have "\<exists>c. live_config stacks s' = Some c \<and> c name \<noteq> None" unfolding sel by blast
    then have "s' = s" using uniq s by blast
    then show "find_service_stack stacks name = Some s" using f by (simp add: find_service_stack_def)
  qed
qed

section \<open>Loading\<close>

lemma try_fold_map_inv:
  assumes "try_fold (\<lambda>x s. map_sum id (g x s) (f x)) xs s = Inr s'" "I s"
    and "\<And>x s r. I s \<Longrightarrow> f x = Inr r \<Longrightarrow> I (g x s r)"
  shows "I s'"
proof (rule try_fold_inv [where I = I, OF assms(1,2)])
  fix x s s'
  assume "I s" "map_sum id (g x s) (f x) = Inr s'"
  then show "I s'" using assms(3) [of s x] by (cases "f x") auto
qed

lemma services_map_loaded:
  assumes "services_map net_of_str services = Inr m"
  shows "config_loaded m \<and> hm_inv m"
proof -
  let ?I = "\<lambda>m. config_loaded m \<and> hm_inv m"
  have ins: "?I (hm_insert n (Unregistered c) m)" if "?I m" for n c and m :: services
    using that by (auto simp: config_loaded_def hm_insert_set)
  have fill: "?I (fold (\<lambda>name. hm_insert name placeholder) names m)" if "?I m" for names m
    using that
  proof (induction names arbitrary: m)
    case (Cons a names)
    then show ?case using ins [of m a] by (simp add: placeholder_def service_info_new_def)
  qed simp
  obtain names where names: "try_fold (declare_service net_of_str (peer_ports services)) services
      (fold (\<lambda>name. hm_insert name placeholder) names []) = Inr m"
    using assms by (auto simp: services_map_def split: sum.splits)
  have base: "?I (fold (\<lambda>name. hm_insert name placeholder) names [])" by (rule fill) (simp add: config_loaded_def)
  show ?thesis
  proof (rule try_fold_inv [where I = ?I, OF names base])
    fix s m0 m1
    assume "?I m0" "declare_service net_of_str (peer_ports services) s m0 = Inr m1"
    then show "?I m1" using ins by (auto elim!: declare_service_Inr simp: declared_info_def service_info_new_def)
  qed
qed

lemma validate_loaded: "validate_stack net_of_str services routes = Inr (m, matches, entries) \<Longrightarrow> config_loaded m \<and> hm_inv m"
  by (rule services_map_loaded) (auto simp: validate_stack_def map_sum_def split: sum.splits)

text \<open>A route of a stack to a service names a service of that stack.\<close>

definition routes_known :: "(string \<Rightarrow> (string \<Rightarrow> service_config option) option) \<Rightarrow> route_map \<Rightarrow> bool" where
  "routes_known lc routes \<longleftrightarrow> (\<forall>(stack, entries) \<in> set routes. \<forall>e \<in> set entries. \<forall>name strip.
     re_target e = RouteService name strip \<longrightarrow> (\<exists>c k. lc stack = Some c \<and> c name = Some k))"

lemma declared_names:
  assumes "try_fold (declare_service net_of_str ports) services m0 = Inr m" "n \<in> st_name ` set services \<or> hm_get m0 n \<noteq> None"
  shows "hm_get m n \<noteq> None"
  using assms
proof (induction services arbitrary: m0)
  case (Cons s services)
  then obtain m1 where m1: "declare_service net_of_str ports s m0 = Inr m1" "try_fold (declare_service net_of_str ports) services m1 = Inr m"
    by (auto split: sum.splits)
  obtain si where si: "m1 = hm_insert (st_name s) si m0" by (rule declare_service_Inr [OF m1(1)])
  show ?case by (rule Cons.IH [OF m1(2)]) (use Cons.prems(2) si in auto)
qed simp

lemma route_target_declared:
  "route_target_of services r = Inr (RouteService name strip) \<Longrightarrow> name \<in> st_name ` set services"
  unfolding route_target_of_def Let_def by (auto split: option.splits if_splits dest!: find_SomeD)

lemma validate_routes:
  assumes "validate_stack net_of_str services routes = Inr (m, matches, entries)" "e \<in> set entries" "re_target e = RouteService name strip"
  shows "hm_get m name \<noteq> None"
proof -
  have b: "build_route_entries services routes = Inr entries" "services_map net_of_str services = Inr m"
    using assms(1) by (auto simp: validate_stack_def map_sum_def split: sum.splits)
  obtain r where "map_sum id (\<lambda>target. \<lparr>re_host = rt_host r, re_path = rt_path r, re_target = target\<rparr>) (route_target_of services r) = Inr e"
    using try_map_Inr [OF b(1) [unfolded build_route_entries_def]] assms(2) by (auto simp: list_all2_conv_all_nth in_set_conv_nth)
  then have "route_target_of services r = Inr (RouteService name strip)"
    using assms(3) by (cases "route_target_of services r") auto
  then have "name \<in> st_name ` set services" by (rule route_target_declared)
  moreover obtain names where "try_fold (declare_service net_of_str (peer_ports services)) services (fold (\<lambda>name. hm_insert name placeholder) names []) = Inr m"
    using b(2) by (auto simp: services_map_def split: sum.splits)
  ultimately show ?thesis using declared_names by metis
qed

definition loaded_ok :: "loaded \<Rightarrow> bool" where
  "loaded_ok l \<longleftrightarrow> (case l of (stacks, index, routes) \<Rightarrow> stack_loaded stacks \<and> fst ` set index \<subseteq> fst ` set stacks \<and>
     hm_inv routes \<and> routes_known (live_config stacks) routes)"

lemma routes_known_insert:
  assumes "routes_known lc routes" "hm_inv routes" "\<forall>e \<in> set entries. \<forall>name strip. re_target e = RouteService name strip \<longrightarrow> c name \<noteq> None"
  shows "routes_known (lc(s \<mapsto> c)) (hm_insert s entries routes)"
  using assms unfolding routes_known_def hm_insert_set [OF assms(2)] by fastforce

lemma stack_loaded_insert: "stack_loaded stacks \<Longrightarrow> config_loaded m \<Longrightarrow> hm_inv m \<Longrightarrow> stack_loaded (hm_insert s m stacks)"
  by (auto simp: stack_loaded_def hm_insert_set)

lemma load_ok:
  assumes "load net_of_str js db = Inr l"
  shows "loaded_ok l"
proof -
  let ?g = "\<lambda>stack (stacks, index, routes) (services, matches, entries).
    (hm_insert stack services stacks, hm_insert stack matches index, hm_insert stack entries routes)"
  have run: "try_fold (\<lambda>stack s. map_sum id (?g stack s) (load_stack net_of_str js db stack)) (db_stacks db) ([], [], []) = Inr l"
    using assms unfolding load_def by (simp add: split_def)
  show ?thesis
  proof (rule try_fold_map_inv [where I = loaded_ok, OF run])
    show "loaded_ok ([], [], [])" by (simp add: loaded_ok_def stack_loaded_def routes_known_def)
    fix stack s r
    assume "loaded_ok s" "load_stack net_of_str js db stack = Inr r"
    moreover obtain m matches entries where r: "r = (m, matches, entries)" by (cases r)
    ultimately obtain services where v: "validate_stack net_of_str services (map route_toml_from_row (routes_for stack db)) = Inr (m, matches, entries)"
      by (auto simp: load_stack_def Let_def map_sum_def split: sum.splits)
    have "\<forall>e \<in> set entries. \<forall>name strip. re_target e = RouteService name strip \<longrightarrow> config_of m name \<noteq> None"
      using validate_routes [OF v] by (simp add: config_of_def del: not_None_eq)
    then show "loaded_ok (?g stack s r)" using \<open>loaded_ok s\<close> r validate_loaded [OF v]
      by (auto simp: loaded_ok_def stack_loaded_insert live_config_insert routes_known_insert split: prod.splits)
  qed
qed

lemma config_loaded_inv:
  assumes "config_loaded m" "hm_inv m"
  shows "world_inv m"
proof -
  have u: "\<exists>c. si = Unregistered c" if "(n, si) \<in> set m" for n si
    using assms(1) that by (cases si) (auto simp: config_loaded_def)
  have "services_inv m" unfolding services_inv_def using assms(2) u by fastforce
  moreover have "sticky reg" if "hm_get m n = Some (Registered reg)" for n reg using u [OF hm_get_SomeD [OF that]] by simp
  ultimately show ?thesis by (simp add: world_inv_def)
qed

lemma stack_loaded_inv: "stack_loaded loaded \<Longrightarrow> stacks_inv loaded"
  using config_loaded_inv hm_get_SomeD unfolding stack_loaded_def stacks_inv_def by fast

section \<open>Applying\<close>

lemma move_replicas_ok:
  assumes "stacks_inv (fst w)" "hm_get (fst w) (fst e) \<noteq> None"
  shows "\<exists>w'. move_replicas e w = Some w' \<and> stacks_inv (fst w') \<and> live_config (fst w') = live_config (fst w)"
proof -
  let ?f = "\<lambda>sw. apply_changes (misplaced_replicas (snd e) (fst sw)) None (fst e) sw"
  have k: "\<forall>ch \<in> set (misplaced_replicas es sv). keeps_services ch" for es sv
    by (auto simp: misplaced_replicas_def split: option.splits service_info.splits)
  obtain w' where w': "on_stack (fst e) ?f w = Some w'" "stacks_inv (fst w')" "live_config (fst w') = live_config (fst w)"
    by (rule stack_changes_ok [OF assms(1) k])
  have "move_replicas e w = Some w'" using w'(1) assms(2) by (cases "hm_get (fst w) (fst e)") (simp_all add: move_replicas_def)
  then show ?thesis using w'(2,3) by blast
qed

lemma move_all_ok:
  assumes "stacks_inv (fst w)" "\<forall>e \<in> set index. live_config (fst w) (fst e) \<noteq> None"
  shows "\<exists>w'. foldM move_replicas index w = Some w' \<and> stacks_inv (fst w') \<and> live_config (fst w') = live_config (fst w)"
  using assms
proof (induction index arbitrary: w)
  case (Cons e index)
  have "hm_get (fst w) (fst e) \<noteq> None" using Cons.prems(2) by (auto simp: live_config_def)
  then obtain w1 where w1: "move_replicas e w = Some w1" "stacks_inv (fst w1)" "live_config (fst w1) = live_config (fst w)"
    using move_replicas_ok [OF Cons.prems(1)] by blast
  then show ?case using Cons.IH [OF w1(2)] Cons.prems(2) by auto
qed simp

lemma apply_loaded_ok:
  assumes "stacks_inv (ap_services a)" "loaded_ok (ls, li, lr)"
  shows "\<exists>a'. apply_loaded en geo_get now (ls, li, lr) a = Some a' \<and> stacks_inv (ap_services a') \<and>
    live_config (ap_services a') = live_config ls \<and> ap_index a' = li \<and> ap_routes a' = lr \<and> ap_db a' = ap_db a"
proof -
  have l: "stack_loaded ls" "fst ` set li \<subseteq> fst ` set ls" using assms(2) by (auto simp: loaded_ok_def)
  obtain sv st where u: "apply_config_update en geo_get now ls (ap_services a, ap_orch a) = Some (sv, st)" "stacks_inv sv" "live_config sv = live_config ls"
    using config_update_ok [OF assms(1) l(1)] by blast
  have "live_config ls (fst e) \<noteq> None" if "e \<in> set li" for e
  proof -
    have "fst e \<in> fst ` set ls" using l(2) that by blast
    then show ?thesis unfolding live_config_def using hm_get_None_iff [of ls "fst e"] by auto
  qed
  then have "\<forall>e \<in> set li. live_config (fst (sv, st)) (fst e) \<noteq> None" using u(3) by simp
  moreover have "stacks_inv (fst (sv, st))" using u(2) by simp
  ultimately obtain w where "foldM move_replicas li (sv, st) = Some w" "stacks_inv (fst w)" "live_config (fst w) = live_config sv"
    using move_all_ok by fastforce
  then show ?thesis using u by (simp add: apply_loaded_def)
qed

definition app_ok :: "app \<Rightarrow> bool" where
  "app_ok a \<longleftrightarrow> stacks_inv (ap_services a) \<and> names_free (live_config (ap_services a)) \<and>
     ports_free (live_config (ap_services a)) \<and> detect_route_conflicts (ap_routes a) = [] \<and>
     routes_known (live_config (ap_services a)) (ap_routes a)"

lemma routes_known_drop:
  assumes "routes_known (live_config stacks) routes"
  shows "routes_known (live_config (filter (\<lambda>e. fst e \<notin> B) stacks)) (filter (\<lambda>e. fst e \<notin> B) routes)"
proof -
  have "live_config (filter (\<lambda>e. fst e \<notin> B) stacks) s = live_config stacks s" if "s \<notin> B" for s
    using that by (simp add: live_config_def hm_get_without)
  then show ?thesis using assms unfolding routes_known_def by fastforce
qed

lemma startup_ok:
  assumes "startup net_of_str js db st = Inr a"
  shows "app_ok a"
proof -
  obtain stacks index routes where l: "load net_of_str js db = Inr (stacks, index, routes)"
    using assms by (cases "load net_of_str js db") (auto simp: startup_def load_validated_def)
  obtain stacks' index' routes' c where d: "drop_conflicting (stacks, index, routes) = ((stacks', index', routes'), c)"
    by (metis surj_pair)
  have a: "ap_services a = stacks'" "ap_routes a = routes'" using assms l d by (auto simp: startup_def load_validated_def)
  have f: "stacks' = filter (\<lambda>e. fst e \<notin> set (bad_stacks c)) stacks" "routes' = filter (\<lambda>e. fst e \<notin> set (bad_stacks c)) routes"
    using d by (auto simp: drop_conflicting_def Let_def fold_remove)
  have ok: "stack_loaded stacks" "routes_known (live_config stacks) routes" using load_ok [OF l] by (simp_all add: loaded_ok_def)
  have "stack_loaded stacks'" using f(1) ok(1) by (auto simp: stack_loaded_def hm_inv_def distinct_map_filter)
  moreover have "routes_known (live_config stacks') routes'" unfolding f by (rule routes_known_drop [OF ok(2)])
  ultimately show ?thesis using drop_conflicting_free [OF d] a
    by (simp add: app_ok_def conflict_free_def stack_loaded_inv detected_names_free detected_ports_free)
qed

lemma reload_and_apply_ok:
  assumes "app_ok a"
  shows "\<exists>a'. reload_and_apply en geo_get js now a = Some a' \<and> app_ok a' \<and> ap_db a' = ap_db a"
proof (cases "load (en_net_of_str en) js (ap_db a)")
  case (Inl e)
  then show ?thesis using assms by (simp add: reload_and_apply_def)
next
  case (Inr l)
  obtain ls li lr where l: "l = (ls, li, lr)" by (cases l)
  define c where "c = snd (drop_conflicting l)"
  have c: "sf_ports c = detect_port_conflicts ls" "sf_routes c = detect_route_conflicts lr" "sf_names c = detect_name_conflicts ls"
    by (simp_all add: c_def l drop_conflicting_def Let_def)
  show ?thesis
  proof (cases "sf_ports c = [] \<and> sf_routes c = [] \<and> sf_names c = []")
    case True
    have "loaded_ok (ls, li, lr)" using load_ok [OF Inr] l by simp
    moreover have "stacks_inv (ap_services a)" using assms by (simp add: app_ok_def)
    ultimately obtain a' where a': "apply_loaded en geo_get now (ls, li, lr) a = Some a'" "stacks_inv (ap_services a')"
      "live_config (ap_services a') = live_config ls" "ap_routes a' = lr" "ap_db a' = ap_db a" using apply_loaded_ok by blast
    have "reload_and_apply en geo_get js now a = Some a'"
      using Inr True a'(1) by (simp add: reload_and_apply_def Let_def l c_def)
    moreover have "routes_known (live_config ls) lr" using load_ok [OF Inr] l by (simp add: loaded_ok_def)
    then have "app_ok a'" using True c a' detected_names_free [of ls] detected_ports_free [of ls] by (simp add: app_ok_def)
    ultimately show ?thesis using a'(5) by blast
  next
    case False
    then have "reload_and_apply en geo_get js now a = Some (a\<lparr>ap_orch := report_conflicts c (ap_orch a)\<rparr>)"
      using Inr by (auto simp: reload_and_apply_def Let_def c_def)
    then show ?thesis using assms by (simp add: app_ok_def)
  qed
qed

lemma persisted_ok:
  assumes "app_ok a"
  shows "\<exists>r a'. persisted en geo_get js now db a = Some (r, a') \<and> app_ok a'"
proof (cases db)
  case (Some d)
  have "app_ok (a\<lparr>ap_db := d\<rparr>)" using assms by (simp add: app_ok_def)
  then obtain a' where "reload_and_apply en geo_get js now (a\<lparr>ap_db := d\<rparr>) = Some a'" "app_ok a'" using reload_and_apply_ok by blast
  then show ?thesis using Some by (simp add: persisted_def)
qed (use assms in \<open>simp add: persisted_def\<close>)

section \<open>The life of a configuration\<close>

datatype config_cmd =
    SaveServices string "service_toml list"
  | ImportStack string "service_toml list" "route_toml list"
  | SaveRoutes string "route_entry list"
  | DeleteStack string

fun config_exec ::
  "('e, 'net) engine \<Rightarrow> (u32 \<Rightarrow> geo_info option) \<Rightarrow> json \<Rightarrow> instant \<Rightarrow> config_cmd \<Rightarrow> app \<Rightarrow> response" where
  "config_exec en geo_get js now (SaveServices stack services) a = save_services en geo_get js now stack services a"
| "config_exec en geo_get js now (ImportStack stack services routes) a = import_stack en geo_get js now stack services routes a"
| "config_exec en geo_get js now (SaveRoutes stack entries) a = save_routes en geo_get js now stack entries a"
| "config_exec en geo_get js now (DeleteStack stack) a = delete_handler en geo_get js now stack a"

text \<open>Between two commands replicas and sessions come and go: anything that keeps the registry
  consistent and does not touch the configuration.\<close>

inductive config_reach ::
  "('e, 'net) engine \<Rightarrow> (u32 \<Rightarrow> geo_info option) \<Rightarrow> json \<Rightarrow> app \<Rightarrow> bool" for en geo_get js where
  start: "startup (en_net_of_str en) js db st = Inr a \<Longrightarrow> config_reach en geo_get js a"
| command: "config_reach en geo_get js a \<Longrightarrow> config_exec en geo_get js now cmd a = Some (r, a') \<Longrightarrow> config_reach en geo_get js a'"
| runtime: "config_reach en geo_get js a \<Longrightarrow> stacks_inv sv \<Longrightarrow> live_config sv = live_config (ap_services a) \<Longrightarrow>
    config_reach en geo_get js (a\<lparr>ap_services := sv, ap_orch := st\<rparr>)"

lemma config_exec_ok:
  assumes "app_ok a"
  shows "\<exists>r a'. config_exec en geo_get js now cmd a = Some (r, a') \<and> app_ok a'"
proof (cases cmd)
  case (SaveServices stack services)
  then show ?thesis using persisted_ok [OF assms] assms
    by (auto simp: save_services_def split: sum.splits option.splits)
next
  case (ImportStack stack services routes)
  then show ?thesis using persisted_ok [OF assms] assms
    by (auto simp: import_stack_def split: sum.splits option.splits)
next
  case (SaveRoutes stack entries)
  then show ?thesis using persisted_ok [OF assms] assms
    by (auto simp: save_routes_def split: sum.splits option.splits)
next
  case (DeleteStack stack)
  then show ?thesis using persisted_ok [OF assms] assms by (auto simp: delete_handler_def)
qed

lemma config_reach_ok: "config_reach en geo_get js a \<Longrightarrow> app_ok a"
proof (induction rule: config_reach.induct)
  case (start db st a)
  then show ?case by (rule startup_ok)
next
  case (command a now cmd r a')
  then show ?case using config_exec_ok [of a en geo_get js now cmd] by auto
next
  case (runtime a sv st)
  then show ?case by (simp add: app_ok_def)
qed

text \<open>\<^bold>\<open>C33.\<close> From the start on, through every sequence of saves, imports, route saves and deletions and
  whatever the registry does in between, a lookup by service name finds the one stack that runs a
  service of that name whenever there is one, no two services share a protocol and listen port,
  no two routes share host and path, and no command panics.\<close>

theorem lookups_unambiguous:
  assumes "config_reach en geo_get js a"
  shows "(\<forall>name s. find_service_stack (ap_services a) name = Some s \<longleftrightarrow> (\<exists>c. live_config (ap_services a) s = Some c \<and> c name \<noteq> None)) \<and>
    ports_free (live_config (ap_services a)) \<and> distinct (map fst (route_claims (ap_routes a))) \<and>
    (\<forall>now cmd. config_exec en geo_get js now cmd a \<noteq> None)"
proof -
  have ok: "app_ok a" by (rule config_reach_ok [OF assms])
  then have "hm_inv (ap_services a)" by (simp add: app_ok_def stacks_inv_def)
  moreover have "config_exec en geo_get js now cmd a \<noteq> None" for now cmd using config_exec_ok [OF ok, of en geo_get js now cmd] by auto
  moreover have "distinct (map fst (route_claims (ap_routes a)))" using ok by (simp add: app_ok_def detect_route_conflicts_def no_conflicts_iff)
  ultimately show ?thesis using ok lookup_unique by (auto simp: app_ok_def)
qed

definition empty_db :: database where
  "empty_db = \<lparr>db_stacks = [], db_services = [], db_triggers = [], db_dependencies = [], db_routes = [], db_observations = [],
     db_next_service = 1, db_next_observation = 1\<rparr>"

definition comma_json :: json where
  "comma_json = \<lparr>js_policy = (\<lambda>_. []), js_policy_of = (\<lambda>_. Some PolicyNone),
     js_chain = (\<lambda>c. case c of [] \<Rightarrow> [] | x # xs \<Rightarrow> x @ concat (map (\<lambda>y. CHR '','' # y) xs)), js_chain_of = (\<lambda>s. Some (split_on CHR '','' s))\<rparr>"

definition demo_db :: database where
  "demo_db = (case put_configuration ''s'' (Some (services_to_inserts comma_json demo_services)) (Some []) empty_db of
     Some db \<Rightarrow> db | None \<Rightarrow> empty_db)"

theorem lookups_unambiguous_witness:
  "\<exists>a. config_reach plain_engine (\<lambda>_. None) comma_json a \<and> find_service_stack (ap_services a) ''web'' = Some ''s''"
proof -
  let ?r = "startup (en_net_of_str plain_engine) comma_json demo_db (orch_new Vxlan False False [])"
  have "(case ?r of Inr a \<Rightarrow> map_option (\<lambda>m. hm_get m ''web'' \<noteq> None) (hm_get (ap_services a) ''s'') = Some True | Inl _ \<Rightarrow> False)"
    by code_simp
  then obtain a m where a: "?r = Inr a" "hm_get (ap_services a) ''s'' = Some m" "hm_get m ''web'' \<noteq> None"
    by (auto split: sum.splits)
  have reach: "config_reach plain_engine (\<lambda>_. None) comma_json a" by (rule config_reach.start [OF a(1)])
  have "live_config (ap_services a) ''s'' = Some (config_of m)" "config_of m ''web'' \<noteq> None"
    using a(2,3) by (simp_all add: live_config_def config_of_def)
  then have "find_service_stack (ap_services a) ''web'' = Some ''s''" using lookups_unambiguous [OF reach] by blast
  then show ?thesis using reach by blast
qed

end
