(* ===== verification/Config_Round.thy ===== *)
theory Config_Round
  imports Config_Reach
begin

text \<open>
  What is saved is what is loaded: the rows written for a stack read back as the declarations they
  were written from, and the other stacks read as before.  The exception is a number the column
  cannot hold.
\<close>

section \<open>One row\<close>

text \<open>The JSON codec returns what it was given, for the filters and chains of these services.\<close>

definition json_ok :: "json \<Rightarrow> service_toml list \<Rightarrow> bool" where
  "json_ok js services \<longleftrightarrow> (\<forall>s \<in> set services.
     (\<forall>p \<in> {st_egress_filter s, st_ingress_filter s}. js_policy_of js (js_policy js p) = Some p) \<and>
     (\<forall>c \<in> set (st_proxy_dependencies s). js_chain_of js (js_chain js c) = Some c))"

definition fits :: "nat \<Rightarrow> 'a::len word option \<Rightarrow> 'a word option" where
  "fits bits x = (case x of None \<Rightarrow> None | Some w \<Rightarrow> if uint w < 2 ^ (bits - 1) then Some w else None)"

text \<open>A declaration as the columns hold it.\<close>

definition narrowed :: "service_toml \<Rightarrow> service_toml" where
  "narrowed s = s\<lparr>st_timeout := fits 64 (st_timeout s), st_max_networks := fits 32 (st_max_networks s)\<rparr>"

lemma of_signed_uint [simp]: "of_signed (uint w) = Some (w :: 'a::len word)"
  by (simp add: of_signed_def uint_bounded)

lemma signed_roundtrip: "Option.bind x (\<lambda>y. Option.bind (to_signed bits y) of_signed) = fits bits (x :: 'a::len word option)"
  by (cases x) (auto simp: to_signed_def fits_def)

lemma bind_of_signed: "Option.bind (map_option uint x) of_signed = (x :: 'a::len word option)"
  by (cases x) simp_all

lemma filter_roundtrip: "js_policy_of js (js_policy js p) = Some p \<Longrightarrow> decode_filter js (encode_filter js p) = p"
  by (simp add: decode_filter_def encode_filter_def)

lemma protocol_roundtrip: "map_option protocol_of_name (map_option protocol_name p) = p"
proof -
  have "protocol_of_name (protocol_name x) = x" for x by (cases x) (simp_all add: protocol_name_def protocol_of_name_def)
  then show ?thesis by (cases p) simp_all
qed

section \<open>The tables\<close>

definition db_ok :: "database \<Rightarrow> bool" where
  "db_ok db \<longleftrightarrow> distinct (map sr_id (db_services db)) \<and> (\<forall>r \<in> set (db_services db). sr_id r < db_next_service db) \<and>
     (\<forall>t \<in> set (db_triggers db). tr_service_id t < db_next_service db) \<and>
     (\<forall>d \<in> set (db_dependencies db). dr_service_id d < db_next_service db)"

abbreviation dep_key :: "dependency_row \<Rightarrow> int \<times> int" where
  "dep_key d \<equiv> (dr_service_id d, dr_branch_index d)"

definition row_toml :: "json \<Rightarrow> database \<Rightarrow> service_row \<Rightarrow> service_toml" where
  "row_toml js db r = service_from_row js (filter (\<lambda>t. tr_service_id t = sr_id r) (db_triggers db))
     (sort_key dep_key (filter (\<lambda>d. dr_service_id d = sr_id r) (db_dependencies db))) r"

lemma stored_services_rows: "stored_services js stack db = map (row_toml js db) (services_for stack db)"
proof -
  let ?ids = "set (map sr_id (services_for stack db))"
  have "service_from_row js (triggers_for (map sr_id (services_for stack db)) db) (dependencies_for (map sr_id (services_for stack db)) db) r = row_toml js db r"
    if "r \<in> set (services_for stack db)" for r
  proof -
    have r: "sr_id r \<in> ?ids" using that by simp
    have "filter (\<lambda>x. dr_service_id x \<in> sr_id ` set (services_for stack db) \<and> dr_service_id x = sr_id r) xs = filter (\<lambda>x. dr_service_id x = sr_id r) xs"
      for xs :: "dependency_row list" using r by (intro filter_cong) auto
    moreover have "filter (\<lambda>x. tr_service_id x \<in> sr_id ` set (services_for stack db) \<and> tr_service_id x = sr_id r) xs = filter (\<lambda>x. tr_service_id x = sr_id r) xs"
      for xs :: "trigger_row list" using r by (intro filter_cong) auto
    ultimately show ?thesis
      by (simp add: service_from_row_def row_toml_def triggers_for_def dependencies_for_def filter_sort)
  qed
  then show ?thesis by (simp add: stored_services_def services_from_rows_def Let_def)
qed

lemma row_toml_kept:
  assumes "sr_id r \<noteq> n" "filter (\<lambda>t. tr_service_id t \<noteq> n) (db_triggers db') = filter (\<lambda>t. tr_service_id t \<noteq> n) (db_triggers db)"
    "filter (\<lambda>d. dr_service_id d \<noteq> n) (db_dependencies db') = filter (\<lambda>d. dr_service_id d \<noteq> n) (db_dependencies db)"
  shows "row_toml js db' r = row_toml js db r"
proof -
  have t: "filter (\<lambda>t. tr_service_id t = sr_id r) xs = filter (\<lambda>t. tr_service_id t = sr_id r) (filter (\<lambda>t. tr_service_id t \<noteq> n) xs)"
    for xs :: "trigger_row list" using assms(1) by (induction xs) auto
  have d: "filter (\<lambda>d. dr_service_id d = sr_id r) xs = filter (\<lambda>d. dr_service_id d = sr_id r) (filter (\<lambda>d. dr_service_id d \<noteq> n) xs)"
    for xs :: "dependency_row list" using assms(1) by (induction xs) auto
  show ?thesis
    unfolding row_toml_def t [of "db_triggers db'"] t [of "db_triggers db"] d [of "db_dependencies db'"] d [of "db_dependencies db"] assms(2,3) ..
qed

definition new_dependencies :: "int \<Rightarrow> nat \<Rightarrow> string list \<Rightarrow> dependency_row list" where
  "new_dependencies n k chains_of = map (\<lambda>(i, chain). \<lparr>dr_service_id = n, dr_branch_index = int i, dr_chain = chain\<rparr>) (enumerate k chains_of)"

lemma new_dependencies_sorted: "sort_key dep_key (new_dependencies n k cs) = new_dependencies n k cs"
proof (rule sort_key_id_if_sorted)
  show "sorted (map dep_key (new_dependencies n k cs))"
    by (induction cs arbitrary: k) (auto simp: new_dependencies_def in_set_enumerate_eq)
qed

lemma new_dependencies_chains: "map (\<lambda>d. f (dr_chain d)) (new_dependencies n k cs) = map f cs"
  by (induction cs arbitrary: k) (auto simp: new_dependencies_def)

lemma insert_service_ok:
  assumes "db_ok db" "insert_service stack (service_to_insert js s) db = Some db'" "json_ok js [s]"
  shows "db_ok db' \<and> db_stacks db' = db_stacks db \<and> db_routes db' = db_routes db \<and> db_observations db' = db_observations db \<and>
    stored_services js stack db' = stored_services js stack db @ [narrowed s] \<and>
    (\<forall>other. other \<noteq> stack \<longrightarrow> stored_services js other db' = stored_services js other db)"
proof -
  let ?n = "db_next_service db"
  define row where "row = (si_row (service_to_insert js s))\<lparr>sr_id := ?n, sr_stack := stack\<rparr>"
  have db': "db_services db' = db_services db @ [row]" "db_next_service db' = ?n + 1"
    "db_triggers db' = db_triggers db @ map (\<lambda>peer. \<lparr>tr_service_id = ?n, tr_peer = peer\<rparr>) (st_backends s)"
    "db_dependencies db' = db_dependencies db @ new_dependencies ?n 0 (map (js_chain js) (st_proxy_dependencies s))"
    "db_stacks db' = db_stacks db" "db_routes db' = db_routes db" "db_observations db' = db_observations db"
    using assms(2) by (auto simp: insert_service_def Let_def row_def service_to_insert_def new_dependencies_def split: if_splits)
  have old: "\<forall>r \<in> set (db_services db). sr_id r \<noteq> ?n" "\<forall>t \<in> set (db_triggers db). tr_service_id t \<noteq> ?n"
    "\<forall>d \<in> set (db_dependencies db). dr_service_id d \<noteq> ?n" using assms(1) by (auto simp: db_ok_def)
  have nd: "\<forall>d \<in> set (new_dependencies ?n 0 cs). dr_service_id d = ?n" for cs by (auto simp: new_dependencies_def)
  have "db_ok db'" using assms(1) old(1) nd unfolding db_ok_def db' by (auto simp: row_def)
  moreover have kept: "row_toml js db' r = row_toml js db r" if "r \<in> set (db_services db)" for r
    by (rule row_toml_kept [of _ ?n]) (use old(1) that nd in \<open>auto simp: db' filter_empty_conv\<close>)
  moreover have "row_toml js db' row = narrowed s"
  proof -
    have "filter (\<lambda>t. tr_service_id t = ?n) (db_triggers db') = map (\<lambda>peer. \<lparr>tr_service_id = ?n, tr_peer = peer\<rparr>) (st_backends s)"
      using old(2) by (auto simp: db' filter_empty_conv filter_id_conv)
    moreover have "filter (\<lambda>d. dr_service_id d = ?n) (db_dependencies db') = new_dependencies ?n 0 (map (js_chain js) (st_proxy_dependencies s))"
      using old(3) nd by (auto simp: db' filter_empty_conv filter_id_conv)
    moreover have "map (\<lambda>d. case js_chain_of js (dr_chain d) of None \<Rightarrow> [] | Some c \<Rightarrow> c) (new_dependencies ?n 0 (map (js_chain js) (st_proxy_dependencies s)))
        = st_proxy_dependencies s"
      unfolding new_dependencies_chains [where f = "\<lambda>x. case js_chain_of js x of None \<Rightarrow> [] | Some c \<Rightarrow> c"]
      using assms(3) by (simp add: json_ok_def comp_def map_idI)
    moreover have "filter (\<lambda>d. dr_service_id d = ?n) (new_dependencies ?n 0 cs) = new_dependencies ?n 0 cs" for cs
      using nd by (simp add: filter_id_conv)
    ultimately show ?thesis using assms(3)
      by (cases s) (simp add: row_toml_def service_from_row_def row_def service_to_insert_def new_dependencies_sorted narrowed_def json_ok_def
          signed_roundtrip bind_of_signed filter_roundtrip protocol_roundtrip comp_def)
  qed
  ultimately show ?thesis unfolding stored_services_rows services_for_def db' by (auto simp: row_def)
qed

lemma insert_services_ok:
  assumes "db_ok db" "foldM (insert_service stack) (map (service_to_insert js) services) db = Some db'" "json_ok js services"
  shows "db_ok db' \<and> db_stacks db' = db_stacks db \<and> db_routes db' = db_routes db \<and> db_observations db' = db_observations db \<and>
    stored_services js stack db' = stored_services js stack db @ map narrowed services \<and>
    (\<forall>other. other \<noteq> stack \<longrightarrow> stored_services js other db' = stored_services js other db)"
  using assms
proof (induction services arbitrary: db)
  case (Cons s services)
  obtain db1 where db1: "insert_service stack (service_to_insert js s) db = Some db1"
    "foldM (insert_service stack) (map (service_to_insert js) services) db1 = Some db'" using Cons.prems(2) by (auto split: option.splits)
  have j: "json_ok js [s]" "json_ok js services" using Cons.prems(3) by (auto simp: json_ok_def)
  note one = insert_service_ok [OF Cons.prems(1) db1(1) j(1)]
  have "db_ok db1" using one by blast
  from Cons.IH [OF this db1(2) j(2)] show ?case using one by simp
qed simp

lemma delete_services_ok:
  assumes "db_ok db"
  shows "db_ok (delete_services stack db) \<and> stored_services js stack (delete_services stack db) = [] \<and>
    (\<forall>other. other \<noteq> stack \<longrightarrow> stored_services js other (delete_services stack db) = stored_services js other db)"
proof -
  let ?db = "delete_services stack db" and ?ids = "sr_id ` set (services_for stack db)"
  have f: "db_services ?db = filter (\<lambda>r. sr_stack r \<noteq> stack) (db_services db)" "db_next_service ?db = db_next_service db"
    "db_triggers ?db = filter (\<lambda>t. tr_service_id t \<notin> ?ids) (db_triggers db)"
    "db_dependencies ?db = filter (\<lambda>d. dr_service_id d \<notin> ?ids) (db_dependencies db)"
    by (simp_all add: delete_services_def Let_def)
  have "row_toml js ?db r = row_toml js db r" if r: "r \<in> set (services_for other db)" "other \<noteq> stack" for r other
  proof -
    have "inj_on sr_id (set (db_services db))" using assms by (simp add: db_ok_def distinct_map)
    then have "sr_id r \<notin> ?ids" using r by (auto simp: services_for_def dest: inj_onD)
    then have t: "filter (\<lambda>t. tr_service_id t = sr_id r) (filter (\<lambda>t. tr_service_id t \<notin> ?ids) xs) = filter (\<lambda>t. tr_service_id t = sr_id r) xs"
      and d: "filter (\<lambda>d. dr_service_id d = sr_id r) (filter (\<lambda>d. dr_service_id d \<notin> ?ids) ys) = filter (\<lambda>d. dr_service_id d = sr_id r) ys"
      for xs :: "trigger_row list" and ys :: "dependency_row list" by (induction xs, auto, induction ys, auto)
    show ?thesis unfolding row_toml_def f t d ..
  qed
  moreover have "services_for other ?db = (if other = stack then [] else services_for other db)" for other
    by (auto simp: services_for_def f intro: filter_cong)
  moreover have "db_ok ?db" using assms unfolding db_ok_def f by (auto simp: distinct_map_filter)
  ultimately show ?thesis by (simp add: stored_services_rows)
qed

section \<open>Routes\<close>

lemma insert_routes_ok:
  assumes "foldM insert_route rows db = Some db'"
  shows "db_routes db' = db_routes db @ rows \<and> db_services db' = db_services db \<and> db_triggers db' = db_triggers db \<and>
    db_dependencies db' = db_dependencies db \<and> db_next_service db' = db_next_service db \<and> db_stacks db' = db_stacks db \<and>
    db_observations db' = db_observations db"
  using assms by (induction rows arbitrary: db) (auto simp: insert_route_def split: option.splits if_splits)

lemma route_target_roundtrip:
  assumes "route_target_of services r = Inr target"
  shows "route_target_of services (route_toml_from_row (route_entry_to_insert stack \<lparr>re_host = rt_host r, re_path = rt_path r, re_target = target\<rparr>)) = Inr target"
proof (cases target)
  case (RouteService name strip)
  then show ?thesis using assms
    by (auto simp: route_target_of_def route_toml_from_row_def route_entry_to_insert_def Let_def split: option.splits if_splits)
next
  case (RouteRedirect to status preserve_path preserve_query)
  then show ?thesis using assms
    by (auto simp: route_target_of_def route_toml_from_row_def route_entry_to_insert_def Let_def split: option.splits if_splits)
qed

lemma route_entries_roundtrip:
  assumes "build_route_entries services routes = Inr entries"
  shows "build_route_entries services (map route_toml_from_row (map (route_entry_to_insert stack) entries)) = Inr entries"
proof -
  define f where "f r = map_sum id (\<lambda>target. \<lparr>re_host = rt_host r, re_path = rt_path r, re_target = target\<rparr>) (route_target_of services r)" for r
  have hp: "rt_host (route_toml_from_row (route_entry_to_insert stack e)) = re_host e" "rt_path (route_toml_from_row (route_entry_to_insert stack e)) = re_path e" for e
    by (simp_all add: route_toml_from_row_def route_entry_to_insert_def split: route_target.splits)
  have one: "f (route_toml_from_row (route_entry_to_insert stack e)) = Inr e" if e: "f r = Inr e" for r e
  proof -
    obtain target where t: "route_target_of services r = Inr target" "e = \<lparr>re_host = rt_host r, re_path = rt_path r, re_target = target\<rparr>"
      using e by (cases "route_target_of services r") (simp_all add: f_def)
    show ?thesis using route_target_roundtrip [OF t(1), of stack] unfolding f_def t(2) hp by simp
  qed
  have "try_map f routes = Inr entries \<Longrightarrow> try_map f (map (\<lambda>e. route_toml_from_row (route_entry_to_insert stack e)) entries) = Inr entries"
  proof (induction routes arbitrary: entries)
    case (Cons r routes)
    then obtain e es where "f r = Inr e" "try_map f routes = Inr es" "entries = e # es" by (auto split: sum.splits)
    then show ?case using one Cons.IH by simp
  qed simp
  then show ?thesis using assms unfolding build_route_entries_def f_def map_map comp_def by blast
qed

lemma validate_roundtrip:
  assumes "validate_stack net_of_str services routes = Inr (m, matches, entries)"
  shows "validate_stack net_of_str services (map route_toml_from_row (map (route_entry_to_insert stack) entries)) = Inr (m, matches, entries)"
proof -
  have "build_route_entries services routes = Inr entries" using assms by (auto simp: validate_stack_def map_sum_def split: sum.splits)
  from route_entries_roundtrip [OF this] show ?thesis using assms by (auto simp: validate_stack_def map_sum_def split: sum.splits)
qed

section \<open>Saving and loading\<close>

lemma put_configuration_ok:
  assumes "db_ok db" "put_configuration stack (Some (services_to_inserts js services)) (Some rows) db = Some db'" "json_ok js services"
    and "\<forall>r \<in> set rows. rr_stack r = stack"
  shows "db_ok db' \<and> db_observations db' = db_observations db \<and> stack \<in> set (db_stacks db') \<and>
    stored_services js stack db' = map narrowed services \<and> routes_for stack db' = rows \<and>
    (\<forall>other. other \<noteq> stack \<longrightarrow> stored_services js other db' = stored_services js other db \<and> routes_for other db' = routes_for other db)"
proof -
  define db0 where "db0 = db\<lparr>db_stacks := (if stack \<in> set (db_stacks db) then db_stacks db else db_stacks db @ [stack])\<rparr>"
  have db0: "db_ok db0" "stack \<in> set (db_stacks db0)" "db_observations db0 = db_observations db" "db_routes db0 = db_routes db"
    "stored_services js other db0 = stored_services js other db" for other
    using assms(1) by (auto simp: db0_def db_ok_def stored_services_rows services_for_def row_toml_def)
  define db1 where "db1 = delete_services stack db0"
  have fields: "db_stacks db1 = db_stacks db0" "db_observations db1 = db_observations db0" "db_routes db1 = db_routes db0"
    by (simp_all add: db1_def delete_services_def Let_def)
  obtain db2 where run: "foldM (insert_service stack) (map (service_to_insert js) services) db1 = Some db2"
    "foldM insert_route rows (db2\<lparr>db_routes := filter (\<lambda>r. rr_stack r \<noteq> stack) (db_routes db2)\<rparr>) = Some db'"
    using assms(2) by (auto simp: put_configuration_def services_to_inserts_def db0_def db1_def Let_def split: bind_splits)
  note d = delete_services_ok [OF db0(1), of stack js, folded db1_def]
  then have "db_ok db1" by blast
  note i = insert_services_ok [OF this run(1) assms(3)]
  note r = insert_routes_ok [OF run(2)]
  have same: "stored_services js other db' = stored_services js other db2" for other
    using r by (simp add: stored_services_rows services_for_def row_toml_def)
  have "db_ok db'" using i r by (simp add: db_ok_def)
  moreover have "routes_for stack db' = rows" using r assms(4) by (auto simp: routes_for_def filter_id_conv filter_empty_conv)
  moreover have "routes_for other db' = routes_for other db" if "other \<noteq> stack" for other
  proof -
    have "filter (\<lambda>r. rr_stack r = other) rows = []" using assms(4) that by (auto simp: filter_empty_conv)
    then show ?thesis using r i fields db0(4) that by (auto simp: routes_for_def intro: filter_cong)
  qed
  ultimately show ?thesis using r i d fields db0 same by simp
qed

lemma narrowed_id:
  assumes "\<And>t. st_timeout s = Some t \<Longrightarrow> uint t < 2 ^ 63" "\<And>m. st_max_networks s = Some m \<Longrightarrow> uint m < 2 ^ 31"
  shows "narrowed s = s"
  using assms by (cases s) (auto simp: narrowed_def fits_def split: option.splits)



text \<open>\<^bold>\<open>C40.\<close> A cap of \<^verbatim>\<open>2^31\<close> networks or more passes validation and is stored as no cap at all: the service
  is saved and loaded without the limit that was declared.\<close>

theorem large_cap_lost:
  assumes "db_ok db" "json_ok js [s]" "st_max_networks s = Some n" "2 ^ 31 \<le> uint n"
    and "put_configuration stack (Some (services_to_inserts js [s])) (Some []) db = Some db'"
  shows "map st_max_networks (stored_services js stack db') = [None]"
  using put_configuration_ok [OF assms(1,5,2)] assms(3,4) by (simp add: narrowed_def fits_def)

theorem large_cap_lost_witness:
  "\<exists>db'. put_configuration ''s'' (Some (services_to_inserts comma_json [(toml_of ''web'' (Some 80) (Some 60) [] [])\<lparr>st_max_networks := Some (2 ^ 31)\<rparr>])) (Some []) empty_db = Some db' \<and>
     map st_max_networks (stored_services comma_json ''s'' db') = [None]"
proof -
  let ?s = "(toml_of ''web'' (Some 80) (Some 60) [] [])\<lparr>st_max_networks := Some (2 ^ 31)\<rparr>"
  have "put_configuration ''s'' (Some (services_to_inserts comma_json [?s])) (Some []) empty_db \<noteq> None" by code_simp
  then obtain db' where p: "put_configuration ''s'' (Some (services_to_inserts comma_json [?s])) (Some []) empty_db = Some db'" by auto
  have "db_ok empty_db" "json_ok comma_json [?s]" by code_simp+
  then show ?thesis using large_cap_lost [OF _ _ _ _ p] p by simp
qed

section \<open>Observation\<close>

text \<open>Two stacks that both declare a service \<^verbatim>\<open>web\<close>, and a third without conflict.\<close>

definition conflict_db :: database where
  "conflict_db = (let put = (\<lambda>stack ss db. case put_configuration stack (Some (services_to_inserts comma_json ss)) (Some []) db of
       Some db' \<Rightarrow> db' | None \<Rightarrow> db)
     in put ''c'' [toml_of ''x'' (Some 80) None [] [], toml_of ''y'' (Some 81) None [] []]
       (put ''b'' [toml_of ''web'' (Some 80) None [] []] (put ''a'' [toml_of ''web'' (Some 80) None [] []] empty_db)))"


end
