(* ===== verification/Proxy_Tables.thy ===== *)
theory Proxy_Tables
  imports Config_Reach
begin

text \<open>
  The two tables the server pushes to its proxies and what a proxy makes of them: the port table
  becomes TCP and UDP listeners, the route table decides which service answers an HTTP request
  (nullnet-server \<^verbatim>\<open>nullnet_grpc_impl.rs\<close>, nullnet-proxy \<^verbatim>\<open>routes.rs\<close> and \<^verbatim>\<open>port_mappings.rs\<close>).
  The properties join both ends: what the proxy does is what the configuration declares.
\<close>

section \<open>The tables on the wire\<close>

record http_redirect =
  hd_to :: string
  hd_status_code :: u32
  hd_preserve_path :: bool
  hd_preserve_query :: bool

datatype http_target = TargetService string | TargetRedirect http_redirect

record http_route =
  hr_host :: string
  hr_path_prefix :: string
  hr_target :: "http_target option"
  hr_strip_prefix :: bool

text \<open>The wire carries the protocol as an enumeration number of 32 bits.\<close>

fun protocol_number :: "service_protocol \<Rightarrow> u32" where
  "protocol_number Http = 0"
| "protocol_number Tcp = 1"
| "protocol_number Udp = 2"

definition protocol_try_from :: "u32 \<Rightarrow> service_protocol option" where
  "protocol_try_from n = (if n = 0 then Some Http else if n = 1 then Some Tcp else if n = 2 then Some Udp else None)"

record port_mapping =
  pm_service_name :: string
  pm_protocol :: u32
  pm_listen_port :: u32
  pm_idle_timeout_secs :: nat

section \<open>The server's side\<close>

definition all_services :: "stack_map \<Rightarrow> (string \<times> service_info) list" where
  "all_services stacks = concat (map snd stacks)"

definition build_port_mapping_bundle :: "stack_map \<Rightarrow> port_mapping list" where
  "build_port_mapping_bundle stacks = List.map_filter (\<lambda>(name, info).
     map_option (\<lambda>port. \<lparr>pm_service_name = name, pm_protocol = protocol_number (sc_protocol (si_config info)),
       pm_listen_port = ucast port, pm_idle_timeout_secs = (case si_timeout info of Some t \<Rightarrow> t | None \<Rightarrow> 0)\<rparr>)
     (sc_listen_port (si_config info))) (all_services stacks)"

definition sort_dedup :: "'a::linorder list \<Rightarrow> 'a list" where
  "sort_dedup xs = remdups_adj (sort xs)"

definition listen_ports :: "service_protocol \<Rightarrow> stack_map \<Rightarrow> u32 list" where
  "listen_ports protocol stacks = List.map_filter (\<lambda>(_, info).
     if sc_protocol (si_config info) = protocol then map_option ucast (sc_listen_port (si_config info)) else None) (all_services stacks)"

definition ingress_allow_ports :: "u32 list \<Rightarrow> u32 list \<Rightarrow> stack_map \<Rightarrow> bool \<Rightarrow> u32 list \<times> u32 list" where
  "ingress_allow_ports tcp udp stacks proxy =
     (sort_dedup (if proxy then tcp @ listen_ports Tcp stacks else tcp),
      sort_dedup (if proxy then udp @ listen_ports Udp stacks else udp))"

fun wire_target :: "route_target \<Rightarrow> http_target \<times> bool" where
  "wire_target (RouteService name strip_prefix) = (TargetService name, strip_prefix)"
| "wire_target (RouteRedirect to status preserve_path preserve_query) =
     (TargetRedirect \<lparr>hd_to = to, hd_status_code = ucast status, hd_preserve_path = preserve_path, hd_preserve_query = preserve_query\<rparr>, False)"

definition wire_route :: "route_entry \<Rightarrow> http_route" where
  "wire_route r = \<lparr>hr_host = re_host r, hr_path_prefix = re_path r,
     hr_target = Some (fst (wire_target (re_target r))), hr_strip_prefix = snd (wire_target (re_target r))\<rparr>"

definition implicit_route :: "string \<Rightarrow> http_route" where
  "implicit_route name = \<lparr>hr_host = name, hr_path_prefix = ''/'', hr_target = Some (TargetService name), hr_strip_prefix = False\<rparr>"

definition implicit_routes :: "string set \<Rightarrow> stack_map \<Rightarrow> http_route list" where
  "implicit_routes explicit_hosts stacks = List.map_filter (\<lambda>(name, info).
     if sc_protocol (si_config info) \<noteq> Http \<or> si_timeout info = None then None
     else if name \<in> explicit_hosts then None
     else Some (implicit_route name)) (all_services stacks)"

definition build_http_route_bundle :: "stack_map \<Rightarrow> route_map \<Rightarrow> http_route list" where
  "build_http_route_bundle stacks routes = (let entries = concat (map snd routes)
     in map wire_route entries @ implicit_routes (set (map re_host entries)) stacks)"

section \<open>The route table of a proxy\<close>

datatype route_match =
    Backend string string
  | RedirectTo string u16 bool bool string

datatype resolution = Fallback | Matched route_match | RouteNotFound

type_synonym route_table = "(string, http_route list) hmap"

definition push_route :: "http_route \<Rightarrow> route_table \<Rightarrow> route_table" where
  "push_route r m = hm_insert (hr_host r) ((case hm_get m (hr_host r) of Some rs \<Rightarrow> rs | None \<Rightarrow> []) @ [r]) m"

abbreviation "prefix_order \<equiv> (\<lambda>r. - int (length (hr_path_prefix r)))"

definition from_bundle :: "http_route list \<Rightarrow> route_table" where
  "from_bundle pushed = map (\<lambda>(host, rs). (host, sort_key prefix_order rs)) (fold push_route pushed [])"

definition strip_prefix :: "string \<Rightarrow> string \<Rightarrow> string option" where
  "strip_prefix p s = (if prefix p s then Some (drop (length p) s) else None)"

definition normalize_forward_path :: "string \<Rightarrow> string" where
  "normalize_forward_path rest = (if rest = [] then ''/'' else if hd rest = CHR ''/'' then rest else CHR ''/'' # rest)"

definition u16_try_from :: "u32 \<Rightarrow> u16 option" where
  "u16_try_from n = (if uint n < 65536 then Some (ucast n) else None)"

fun dispatch :: "http_target \<Rightarrow> bool \<Rightarrow> string \<Rightarrow> string \<Rightarrow> route_match" where
  "dispatch (TargetService name) strip path rest = Backend name (if strip then normalize_forward_path rest else path)"
| "dispatch (TargetRedirect r) strip path rest = RedirectTo (hd_to r)
     (case u16_try_from (hd_status_code r) of Some n \<Rightarrow> n | None \<Rightarrow> 301) (hd_preserve_path r) (hd_preserve_query r) rest"

fun resolve_in :: "http_route list \<Rightarrow> string \<Rightarrow> resolution" where
  "resolve_in [] path = RouteNotFound"
| "resolve_in (r # rs) path = (case strip_prefix (hr_path_prefix r) path of
       None \<Rightarrow> resolve_in rs path
     | Some rest \<Rightarrow> (case hr_target r of
         Some target \<Rightarrow> Matched (dispatch target (hr_strip_prefix r) path rest)
       | None \<Rightarrow> resolve_in rs path))"

definition resolve :: "route_table \<Rightarrow> string \<Rightarrow> string \<Rightarrow> resolution" where
  "resolve table host path = (case hm_get table host of None \<Rightarrow> Fallback | Some rs \<Rightarrow> resolve_in rs path)"

section \<open>The listeners of a proxy\<close>

datatype local_protocol = LocalTcp | LocalUdp

definition local_protocol_of :: "u32 \<Rightarrow> local_protocol option" where
  "local_protocol_of raw = (case protocol_try_from raw of Some Tcp \<Rightarrow> Some LocalTcp | Some Udp \<Rightarrow> Some LocalUdp | _ \<Rightarrow> None)"

record mapping_entry =
  mp_service_name :: string
  mp_idle_timeout_secs :: nat

text \<open>A listener is a task with the receiving end of a channel that holds its mapping.  The task ends
  by itself when its port cannot be bound; the channel then has no receiver and keeps its value.\<close>

record running_listener =
  rl_task :: nat
  rl_mapping :: mapping_entry
  rl_receiver :: bool

type_synonym listener_key = "local_protocol \<times> u16"

record listeners =
  ls_running :: "(listener_key, running_listener) hmap"
  ls_next_task :: nat
  ls_aborted :: "nat list"

definition mapping_of :: "port_mapping \<Rightarrow> (listener_key \<times> mapping_entry) option" where
  "mapping_of m = do {
     protocol \<leftarrow> local_protocol_of (pm_protocol m);
     port \<leftarrow> u16_try_from (pm_listen_port m);
     Some ((protocol, port), \<lparr>mp_service_name = pm_service_name m, mp_idle_timeout_secs = pm_idle_timeout_secs m\<rparr>)
   }"

definition desired_mappings :: "port_mapping list \<Rightarrow> (listener_key, mapping_entry) hmap" where
  "desired_mappings pushed = fold (\<lambda>m d. case mapping_of m of None \<Rightarrow> d | Some (key, entry) \<Rightarrow> hm_insert key entry d) pushed []"

definition stop_listener :: "listener_key \<Rightarrow> listeners \<Rightarrow> listeners" where
  "stop_listener key l = (case hm_get (ls_running l) key of
       None \<Rightarrow> l
     | Some rl \<Rightarrow> l\<lparr>ls_running := hm_remove key (ls_running l), ls_aborted := rl_task rl # ls_aborted l\<rparr>)"

definition send_mapping :: "mapping_entry \<Rightarrow> running_listener \<Rightarrow> running_listener" where
  "send_mapping entry rl = (if rl_receiver rl then rl\<lparr>rl_mapping := entry\<rparr> else rl)"

definition serve_mapping :: "listener_key \<times> mapping_entry \<Rightarrow> listeners \<Rightarrow> listeners" where
  "serve_mapping ke l = (case ke of (key, entry) \<Rightarrow> (case hm_get (ls_running l) key of
       Some _ \<Rightarrow> l\<lparr>ls_running := hm_modify key (send_mapping entry) (ls_running l)\<rparr>
     | None \<Rightarrow> l\<lparr>ls_running := hm_insert key \<lparr>rl_task = ls_next_task l, rl_mapping = entry, rl_receiver = True\<rparr> (ls_running l),
         ls_next_task := Suc (ls_next_task l)\<rparr>))"

definition reconcile :: "port_mapping list \<Rightarrow> listeners \<Rightarrow> listeners" where
  "reconcile pushed l = (let
       desired = desired_mappings pushed;
       removed = filter (\<lambda>key. hm_get desired key = None) (hm_keys (ls_running l))
     in fold serve_mapping desired (fold stop_listener removed l))"

definition stream_closed :: "listeners \<Rightarrow> listeners" where
  "stream_closed l = l\<lparr>ls_running := [], ls_aborted := map rl_task (hm_values (ls_running l)) @ ls_aborted l\<rparr>"

definition bind_failed :: "listener_key \<Rightarrow> listeners \<Rightarrow> listeners" where
  "bind_failed key l = l\<lparr>ls_running := hm_modify key (\<lambda>rl. rl\<lparr>rl_receiver := False\<rparr>) (ls_running l)\<rparr>"

section \<open>Route lookup\<close>

lemma push_routes_get:
  "hm_get (fold push_route pushed m) h =
    (if filter (\<lambda>r. hr_host r = h) pushed = [] then hm_get m h
     else Some ((case hm_get m h of Some rs \<Rightarrow> rs | None \<Rightarrow> []) @ filter (\<lambda>r. hr_host r = h) pushed))"
  by (induction pushed arbitrary: m) (auto simp: push_route_def split: option.splits)

lemma hm_get_map_values: "hm_get (map (\<lambda>(k, v). (k, f v)) m) k = map_option f (hm_get m k)"
  unfolding hm_get_def by (induction m) auto

lemma from_bundle_get:
  "hm_get (from_bundle pushed) h = (let rs = filter (\<lambda>r. hr_host r = h) pushed in if rs = [] then None else Some (sort_key prefix_order rs))"
  unfolding from_bundle_def hm_get_map_values push_routes_get by (simp add: Let_def)

lemma resolve_in_none:
  assumes "\<forall>r \<in> set rs. hr_target r \<noteq> None"
  shows "resolve_in rs path = RouteNotFound \<longleftrightarrow> (\<forall>r \<in> set rs. \<not> prefix (hr_path_prefix r) path)"
  using assms by (induction rs) (auto simp: strip_prefix_def)

lemma resolve_in_longest:
  assumes "sorted (map prefix_order rs)" "\<forall>r \<in> set rs. hr_target r \<noteq> None"
    and "r \<in> set rs" "hr_target r = Some t" "prefix (hr_path_prefix r) path"
    and "\<forall>r' \<in> set rs. prefix (hr_path_prefix r') path \<longrightarrow> length (hr_path_prefix r') \<le> length (hr_path_prefix r)"
    and "\<forall>r' \<in> set rs. hr_path_prefix r' = hr_path_prefix r \<longrightarrow> r' = r"
  shows "resolve_in rs path = Matched (dispatch t (hr_strip_prefix r) path (drop (length (hr_path_prefix r)) path))"
  using assms
proof (induction rs)
  case (Cons x rs)
  show ?case
  proof (cases "prefix (hr_path_prefix x) path")
    case True
    have "length (hr_path_prefix r) \<le> length (hr_path_prefix x)" using Cons.prems(1,3) by auto
    then have "length (hr_path_prefix x) = length (hr_path_prefix r)" using Cons.prems(6) True by simp
    then have "hr_path_prefix x = hr_path_prefix r" using True Cons.prems(5) by (auto simp: prefix_def append_eq_append_conv)
    then have "x = r" using Cons.prems(7) by simp
    then show ?thesis using Cons.prems(4,5) by (simp add: strip_prefix_def)
  next
    case False
    then have "r \<in> set rs" using Cons.prems(3,5) by auto
    then show ?thesis using Cons False by (simp add: strip_prefix_def)
  qed
qed simp

lemma longest_exists:
  assumes "r \<in> set rs" "P r"
  shows "\<exists>r \<in> set rs. P r \<and> (\<forall>r' \<in> set rs. P r' \<longrightarrow> f r' \<le> (f r :: nat))"
proof -
  let ?S = "{r \<in> set rs. P r}"
  have "finite (f ` ?S)" "f ` ?S \<noteq> {}" using assms by auto
  then have "Max (f ` ?S) \<in> f ` ?S" "\<forall>y \<in> f ` ?S. y \<le> Max (f ` ?S)" by (simp_all add: Max_in)
  then show ?thesis by fastforce
qed

lemma forward_path_absolute: "normalize_forward_path s \<noteq> [] \<and> hd (normalize_forward_path s) = CHR ''/''"
  by (simp add: normalize_forward_path_def)

section \<open>What the configuration declares\<close>

text \<open>The routes of a host: the explicit ones, or else the whole host for the HTTP service of that name
  a proxy may reach.\<close>

definition declared_routes :: "(string \<Rightarrow> (string \<Rightarrow> service_config option) option) \<Rightarrow> route_map \<Rightarrow> string \<Rightarrow> (string \<times> route_target) set" where
  "declared_routes lc routes host = (let rs = {(re_path e, re_target e) | e. e \<in> set (concat (map snd routes)) \<and> re_host e = host}
     in if rs \<noteq> {} then rs
        else if \<exists>s c k. lc s = Some c \<and> c host = Some k \<and> sc_protocol k = Http \<and> sc_timeout k \<noteq> None then {(''/'', RouteService host False)}
        else {})"

fun target_match :: "string \<Rightarrow> string \<Rightarrow> route_target \<Rightarrow> route_match" where
  "target_match path p (RouteService name strip) =
     Backend name (if strip then normalize_forward_path (drop (length p) path) else path)"
| "target_match path p (RouteRedirect to status preserve_path preserve_query) =
     RedirectTo to status preserve_path preserve_query (drop (length p) path)"

lemma u16_wire [simp]: "u16_try_from (ucast p) = Some p"
proof -
  have "uint (ucast p :: u32) = uint p" by (rule uint_up_ucast) (simp add: is_up_def source_size_def target_size_def word_size)
  moreover have "uint p < 65536" using uint_bounded [of p] by simp
  moreover have "ucast (ucast p :: u32) = p" by (rule ucast_up_ucast_id) (simp add: is_up_def source_size_def target_size_def word_size)
  ultimately show ?thesis by (simp add: u16_try_from_def)
qed

lemma dispatch_wire:
  "dispatch (fst (wire_target t)) (snd (wire_target t)) path (drop (length p) path) = target_match path p t"
  by (cases t) simp_all

lemma all_services_iff:
  assumes "stacks_inv stacks"
  shows "(n, si) \<in> set (all_services stacks) \<longleftrightarrow> (\<exists>s sv. hm_get stacks s = Some sv \<and> hm_get sv n = Some si)"
proof -
  have h: "hm_inv stacks" using assms by (simp add: stacks_inv_def)
  have w: "hm_inv sv" if "(s, sv) \<in> set stacks" for s sv
    using assms that unfolding hm_get_in_set [OF h, symmetric] by (auto simp: stacks_inv_def world_inv_def services_inv_def)
  have "(n, si) \<in> set (all_services stacks) \<longleftrightarrow> (\<exists>s sv. (s, sv) \<in> set stacks \<and> (n, si) \<in> set sv)"
    by (force simp: all_services_def)
  moreover have "(s, sv) \<in> set stacks \<and> (n, si) \<in> set sv \<longleftrightarrow> hm_get stacks s = Some sv \<and> hm_get sv n = Some si" for s sv
    using hm_get_in_set [OF h, of s sv] hm_get_in_set [OF w, of s sv n si] by auto
  ultimately show ?thesis by simp
qed

lemma in_map_filter: "y \<in> set (List.map_filter f xs) \<longleftrightarrow> (\<exists>x \<in> set xs. f x = Some y)"
  by (induction xs) (auto simp: map_filter_simps split: option.splits)

lemma implicit_routes_iff: "r \<in> set (implicit_routes H stacks) \<longleftrightarrow> (\<exists>name info. (name, info) \<in> set (all_services stacks) \<and>
    sc_protocol (si_config info) = Http \<and> si_timeout info \<noteq> None \<and> name \<notin> H \<and> r = implicit_route name)"
  unfolding implicit_routes_def in_map_filter by (force split: if_splits)

lemma live_config_iff:
  "(\<exists>c. live_config stacks s = Some c \<and> c n = Some k) \<longleftrightarrow> (\<exists>sv si. hm_get stacks s = Some sv \<and> hm_get sv n = Some si \<and> k = si_config si)"
  by (cases "hm_get stacks s") (auto simp: live_config_def config_of_def)

lemma all_services_config:
  assumes "stacks_inv stacks"
  shows "(\<exists>s c. live_config stacks s = Some c \<and> c n = Some k) \<longleftrightarrow> (\<exists>si. (n, si) \<in> set (all_services stacks) \<and> k = si_config si)"
  unfolding live_config_iff all_services_iff [OF assms] by blast

lemma pushed_routes:
  assumes "stacks_inv stacks"
  shows "{(hr_path_prefix r, hr_target r, hr_strip_prefix r) | r. r \<in> set (build_http_route_bundle stacks routes) \<and> hr_host r = host} =
    (\<lambda>(p, t). (p, Some (fst (wire_target t)), snd (wire_target t))) ` declared_routes (live_config stacks) routes host"
proof -
  define E where "E = set (concat (map snd routes))"
  define reachable where "reachable = (\<exists>s c k. live_config stacks s = Some c \<and> c host = Some k \<and> sc_protocol k = Http \<and> sc_timeout k \<noteq> None)"
  have "reachable \<longleftrightarrow> (\<exists>k. (\<exists>s c. live_config stacks s = Some c \<and> c host = Some k) \<and> sc_protocol k = Http \<and> sc_timeout k \<noteq> None)"
    unfolding reachable_def by blast
  then have ex: "reachable \<longleftrightarrow> (\<exists>si. (host, si) \<in> set (all_services stacks) \<and> sc_protocol (si_config si) = Http \<and> si_timeout si \<noteq> None)"
    unfolding all_services_config [OF assms] by blast
  have im: "r \<in> set (implicit_routes (re_host ` E) stacks) \<and> hr_host r = host \<longleftrightarrow> r = implicit_route host \<and> host \<notin> re_host ` E \<and> reachable"
    for r unfolding implicit_routes_iff ex by (auto simp: implicit_route_def)
  have ws: "r \<in> wire_route ` E \<and> hr_host r = host \<longleftrightarrow> (\<exists>e \<in> E. re_host e = host \<and> r = wire_route e)" for r
    by (auto simp: wire_route_def)
  have "set (build_http_route_bundle stacks routes) = wire_route ` E \<union> set (implicit_routes (re_host ` E) stacks)"
    by (simp add: build_http_route_bundle_def Let_def E_def)
  then have b: "r \<in> set (build_http_route_bundle stacks routes) \<and> hr_host r = host \<longleftrightarrow>
      (\<exists>e \<in> E. re_host e = host \<and> r = wire_route e) \<or> (r = implicit_route host \<and> host \<notin> re_host ` E \<and> reachable)" for r
    unfolding im [symmetric] ws [symmetric] by blast
  show ?thesis
  proof (cases "host \<in> re_host ` E")
    case True
    then have "declared_routes (live_config stacks) routes host = (\<lambda>e. (re_path e, re_target e)) ` {e \<in> E. re_host e = host}"
      unfolding declared_routes_def Let_def E_def [symmetric] by auto
    moreover have "{r. r \<in> set (build_http_route_bundle stacks routes) \<and> hr_host r = host} = wire_route ` {e \<in> E. re_host e = host}"
      unfolding b using True by auto
    ultimately show ?thesis by (simp only: setcompr_eq_image image_image) (simp add: wire_route_def)
  next
    case False
    then have "declared_routes (live_config stacks) routes host = (if reachable then {(''/'', RouteService host False)} else {})"
      unfolding declared_routes_def Let_def reachable_def [symmetric] E_def [symmetric] by auto
    moreover have "{r. r \<in> set (build_http_route_bundle stacks routes) \<and> hr_host r = host} = (if reachable then {implicit_route host} else {})"
      unfolding b using False by auto
    ultimately show ?thesis by (simp only: setcompr_eq_image) (simp add: implicit_route_def)
  qed
qed

lemma declared_unique:
  assumes "distinct (map fst (route_claims routes))" "(p, t) \<in> declared_routes lc routes host" "(p, t') \<in> declared_routes lc routes host"
  shows "t = t'"
proof -
  have "map fst (route_claims routes) = map (\<lambda>e. (re_host e, re_path e)) (concat (map snd routes))"
    unfolding route_claims_def by (induction routes) auto
  then have inj: "inj_on (\<lambda>e. (re_host e, re_path e)) (set (concat (map snd routes)))" using assms(1) by (simp only: distinct_map)
  define E where "E = set (concat (map snd routes))"
  define R where "R = {(re_path e, re_target e) | e. e \<in> E \<and> re_host e = host}"
  show ?thesis
  proof (cases "R = {}")
    case True
    then show ?thesis using assms(2,3) unfolding declared_routes_def Let_def E_def [symmetric] R_def [symmetric] by (simp split: if_splits)
  next
    case False
    then have "(p, t) \<in> R" "(p, t') \<in> R" using assms(2,3) unfolding declared_routes_def Let_def E_def [symmetric] R_def [symmetric] by simp_all
    then obtain e e' where e: "e \<in> E" "e' \<in> E" "(re_host e, re_path e) = (re_host e', re_path e')" "t = re_target e" "t' = re_target e'"
      unfolding R_def by auto
    have "e = e'" by (rule inj_onD [OF inj [folded E_def] e(3,1,2)])
    then show ?thesis using e(4,5) by simp
  qed
qed

definition best_route :: "string \<Rightarrow> (string \<times> route_target) set \<Rightarrow> string \<Rightarrow> route_target \<Rightarrow> bool" where
  "best_route path D p t \<longleftrightarrow> (p, t) \<in> D \<and> prefix p path \<and> (\<forall>(p', t') \<in> D. prefix p' path \<longrightarrow> length p' \<le> length p)"

lemma resolve_best:
  assumes "stacks_inv stacks" "distinct (map fst (route_claims routes))"
    and D: "D = declared_routes (live_config stacks) routes host" and table: "table = from_bundle (build_http_route_bundle stacks routes)"
  shows "resolve table host path = Fallback \<longleftrightarrow> D = {}"
    and "resolve table host path = RouteNotFound \<longleftrightarrow> D \<noteq> {} \<and> (\<forall>(p, t) \<in> D. \<not> prefix p path)"
    and "best_route path D p t \<Longrightarrow> resolve table host path = Matched (target_match path p t)"
proof -
  define rs where "rs = filter (\<lambda>r. hr_host r = host) (build_http_route_bundle stacks routes)"
  let ?w = "\<lambda>(p, t). (p, Some (fst (wire_target t)), snd (wire_target t))"
  have im: "(\<lambda>r. (hr_path_prefix r, hr_target r, hr_strip_prefix r)) ` set rs = ?w ` D"
    unfolding D pushed_routes [OF assms(1), symmetric] by (auto simp: rs_def)
  have in_D: "\<exists>t. (hr_path_prefix r, t) \<in> D \<and> hr_target r = Some (fst (wire_target t)) \<and> hr_strip_prefix r = snd (wire_target t)" if "r \<in> set rs" for r
  proof -
    have "(hr_path_prefix r, hr_target r, hr_strip_prefix r) \<in> ?w ` D" unfolding im [symmetric] using that by (rule imageI)
    then show ?thesis by auto
  qed
  have in_rs: "\<exists>r \<in> set rs. hr_path_prefix r = p \<and> hr_target r = Some (fst (wire_target t)) \<and> hr_strip_prefix r = snd (wire_target t)"
    if "(p, t) \<in> D" for p t
  proof -
    have "?w (p, t) \<in> (\<lambda>r. (hr_path_prefix r, hr_target r, hr_strip_prefix r)) ` set rs" unfolding im using that by (rule imageI)
    then show ?thesis by auto
  qed
  have get: "resolve table host path = (if rs = [] then Fallback else resolve_in (sort_key prefix_order rs) path)"
    unfolding resolve_def table from_bundle_get Let_def rs_def by simp
  have ne: "rs = [] \<longleftrightarrow> D = {}" using im by auto
  have some: "\<forall>r \<in> set (sort_key prefix_order rs). hr_target r \<noteq> None" using in_D by auto
  have no_fb: "resolve_in xs path \<noteq> Fallback" for xs by (induction xs) (auto split: option.splits)
  show "resolve table host path = Fallback \<longleftrightarrow> D = {}" using get ne no_fb by simp
  have "(\<forall>r \<in> set rs. \<not> prefix (hr_path_prefix r) path) \<longleftrightarrow> (\<forall>(p, t) \<in> D. \<not> prefix p path)"
    using in_D in_rs by (metis (no_types, lifting) case_prodI2 case_prodD)
  then show "resolve table host path = RouteNotFound \<longleftrightarrow> D \<noteq> {} \<and> (\<forall>(p, t) \<in> D. \<not> prefix p path)"
    using get ne resolve_in_none [OF some] by simp
  assume best: "best_route path D p t"
  then have pt: "(p, t) \<in> D" "prefix p path" by (simp_all add: best_route_def)
  then obtain r where r: "r \<in> set rs" "hr_path_prefix r = p" "hr_target r = Some (fst (wire_target t))" "hr_strip_prefix r = snd (wire_target t)"
    using in_rs by blast
  have longest: "\<forall>r' \<in> set rs. prefix (hr_path_prefix r') path \<longrightarrow> length (hr_path_prefix r') \<le> length (hr_path_prefix r)"
    using best in_D unfolding best_route_def r(2) by blast
  have uniq: "r' = r" if r': "r' \<in> set rs" "hr_path_prefix r' = hr_path_prefix r" for r'
  proof -
    obtain t' where t': "(p, t') \<in> D" "hr_target r' = Some (fst (wire_target t'))" "hr_strip_prefix r' = snd (wire_target t')"
      using in_D [OF r'(1)] r'(2) r(2) by auto
    have "t' = t" using declared_unique [OF assms(2)] t'(1) pt(1) unfolding D by blast
    moreover have "hr_host r' = hr_host r" using r'(1) r(1) by (simp add: rs_def)
    ultimately show ?thesis using r'(2) t' r by (intro http_route.equality) simp_all
  qed
  have "resolve_in (sort_key prefix_order rs) path = Matched (dispatch (fst (wire_target t)) (hr_strip_prefix r) path (drop (length (hr_path_prefix r)) path))"
  proof (rule resolve_in_longest [OF _ some _ r(3)])
    show "\<forall>r' \<in> set (sort_key prefix_order rs). hr_path_prefix r' = hr_path_prefix r \<longrightarrow> r' = r" using uniq unfolding set_sort by blast
  qed (use r(1,2) pt(2) longest in simp_all)
  then show "resolve table host path = Matched (target_match path p t)"
    using get ne pt(1) r(2,4) dispatch_wire by auto
qed

lemma best_exists:
  assumes "finite D" "(p, t) \<in> D" "prefix p path"
  shows "\<exists>p t. best_route path D p t"
proof -
  obtain xs where xs: "set xs = D" using finite_list [OF assms(1)] by blast
  have "(p, t) \<in> set xs" using assms(2) xs by simp
  then have "\<exists>r \<in> set xs. prefix (fst r) path \<and> (\<forall>r' \<in> set xs. prefix (fst r') path \<longrightarrow> length (fst r') \<le> length (fst r))"
    by (rule longest_exists) (use assms(3) in simp)
  then obtain r where "r \<in> D" "prefix (fst r) path" "\<forall>r' \<in> D. prefix (fst r') path \<longrightarrow> length (fst r') \<le> length (fst r)" unfolding xs by blast
  then have "best_route path D (fst r) (snd r)" by (simp add: best_route_def split_def)
  then show ?thesis by blast
qed

lemma declared_finite: "finite (declared_routes lc routes host)"
proof -
  have "{(re_path e, re_target e) | e. e \<in> set (concat (map snd routes)) \<and> re_host e = host} \<subseteq>
    (\<lambda>e. (re_path e, re_target e)) ` set (concat (map snd routes))" by auto
  then have "finite {(re_path e, re_target e) | e. e \<in> set (concat (map snd routes)) \<and> re_host e = host}"
    by (rule finite_subset) simp
  then show ?thesis by (simp add: declared_routes_def Let_def)
qed

lemma resolve_matched:
  assumes "stacks_inv stacks" "distinct (map fst (route_claims routes))"
    and D: "D = declared_routes (live_config stacks) routes host" and table: "table = from_bundle (build_http_route_bundle stacks routes)"
  shows "resolve table host path = Matched m \<longleftrightarrow> (\<exists>p t. best_route path D p t \<and> m = target_match path p t)"
proof
  note best = resolve_best [OF assms, of path]
  assume m: "resolve table host path = Matched m"
  then have ne: "D \<noteq> {}" using best(1) by simp
  then have "\<not> (\<forall>(p, t) \<in> D. \<not> prefix p path)" using best(2) m by simp
  then obtain p t where "(p, t) \<in> D" "prefix p path" by auto
  then obtain p t where pt: "best_route path D p t" using best_exists [of D p t path] declared_finite unfolding D by blast
  have "m = target_match path p t" using best(3) [OF pt] m by simp
  then show "\<exists>p t. best_route path D p t \<and> m = target_match path p t" using pt by blast
next
  assume "\<exists>p t. best_route path D p t \<and> m = target_match path p t"
  then obtain p t where pt: "best_route path D p t" "m = target_match path p t" by blast
  show "resolve table host path = Matched m" unfolding pt(2) by (rule resolve_best(3) [OF assms pt(1)])
qed

lemma declared_known:
  assumes "routes_known lc routes" "(p, RouteService name strip) \<in> declared_routes lc routes host"
  shows "\<exists>s c k. lc s = Some c \<and> c name = Some k"
proof -
  define E where "E = set (concat (map snd routes))"
  define R where "R = {(re_path e, re_target e) | e. e \<in> E \<and> re_host e = host}"
  note d = assms(2) [unfolded declared_routes_def Let_def, folded E_def, folded R_def]
  show ?thesis
  proof (cases "R = {}")
    case True
    then show ?thesis using d by (auto split: if_splits)
  next
    case False
    then obtain e where e: "e \<in> E" "re_target e = RouteService name strip" using d unfolding R_def by auto
    then obtain stack entries where "(stack, entries) \<in> set routes" "e \<in> set entries" unfolding E_def by auto
    then show ?thesis using assms(1) e(2) unfolding routes_known_def by blast
  qed
qed

section \<open>Listeners\<close>

lemma desired_fold:
  fixes d :: "(listener_key, mapping_entry) hmap"
  defines "f \<equiv> \<lambda>m d. case mapping_of m of None \<Rightarrow> d | Some (key, entry) \<Rightarrow> hm_insert key entry d"
  shows "hm_inv d \<Longrightarrow> hm_inv (fold f ms d)"
    and "hm_get (fold f ms d) key = Some e \<Longrightarrow> hm_get d key = Some e \<or> (\<exists>m \<in> set ms. mapping_of m = Some (key, e))"
    and "hm_get d key \<noteq> None \<or> (\<exists>m \<in> set ms. \<exists>e. mapping_of m = Some (key, e)) \<Longrightarrow> hm_get (fold f ms d) key \<noteq> None"
proof -
  show "hm_inv d \<Longrightarrow> hm_inv (fold f ms d)" by (induction ms arbitrary: d) (auto simp: f_def split: option.splits)
  show "hm_get (fold f ms d) key = Some e \<Longrightarrow> hm_get d key = Some e \<or> (\<exists>m \<in> set ms. mapping_of m = Some (key, e))"
  proof (induction ms arbitrary: d)
    case (Cons m ms)
    then have "hm_get (f m d) key = Some e \<or> (\<exists>m \<in> set ms. mapping_of m = Some (key, e))" by simp
    then show ?case by (auto simp: f_def split: option.splits if_splits)
  qed simp
  show "hm_get d key \<noteq> None \<or> (\<exists>m \<in> set ms. \<exists>e. mapping_of m = Some (key, e)) \<Longrightarrow> hm_get (fold f ms d) key \<noteq> None"
  proof (induction ms arbitrary: d)
    case (Cons m ms)
    have "hm_get (f m d) key \<noteq> None \<or> (\<exists>m \<in> set ms. \<exists>e. mapping_of m = Some (key, e))"
      using Cons.prems by (auto simp: f_def split: option.splits)
    then show ?case using Cons.IH [of "f m d"] by simp
  qed simp
qed

lemmas desired_inv = desired_fold(1) [OF hm_inv_Nil, folded desired_mappings_def]
lemmas desired_sound = desired_fold(2) [where d = "[]", folded desired_mappings_def, simplified]
lemmas desired_complete = desired_fold(3) [where d = "[]", folded desired_mappings_def, OF disjI2]

definition spawned :: "listeners \<Rightarrow> nat multiset" where
  "spawned l = mset (map rl_task (hm_values (ls_running l))) + mset (ls_aborted l)"

text \<open>Every task ever spawned serves a port or was aborted, once.\<close>

definition listeners_ok :: "listeners \<Rightarrow> bool" where
  "listeners_ok l \<longleftrightarrow> hm_inv (ls_running l) \<and> spawned l = mset [0..<ls_next_task l]"

lemma stop_listener_ok:
  assumes "listeners_ok l"
  shows "listeners_ok (stop_listener key l)" and "hm_get (ls_running (stop_listener key l)) k = (if k = key then None else hm_get (ls_running l) k)"
    and "ls_next_task (stop_listener key l) = ls_next_task l"
proof -
  have "mset (ls_running l) = add_mset (key, rl) (mset (hm_remove key (ls_running l)))" if "hm_get (ls_running l) key = Some rl" for rl
    by (rule mset_hm_remove) (use assms that in \<open>simp_all add: listeners_ok_def\<close>)
  then have "spawned (stop_listener key l) = spawned l"
    by (auto simp: spawned_def stop_listener_def mset_map split: option.splits)
  then show "listeners_ok (stop_listener key l)"
    using assms by (auto simp: listeners_ok_def stop_listener_def split: option.splits)
  show "hm_get (ls_running (stop_listener key l)) k = (if k = key then None else hm_get (ls_running l) k)"
    by (simp add: stop_listener_def split: option.splits)
  show "ls_next_task (stop_listener key l) = ls_next_task l" by (simp add: stop_listener_def split: option.splits)
qed

lemma stop_listeners_ok:
  assumes "listeners_ok l"
  shows "listeners_ok (fold stop_listener keys l) \<and> ls_next_task (fold stop_listener keys l) = ls_next_task l \<and>
    (\<forall>k. hm_get (ls_running (fold stop_listener keys l)) k = (if k \<in> set keys then None else hm_get (ls_running l) k))"
  using assms by (induction keys arbitrary: l) (auto simp: stop_listener_ok)

lemma serve_mapping_ok:
  assumes "listeners_ok l"
  shows "listeners_ok (serve_mapping (key, e) l)" and "ls_next_task l \<le> ls_next_task (serve_mapping (key, e) l)"
    and "k \<noteq> key \<Longrightarrow> hm_get (ls_running (serve_mapping (key, e) l)) k = hm_get (ls_running l) k"
    and "hm_get (ls_running l) key = Some rl \<Longrightarrow> hm_get (ls_running (serve_mapping (key, e) l)) key = Some (send_mapping e rl)"
    and "hm_get (ls_running l) key = None \<Longrightarrow> hm_get (ls_running (serve_mapping (key, e) l)) key =
      Some \<lparr>rl_task = ls_next_task l, rl_mapping = e, rl_receiver = True\<rparr>"
proof -
  have tasks: "map rl_task (hm_values (hm_modify key (send_mapping e) m)) = map rl_task (hm_values m)" for m
    unfolding hm_modify_def by (induction m) (auto simp: send_mapping_def)
  have ok: "hm_inv (ls_running l)" "spawned l = mset [0..<ls_next_task l]" using assms by (simp_all add: listeners_ok_def)
  show "listeners_ok (serve_mapping (key, e) l)"
  proof (cases "hm_get (ls_running l) key")
    case (Some rl)
    then have "spawned (serve_mapping (key, e) l) = spawned l" unfolding spawned_def serve_mapping_def by (simp add: tasks del: map_map mset_map)
    then show ?thesis using Some ok by (simp add: listeners_ok_def serve_mapping_def)
  next
    case None
    then have "spawned (serve_mapping (key, e) l) = add_mset (ls_next_task l) (spawned l)"
      unfolding spawned_def serve_mapping_def by (simp add: hm_insert_absent)
    then show ?thesis using None ok by (simp add: listeners_ok_def serve_mapping_def)
  qed
qed (auto simp: serve_mapping_def split: option.splits)

lemma serve_mappings_ok:
  assumes "listeners_ok l" "hm_inv desired"
  shows "listeners_ok (fold serve_mapping desired l) \<and> ls_next_task l \<le> ls_next_task (fold serve_mapping desired l) \<and>
    (\<forall>k. case hm_get desired k of
       None \<Rightarrow> hm_get (ls_running (fold serve_mapping desired l)) k = hm_get (ls_running l) k
     | Some e \<Rightarrow> (case hm_get (ls_running l) k of
         Some rl \<Rightarrow> hm_get (ls_running (fold serve_mapping desired l)) k = Some (send_mapping e rl)
       | None \<Rightarrow> \<exists>t \<ge> ls_next_task l. hm_get (ls_running (fold serve_mapping desired l)) k = Some \<lparr>rl_task = t, rl_mapping = e, rl_receiver = True\<rparr>))"
  using assms
proof (induction desired arbitrary: l)
  case (Cons ke desired)
  obtain key e where ke: "ke = (key, e)" by (cases ke)
  have d: "hm_get desired key = None" "hm_inv desired" using Cons.prems(2) ke by (auto simp: hm_inv_def hm_get_None_iff)
  note s = serve_mapping_ok [OF Cons.prems(1), where key = key and e = e]
  note ih = Cons.IH [OF s(1) d(2)]
  show ?case
  proof (intro conjI allI)
    show "listeners_ok (fold serve_mapping (ke # desired) l)" "ls_next_task l \<le> ls_next_task (fold serve_mapping (ke # desired) l)"
      using ih s(2) ke by auto
    fix k
    have g: "hm_get (ke # desired) k = (if k = key then Some e else hm_get desired k)" by (simp add: hm_get_def ke)
    show "case hm_get (ke # desired) k of
       None \<Rightarrow> hm_get (ls_running (fold serve_mapping (ke # desired) l)) k = hm_get (ls_running l) k
     | Some e \<Rightarrow> (case hm_get (ls_running l) k of
         Some rl \<Rightarrow> hm_get (ls_running (fold serve_mapping (ke # desired) l)) k = Some (send_mapping e rl)
       | None \<Rightarrow> \<exists>t \<ge> ls_next_task l. hm_get (ls_running (fold serve_mapping (ke # desired) l)) k = Some \<lparr>rl_task = t, rl_mapping = e, rl_receiver = True\<rparr>)"
    proof (cases "k = key")
      case True
      then show ?thesis using ih [THEN conjunct2, THEN conjunct2, rule_format, of key] d(1) g s(4,5) ke
        by (auto split: option.splits)
    next
      case False
      then show ?thesis using ih [THEN conjunct2, THEN conjunct2, rule_format, of k] g s(2) s(3) [OF False] ke
        by (auto split: option.splits intro: le_trans)
    qed
  qed
qed simp

lemma reconcile_ok:
  assumes "listeners_ok l"
  shows "listeners_ok (reconcile pushed l) \<and>
    (\<forall>k. case hm_get (desired_mappings pushed) k of
       None \<Rightarrow> hm_get (ls_running (reconcile pushed l)) k = None
     | Some e \<Rightarrow> (case hm_get (ls_running l) k of
         Some rl \<Rightarrow> hm_get (ls_running (reconcile pushed l)) k = Some (send_mapping e rl)
       | None \<Rightarrow> \<exists>t \<ge> ls_next_task l. hm_get (ls_running (reconcile pushed l)) k = Some \<lparr>rl_task = t, rl_mapping = e, rl_receiver = True\<rparr>))"
proof -
  let ?d = "desired_mappings pushed"
  define rem where "rem = filter (\<lambda>key. hm_get ?d key = None) (hm_keys (ls_running l))"
  have rec: "reconcile pushed l = fold serve_mapping ?d (fold stop_listener rem l)" by (simp add: reconcile_def Let_def rem_def)
  note st = stop_listeners_ok [OF assms, of rem]
  note sv = serve_mappings_ok [OF st [THEN conjunct1] desired_inv, of pushed]
  have gone: "hm_get (ls_running (fold stop_listener rem l)) k = (if hm_get ?d k = None then None else hm_get (ls_running l) k)" for k
    using st [THEN conjunct2, THEN conjunct2, rule_format, of k] hm_get_None_iff [of "ls_running l" k] by (auto simp: rem_def)
  have "case hm_get ?d k of
       None \<Rightarrow> hm_get (ls_running (reconcile pushed l)) k = None
     | Some e \<Rightarrow> (case hm_get (ls_running l) k of
         Some rl \<Rightarrow> hm_get (ls_running (reconcile pushed l)) k = Some (send_mapping e rl)
       | None \<Rightarrow> \<exists>t \<ge> ls_next_task l. hm_get (ls_running (reconcile pushed l)) k = Some \<lparr>rl_task = t, rl_mapping = e, rl_receiver = True\<rparr>)" for k
    using sv [THEN conjunct2, THEN conjunct2, rule_format, of k] gone [of k] st [THEN conjunct2, THEN conjunct1]
    unfolding rec by (cases "hm_get ?d k"; cases "hm_get (ls_running l) k") simp_all
  then show ?thesis using sv unfolding rec by blast
qed

inductive ports_reach :: "listeners \<Rightarrow> bool" where
  started: "ports_reach \<lparr>ls_running = [], ls_next_task = 0, ls_aborted = []\<rparr>"
| pushed: "ports_reach l \<Longrightarrow> ports_reach (reconcile ms l)"
| closed: "ports_reach l \<Longrightarrow> ports_reach (stream_closed l)"
| unbound: "ports_reach l \<Longrightarrow> ports_reach (bind_failed key l)"

lemma ports_reach_ok: "ports_reach l \<Longrightarrow> listeners_ok l"
proof (induction rule: ports_reach.induct)
  case started
  then show ?case by (simp add: listeners_ok_def spawned_def)
next
  case (pushed l ms)
  then show ?case using reconcile_ok by blast
next
  case (closed l)
  then show ?case by (simp add: listeners_ok_def spawned_def stream_closed_def)
next
  case (unbound l key)
  have "map rl_task (hm_values (hm_modify key (\<lambda>rl. rl\<lparr>rl_receiver := False\<rparr>) m)) = map rl_task (hm_values m)"
    for m :: "(listener_key, running_listener) hmap"
    unfolding hm_modify_def by (induction m) auto
  then have "spawned (bind_failed key l) = spawned l" unfolding spawned_def bind_failed_def by (simp del: map_map mset_map)
  then show ?case using unbound by (simp add: listeners_ok_def bind_failed_def)
qed

fun service_of :: "local_protocol \<Rightarrow> service_protocol" where
  "service_of LocalTcp = Tcp"
| "service_of LocalUdp = Udp"

definition port_declared :: "(string \<Rightarrow> (string \<Rightarrow> service_config option) option) \<Rightarrow> listener_key \<Rightarrow> mapping_entry \<Rightarrow> bool" where
  "port_declared lc key e \<longleftrightarrow> (\<exists>s c n k. lc s = Some c \<and> c n = Some k \<and> sc_protocol k = service_of (fst key) \<and> sc_listen_port k = Some (snd key) \<and>
     e = \<lparr>mp_service_name = n, mp_idle_timeout_secs = (case sc_timeout k of Some t \<Rightarrow> t | None \<Rightarrow> 0)\<rparr>)"

lemma local_wire: "local_protocol_of (protocol_number p) = Some lp \<longleftrightarrow> p = service_of lp"
  by (cases p; cases lp) (simp_all add: local_protocol_of_def protocol_try_from_def)

lemma built_mapping:
  "mapping_of \<lparr>pm_service_name = n, pm_protocol = protocol_number p, pm_listen_port = ucast port, pm_idle_timeout_secs = t\<rparr> = Some (key, e) \<longleftrightarrow>
    p = service_of (fst key) \<and> port = snd key \<and> e = \<lparr>mp_service_name = n, mp_idle_timeout_secs = t\<rparr>"
proof (cases "local_protocol_of (protocol_number p)")
  case None
  then have "p \<noteq> service_of (fst key)" using local_wire [of p "fst key"] by simp
  then show ?thesis using None by (simp add: mapping_of_def)
next
  case (Some lp)
  then have "p = service_of (fst key) \<longleftrightarrow> lp = fst key" using local_wire [of p "fst key"] by simp
  then show ?thesis using Some by (cases key) (auto simp: mapping_of_def)
qed

lemma in_port_bundle:
  "m \<in> set (build_port_mapping_bundle stacks) \<longleftrightarrow> (\<exists>n si port. (n, si) \<in> set (all_services stacks) \<and> sc_listen_port (si_config si) = Some port \<and>
     m = \<lparr>pm_service_name = n, pm_protocol = protocol_number (sc_protocol (si_config si)), pm_listen_port = ucast port,
       pm_idle_timeout_secs = (case si_timeout si of Some t \<Rightarrow> t | None \<Rightarrow> 0)\<rparr>)"
  unfolding build_port_mapping_bundle_def in_map_filter Bex_def split_paired_Ex by (simp add: eq_commute [of m])

lemma mapping_declared:
  assumes "stacks_inv stacks"
  shows "(\<exists>m \<in> set (build_port_mapping_bundle stacks). mapping_of m = Some (key, e)) \<longleftrightarrow> port_declared (live_config stacks) key e"
proof -
  define Q where "Q n k \<longleftrightarrow> sc_protocol k = service_of (fst key) \<and> sc_listen_port k = Some (snd key) \<and>
    e = \<lparr>mp_service_name = n, mp_idle_timeout_secs = (case sc_timeout k of Some t \<Rightarrow> t | None \<Rightarrow> 0)\<rparr>" for n and k :: service_config
  have "port_declared (live_config stacks) key e \<longleftrightarrow> (\<exists>n k. (\<exists>s c. live_config stacks s = Some c \<and> c n = Some k) \<and> Q n k)"
    unfolding port_declared_def Q_def by blast
  then have d: "port_declared (live_config stacks) key e \<longleftrightarrow> (\<exists>n si. (n, si) \<in> set (all_services stacks) \<and> Q n (si_config si))"
    unfolding all_services_config [OF assms] by blast
  have "(\<exists>m \<in> set (build_port_mapping_bundle stacks). mapping_of m = Some (key, e)) \<longleftrightarrow>
      (\<exists>n si port. (n, si) \<in> set (all_services stacks) \<and> sc_listen_port (si_config si) = Some port \<and>
         mapping_of \<lparr>pm_service_name = n, pm_protocol = protocol_number (sc_protocol (si_config si)), pm_listen_port = ucast port,
           pm_idle_timeout_secs = (case si_timeout si of Some t \<Rightarrow> t | None \<Rightarrow> 0)\<rparr> = Some (key, e))"
    unfolding Bex_def in_port_bundle by blast
  then show ?thesis unfolding built_mapping d Q_def by blast
qed

section \<open>The proxy does what the configuration declares\<close>

lemma route_keys_distinct: "app_ok a \<Longrightarrow> distinct (map fst (route_claims (ap_routes a)))"
  by (simp add: app_ok_def detect_route_conflicts_def no_conflicts_iff)


definition proxy_db :: database where
  "proxy_db = (case put_configuration ''s'' (Some (services_to_inserts comma_json
       [toml_of ''web'' (Some 80) (Some 60) [] [], (toml_of ''dns'' (Some 53) (Some 9) [] [])\<lparr>st_protocol := Some UdpToml, st_listen_port := Some 53\<rparr>]))
     (Some (map (route_entry_to_insert ''s'') [\<lparr>re_host = ''h'', re_path = ''/api'', re_target = RouteService ''web'' True\<rparr>,
       \<lparr>re_host = ''h'', re_path = ''/api/v1'', re_target = RouteRedirect ''/v2'' 308 True False\<rparr>])) empty_db of
     Some db \<Rightarrow> db | None \<Rightarrow> empty_db)"




end
