(* ===== verification/Proxy_Relay.thy ===== *)
theory Proxy_Relay
  imports Proxy_Tables
begin

text \<open>
  The data path of a proxy (nullnet-proxy \<^verbatim>\<open>main.rs\<close>, \<^verbatim>\<open>nullnet_proxy.rs\<close>, \<^verbatim>\<open>tcp_relay.rs\<close>, \<^verbatim>\<open>udp_relay.rs\<close>,
  \<^verbatim>\<open>tls.rs\<close>): what it asks of the server for an HTTP request, a TCP connection and a UDP datagram, which
  responses it writes itself, and the opening and closing of the connections the server counts.
  The answers of the server, the outcome of a bind or a connect and the number of times the HTTP
  framework asks for an upstream are arguments.  Writing a response header is taken to succeed.
\<close>

section \<open>Calls to the server\<close>

datatype check_answer = Permitted | Refused | CheckFailed

text \<open>A granted upstream carries its address as text; \<^const>\<open>None\<close> stands for text that is no address.\<close>

datatype proxy_answer = NameUnknown | LookupError | Granted "ip_addr option" u32 u64

datatype agent_report =
    UpstreamIpParseFailed string
  | UpstreamLookupFailed string string
  | TcpUpstreamConnectFailed string string
  | UdpUpstreamConnectFailed string string
  | ProxyClientNotInet string

datatype rpc =
    CheckIngress string string check_answer
  | ProxyRpc string string bool
  | CloseRpc string string
  | ReportEvent agent_report

record resolved_upstream =
  ru_address :: "ip_addr \<times> u16"
  ru_pool_generation :: u64

datatype upstream_error = UnknownService | UpstreamFailed

text \<open>The server has counted the connection as soon as it grants an upstream.\<close>

definition resolve_upstream :: "string \<Rightarrow> string \<Rightarrow> proxy_answer \<Rightarrow> rpc list \<times> (upstream_error + resolved_upstream)" where
  "resolve_upstream service_name client_ip answer = (case answer of
       NameUnknown \<Rightarrow> ([ProxyRpc service_name client_ip False], Inl UnknownService)
     | LookupError \<Rightarrow> ([ProxyRpc service_name client_ip False], Inl UpstreamFailed)
     | Granted None port generation \<Rightarrow>
         ([ProxyRpc service_name client_ip True, ReportEvent (UpstreamIpParseFailed service_name)], Inl UpstreamFailed)
     | Granted (Some ip) port generation \<Rightarrow> ([ProxyRpc service_name client_ip True], (case u16_try_from port of
           None \<Rightarrow> Inl UpstreamFailed
         | Some p \<Rightarrow> Inr \<lparr>ru_address = (ip, p), ru_pool_generation = generation\<rparr>)))"

text \<open>\<^verbatim>\<open>ConnectionGuard\<close>: whoever drops it reports the close; the report is retried until a reply arrives,
  three times at most.\<close>

type_synonym connection_guard = "string \<times> string"

fun send_close :: "connection_guard \<Rightarrow> bool list \<Rightarrow> rpc list" where
  "send_close (service_name, client_ip) replies =
     replicate (min 3 (Suc (length (takeWhile Not replies)))) (CloseRpc service_name client_ip)"

abbreviation "drop_guard g \<equiv> send_close g [True]"

section \<open>TCP connections\<close>

text \<open>The calls until the relay runs or the connection is over, and the guard while it runs.\<close>

definition tcp_handle_connection ::
  "mapping_entry \<Rightarrow> string \<Rightarrow> check_answer \<Rightarrow> proxy_answer \<Rightarrow> bool \<Rightarrow> rpc list \<times> connection_guard option" where
  "tcp_handle_connection entry client_ip check answer connected = (let name = mp_service_name entry in
     if check = Refused then ([CheckIngress name client_ip check], None)
     else (case resolve_upstream name client_ip answer of
         (calls, Inl UnknownService) \<Rightarrow> (CheckIngress name client_ip check # calls, None)
       | (calls, Inl UpstreamFailed) \<Rightarrow> (CheckIngress name client_ip check # calls @ [ReportEvent (UpstreamLookupFailed name client_ip)], None)
       | (calls, Inr upstream) \<Rightarrow>
           if connected then (CheckIngress name client_ip check # calls, Some (name, client_ip))
           else (CheckIngress name client_ip check # calls @ [ReportEvent (TcpUpstreamConnectFailed name client_ip)] @ drop_guard (name, client_ip), None)))"

section \<open>UDP sessions\<close>

record udp_session =
  us_upstream :: "ip_addr \<times> u16"
  us_last_active :: instant
  us_close :: connection_guard

text \<open>A client is known by its address, as text, and its port.\<close>

type_synonym udp_client = "string \<times> u16"
type_synonym udp_sessions = "(udp_client, udp_session) hmap"

definition udp_handle_datagram ::
  "instant \<Rightarrow> mapping_entry \<Rightarrow> udp_client \<Rightarrow> check_answer \<Rightarrow> proxy_answer \<Rightarrow> bool \<Rightarrow> bool \<Rightarrow> udp_sessions \<Rightarrow> rpc list \<times> udp_sessions" where
  "udp_handle_datagram now entry src check answer bound connected sessions = (case hm_get sessions src of
       Some session \<Rightarrow> ([], hm_insert src (session\<lparr>us_last_active := now\<rparr>) sessions)
     | None \<Rightarrow> (let name = mp_service_name entry; client_ip = fst src in
         if check = Refused then ([CheckIngress name client_ip check], sessions)
         else (case resolve_upstream name client_ip answer of
             (calls, Inl UnknownService) \<Rightarrow> (CheckIngress name client_ip check # calls, sessions)
           | (calls, Inl UpstreamFailed) \<Rightarrow> (CheckIngress name client_ip check # calls @ [ReportEvent (UpstreamLookupFailed name client_ip)], sessions)
           | (calls, Inr upstream) \<Rightarrow>
               if \<not> bound then (CheckIngress name client_ip check # calls @ drop_guard (name, client_ip), sessions)
               else if \<not> connected then (CheckIngress name client_ip check # calls @ [ReportEvent (UdpUpstreamConnectFailed name client_ip)]
                 @ drop_guard (name, client_ip), sessions)
               else (CheckIngress name client_ip check # calls,
                 hm_insert src \<lparr>us_upstream = ru_address upstream, us_last_active = now, us_close = (name, client_ip)\<rparr> sessions))))"

definition sweep_one :: "udp_client \<Rightarrow> rpc list \<times> udp_sessions \<Rightarrow> rpc list \<times> udp_sessions" where
  "sweep_one src acc = (case acc of (calls, sessions) \<Rightarrow> (case hm_get sessions src of
       None \<Rightarrow> (calls, sessions)
     | Some session \<Rightarrow> (calls @ drop_guard (us_close session), hm_remove src sessions)))"

definition udp_sweep_idle :: "instant \<Rightarrow> nat \<Rightarrow> udp_sessions \<Rightarrow> rpc list \<times> udp_sessions" where
  "udp_sweep_idle now idle_timeout_secs sessions = (if idle_timeout_secs = 0 then ([], sessions)
     else (let expired = map fst (filter (\<lambda>(_, s). idle_timeout_secs * 1000 \<le> now - us_last_active s) sessions)
       in fold sweep_one expired ([], sessions)))"

text \<open>An aborted listener drops its map of sessions, and with it their guards.\<close>

definition udp_drop_sessions :: "udp_sessions \<Rightarrow> rpc list" where
  "udp_drop_sessions sessions = concat (map (\<lambda>s. drop_guard (us_close s)) (hm_values sessions))"

text \<open>The socket of a UDP port is held by its listener and by the relay task of every session.  A sweep
  aborts the relays it removes; dropping the map does not, the tasks are only detached.\<close>

record udp_port =
  un_listener :: "udp_sessions option"
  un_detached :: nat

definition udp_bind :: "udp_port \<Rightarrow> udp_port option" where
  "udp_bind p = (if un_listener p = None \<and> un_detached p = 0 then Some (p\<lparr>un_listener := Some []\<rparr>) else None)"

definition udp_abort :: "udp_port \<Rightarrow> rpc list \<times> udp_port" where
  "udp_abort p = (case un_listener p of
       None \<Rightarrow> ([], p)
     | Some sessions \<Rightarrow> (udp_drop_sessions sessions, p\<lparr>un_listener := None, un_detached := un_detached p + length sessions\<rparr>))"

section \<open>Certificates\<close>

text \<open>A store maps server names, exact or with one leading wildcard label, to certificates.\<close>

definition split_once :: "char \<Rightarrow> string \<Rightarrow> (string \<times> string) option" where
  "split_once c s = (case dropWhile (\<lambda>x. x \<noteq> c) s of [] \<Rightarrow> None | _ # rest \<Rightarrow> Some (takeWhile (\<lambda>x. x \<noteq> c) s, rest))"

definition rsplit_once :: "char \<Rightarrow> string \<Rightarrow> (string \<times> string) option" where
  "rsplit_once c s = map_option (\<lambda>(a, b). (rev b, rev a)) (split_once c (rev s))"

type_synonym 'c cert_store = "(string, 'c) hmap"

definition ascii_lower :: "char \<Rightarrow> char" where
  "ascii_lower c = (let n = of_char c :: nat in if 65 \<le> n \<and> n \<le> 90 then char_of (n + 32) else c)"

definition eq_ignore_ascii_case :: "string \<Rightarrow> string \<Rightarrow> bool" where
  "eq_ignore_ascii_case s t \<longleftrightarrow> map ascii_lower s = map ascii_lower t"

definition name_matches :: "string \<Rightarrow> string \<Rightarrow> bool" where
  "name_matches san domain \<longleftrightarrow> eq_ignore_ascii_case san domain \<or>
     (case (strip_prefix ''*.'' san, split_once (CHR ''.'') domain) of
        (Some rest, Some (_, parent)) \<Rightarrow> eq_ignore_ascii_case parent rest
      | _ \<Rightarrow> False)"

text \<open>What is read of a parsed certificate; parsing and the match of key and certificate are the cryptographic library's.\<close>

record leaf_cert =
  lf_dns_names :: "string list"
  lf_common_name :: "string option"
  lf_not_before :: int
  lf_not_after :: int

record 'k crypto =
  cr_certs_of_pem :: "string \<Rightarrow> leaf_cert list option"
  cr_key_of_pem :: "string \<Rightarrow> 'k option"
  cr_key_matches :: "leaf_cert \<Rightarrow> 'k \<Rightarrow> bool"

record 'k certificate =
  ct_leaf :: leaf_cert
  ct_chain :: "leaf_cert list"
  ct_private_key :: 'k

datatype cert_error = InvalidCertPem | NoCertificate | InvalidKeyPem | KeyMismatch | CertExpired | CertNotYetValid | CertNotCovering string

definition cert_covers_domain :: "leaf_cert \<Rightarrow> string \<Rightarrow> bool" where
  "cert_covers_domain leaf domain \<longleftrightarrow> list_ex (\<lambda>dns. name_matches dns domain) (lf_dns_names leaf) \<or>
     (case lf_common_name leaf of Some cn \<Rightarrow> name_matches cn domain | None \<Rightarrow> False)"

definition certificate_new :: "'k crypto \<Rightarrow> int \<Rightarrow> string \<Rightarrow> string \<Rightarrow> string \<Rightarrow> cert_error + 'k certificate" where
  "certificate_new cr now domain cert_pem key_pem = (case cr_certs_of_pem cr cert_pem of
       None \<Rightarrow> Inl InvalidCertPem
     | Some [] \<Rightarrow> Inl NoCertificate
     | Some (leaf # chain) \<Rightarrow> (case cr_key_of_pem cr key_pem of
         None \<Rightarrow> Inl InvalidKeyPem
       | Some key \<Rightarrow>
           if \<not> cr_key_matches cr leaf key then Inl KeyMismatch
           else if lf_not_after leaf < now then Inl CertExpired
           else if now < lf_not_before leaf then Inl CertNotYetValid
           else if \<not> cert_covers_domain leaf domain then Inl (CertNotCovering domain)
           else Inr \<lparr>ct_leaf = leaf, ct_chain = chain, ct_private_key = key\<rparr>))"

text \<open>A pushed certificate: its domain, the chain and the key as text.\<close>

type_synonym tls_certificate = "string \<times> string \<times> string"

definition cert_store_from_bundle :: "'k crypto \<Rightarrow> int \<Rightarrow> tls_certificate list \<Rightarrow> 'k certificate cert_store \<times> (string \<times> cert_error) list" where
  "cert_store_from_bundle cr now certificates = fold (\<lambda>(domain, cert_pem, key_pem) (certs, failures).
     case certificate_new cr now domain cert_pem key_pem of
       Inr cert \<Rightarrow> (hm_insert domain cert certs, failures)
     | Inl reason \<Rightarrow> (certs, failures @ [(domain, reason)])) certificates ([], [])"

definition cert_get :: "'c cert_store \<Rightarrow> string \<Rightarrow> 'c option" where
  "cert_get certs hostname = (case hm_get certs hostname of
       Some cert \<Rightarrow> Some cert
     | None \<Rightarrow> (case split_once (CHR ''.'') hostname of
         None \<Rightarrow> None
       | Some (_, parent) \<Rightarrow> hm_get certs (''*.'' @ parent)))"

section \<open>HTTP requests\<close>

datatype host_header = NoHost | HostText string | HostGarbled
datatype client_addr = NoAddr | NotInet | Inet string

record http_request =
  rq_host :: host_header
  rq_uri_host :: "string option"
  rq_uri :: string
  rq_path :: string
  rq_query :: "string option"
  rq_client :: client_addr

record proxy_ctx =
  cx_service_name :: "string option"
  cx_forward_path :: "string option"
  cx_counted :: bool
  cx_client_ip :: "string option"

definition new_ctx :: proxy_ctx where
  "new_ctx = \<lparr>cx_service_name = None, cx_forward_path = None, cx_counted = False, cx_client_ip = None\<rparr>"

definition ingress_raw_host :: "http_request \<Rightarrow> string option" where
  "ingress_raw_host req = (case rq_host req of HostText h \<Rightarrow> Some h | _ \<Rightarrow> rq_uri_host req)"

definition ingress_host :: "http_request \<Rightarrow> string option" where
  "ingress_host req = map_option (takeWhile (\<lambda>c. c \<noteq> CHR '':'')) (ingress_raw_host req)"

definition ingress_client_ip :: "http_request \<Rightarrow> string option" where
  "ingress_client_ip req = (case rq_client req of Inet ip \<Rightarrow> Some ip | _ \<Rightarrow> None)"

definition host_text :: "http_request \<Rightarrow> string" where
  "host_text req = (case rq_host req of HostText h \<Rightarrow> h | _ \<Rightarrow> [])"

fun contains :: "string \<Rightarrow> string \<Rightarrow> bool" where
  "contains p [] = (p = [])"
| "contains p (c # s) = (prefix p (c # s) \<or> contains p s)"

definition resolve_redirect_target :: "string \<Rightarrow> string \<Rightarrow> bool \<Rightarrow> bool \<Rightarrow> http_request \<Rightarrow> bool \<Rightarrow> string" where
  "resolve_redirect_target to matched_suffix preserve_path preserve_query req tls = (let
       (base, existing_query) = (case split_once (CHR ''?'') to of Some (b, q) \<Rightarrow> (b, Some q) | None \<Rightarrow> (to, None));
       target = base @ (if preserve_path \<and> matched_suffix \<noteq> [] then matched_suffix else []);
       query_parts = (case existing_query of Some q \<Rightarrow> [q] | None \<Rightarrow> []) @
         (if preserve_query then (case rq_query req of Some q \<Rightarrow> [q] | None \<Rightarrow> []) else []);
       target = (case query_parts of [] \<Rightarrow> target | [q] \<Rightarrow> target @ ''?'' @ q | q # q' # _ \<Rightarrow> target @ ''?'' @ q @ ''&'' @ q')
     in if contains ''://'' target then target
        else (if tls then ''https'' else ''http'') @ ''://'' @ host_text req @ target)"

definition https_redirect_url :: "http_request \<Rightarrow> nat \<Rightarrow> string" where
  "https_redirect_url req https_port = (let hostname = takeWhile (\<lambda>c. c \<noteq> CHR '':'') (host_text req) in
     if https_port = 443 then ''https://'' @ hostname @ rq_uri req
     else ''https://'' @ hostname @ '':'' @ string_of_nat https_port @ rq_uri req)"

record http_response =
  rs_status :: u16
  rs_location :: "string option"
  rs_hsts :: bool

record 'c http_proxy =
  hp_tls :: bool
  hp_hsts_enabled :: bool
  hp_https_port :: nat
  hp_routes :: route_table
  hp_certs :: "'c cert_store"

definition hsts_applied :: "'c http_proxy \<Rightarrow> bool" where
  "hsts_applied proxy \<longleftrightarrow> hp_tls proxy \<and> hp_hsts_enabled proxy"

datatype filter_outcome = Respond http_response | Forward

definition route_request :: "'c http_proxy \<Rightarrow> http_request \<Rightarrow> proxy_ctx \<Rightarrow> http_response option \<times> proxy_ctx" where
  "route_request proxy req ctx = (case ingress_host req of
       None \<Rightarrow> (None, ctx)
     | Some host \<Rightarrow> (case resolve (hp_routes proxy) host (rq_path req) of
         Matched (Backend service_name forward_path) \<Rightarrow>
           (None, ctx\<lparr>cx_service_name := Some service_name,
              cx_forward_path := (if forward_path \<noteq> rq_path req then Some forward_path else cx_forward_path ctx)\<rparr>)
       | Matched (RedirectTo to status preserve_path preserve_query matched_suffix) \<Rightarrow>
           (Some \<lparr>rs_status = status, rs_location = Some (resolve_redirect_target to matched_suffix preserve_path preserve_query req (hp_tls proxy)),
              rs_hsts = hsts_applied proxy\<rparr>, ctx)
       | RouteNotFound \<Rightarrow> (Some \<lparr>rs_status = 404, rs_location = None, rs_hsts = hsts_applied proxy\<rparr>, ctx)
       | Fallback \<Rightarrow> (None, ctx\<lparr>cx_service_name := Some host\<rparr>)))"

definition https_redirect :: "'c http_proxy \<Rightarrow> http_request \<Rightarrow> filter_outcome" where
  "https_redirect proxy req = (if hp_tls proxy then Forward
     else if cert_get (hp_certs proxy) (takeWhile (\<lambda>c. c \<noteq> CHR '':'') (host_text req)) = None then Forward
     else Respond \<lparr>rs_status = 301, rs_location = Some (https_redirect_url req (hp_https_port proxy)), rs_hsts = False\<rparr>)"

definition request_filter ::
  "'c http_proxy \<Rightarrow> http_request \<Rightarrow> check_answer \<Rightarrow> proxy_ctx \<Rightarrow> rpc list \<times> filter_outcome \<times> proxy_ctx" where
  "request_filter proxy req check ctx = (case route_request proxy req ctx of
       (Some response, ctx) \<Rightarrow> ([], Respond response, ctx)
     | (None, ctx) \<Rightarrow> (case (cx_service_name ctx, ingress_client_ip req) of
         (Some service, Some client_ip) \<Rightarrow> ([CheckIngress service client_ip check],
           (if check = Refused then Respond \<lparr>rs_status = 403, rs_location = None, rs_hsts = hsts_applied proxy\<rparr> else https_redirect proxy req), ctx)
       | _ \<Rightarrow> ([], https_redirect proxy req, ctx)))"

datatype peer_error = InvalidHostHeader | NoHostHeader | ClientNotFound | ClientNotInet | UpstreamNotRetrieved

definition request_url :: "http_request \<Rightarrow> peer_error + string" where
  "request_url req = (case rq_host req of
       HostGarbled \<Rightarrow> Inl InvalidHostHeader
     | HostText h \<Rightarrow> Inr (case rsplit_once (CHR '':'') h of Some (host, _) \<Rightarrow> host | None \<Rightarrow> h)
     | NoHost \<Rightarrow> (case rq_uri_host req of
         None \<Rightarrow> Inl NoHostHeader
       | Some h \<Rightarrow> Inr (case rsplit_once (CHR '':'') h of Some (host, _) \<Rightarrow> host | None \<Rightarrow> h)))"

text \<open>Called again when the framework retries; a retry closes after it opened.\<close>

definition upstream_peer :: "http_request \<Rightarrow> proxy_answer \<Rightarrow> proxy_ctx \<Rightarrow> rpc list \<times> (peer_error + resolved_upstream) \<times> proxy_ctx" where
  "upstream_peer req answer ctx = (case request_url req of
       Inl e \<Rightarrow> ([], Inl e, ctx)
     | Inr url \<Rightarrow> (case rq_client req of
         NoAddr \<Rightarrow> ([ReportEvent (ProxyClientNotInet ''none'')], Inl ClientNotFound, ctx)
       | NotInet \<Rightarrow> ([ReportEvent (ProxyClientNotInet ''non-inet'')], Inl ClientNotInet, ctx)
       | Inet client_ip \<Rightarrow> (let service_name = (case cx_service_name ctx of Some n \<Rightarrow> n | None \<Rightarrow> url) in
           case resolve_upstream service_name client_ip answer of
             (calls, Inr upstream) \<Rightarrow>
               if cx_counted ctx then (calls @ drop_guard (service_name, client_ip), Inr upstream, ctx)
               else (calls, Inr upstream, ctx\<lparr>cx_counted := True, cx_client_ip := Some client_ip, cx_service_name := Some service_name\<rparr>)
           | (calls, Inl UnknownService) \<Rightarrow> (calls, Inl UpstreamNotRetrieved, ctx)
           | (calls, Inl UpstreamFailed) \<Rightarrow> (calls @ [ReportEvent (UpstreamLookupFailed service_name client_ip)], Inl UpstreamNotRetrieved, ctx))))"

definition logging :: "proxy_ctx \<Rightarrow> rpc list \<times> proxy_ctx" where
  "logging ctx = (if \<not> cx_counted ctx then ([], ctx)
     else (case (cx_client_ip ctx, cx_service_name ctx) of
         (Some client_ip, Some service_name) \<Rightarrow>
           (drop_guard (service_name, client_ip), ctx\<lparr>cx_counted := False, cx_client_ip := None\<rparr>)
       | _ \<Rightarrow> ([], ctx\<lparr>cx_counted := False, cx_client_ip := None\<rparr>)))"

text \<open>What is sent upstream: the rewritten path with the original query, and the forwarding headers.\<close>

definition rewrite_uri_path :: "string option \<Rightarrow> string \<Rightarrow> string" where
  "rewrite_uri_path query new_path = (case query of Some q \<Rightarrow> new_path @ ''?'' @ q | None \<Rightarrow> new_path)"

definition set_forwarded_headers :: "string option \<Rightarrow> bool \<Rightarrow> string option \<Rightarrow> (string, string) hmap \<Rightarrow> (string, string) hmap" where
  "set_forwarded_headers client_ip tls host headers = (let
       headers = (case client_ip of Some ip \<Rightarrow> hm_insert ''X-Forwarded-For'' ip headers | None \<Rightarrow> headers);
       headers = hm_insert ''X-Forwarded-Proto'' (if tls then ''https'' else ''http'') headers
     in case host of Some h \<Rightarrow> hm_insert ''X-Forwarded-Host'' h headers | None \<Rightarrow> headers)"

definition upstream_request_filter :: "'c http_proxy \<Rightarrow> http_request \<Rightarrow> proxy_ctx \<Rightarrow> string \<times> (string, string) hmap \<Rightarrow> string \<times> (string, string) hmap" where
  "upstream_request_filter proxy req ctx upstream = (case upstream of (uri, headers) \<Rightarrow>
     (case cx_forward_path ctx of Some p \<Rightarrow> rewrite_uri_path (rq_query req) p | None \<Rightarrow> uri,
      set_forwarded_headers (ingress_client_ip req) (hp_tls proxy) (ingress_raw_host req) headers))"

end
