(* ===== verification/Proxy_Conns.thy ===== *)
theory Proxy_Conns
  imports Proxy_Relay Chain_Holds
begin

text \<open>
  The connections of a proxy and the server's count of them.  Requests, connections and sessions run
  interleaved; the invariant says that the server has opened exactly one connection for each of them
  that still runs, so that the idle pass of the server spares what is in use.  The other properties
  are per request: the ingress policy is asked before the backend is, a certificate covers the name
  it is served for, and where a redirect leads.
\<close>

section \<open>Counting calls\<close>

definition opens :: "connection_guard \<Rightarrow> rpc list \<Rightarrow> nat" where
  "opens g calls = length (filter (\<lambda>c. c = ProxyRpc (fst g) (snd g) True) calls)"

definition closes :: "connection_guard \<Rightarrow> rpc list \<Rightarrow> nat" where
  "closes g calls = length (filter (\<lambda>c. c = CloseRpc (fst g) (snd g)) calls)"

lemma opens_simps [simp]:
  "opens g [] = 0"
  "opens g (c # cs) = (if c = ProxyRpc (fst g) (snd g) True then Suc (opens g cs) else opens g cs)"
  "opens g (cs @ ds) = opens g cs + opens g ds"
  by (simp_all add: opens_def)

lemma closes_simps [simp]:
  "closes g [] = 0"
  "closes g (c # cs) = (if c = CloseRpc (fst g) (snd g) then Suc (closes g cs) else closes g cs)"
  "closes g (cs @ ds) = closes g cs + closes g ds"
  by (simp_all add: closes_def)

lemma drop_guard [simp]: "drop_guard g = [CloseRpc (fst g) (snd g)]"
  by (cases g) simp

text \<open>No close finds a count of zero, starting from a count.\<close>

fun closes_covered :: "connection_guard \<Rightarrow> nat \<Rightarrow> rpc list \<Rightarrow> bool" where
  "closes_covered g k [] = True"
| "closes_covered g k (c # cs) =
     (if c = ProxyRpc (fst g) (snd g) True then closes_covered g (Suc k) cs
      else if c = CloseRpc (fst g) (snd g) then 0 < k \<and> closes_covered g (k - 1) cs
      else closes_covered g k cs)"

lemma closes_covered_append:
  "closes_covered g k (cs @ ds) \<longleftrightarrow> closes_covered g k cs \<and> closes_covered g (k + opens g cs - closes g cs) ds"
proof (induction cs arbitrary: k)
  case (Cons c cs)
  show ?case
  proof (cases "c = CloseRpc (fst g) (snd g)")
    case True
    then show ?thesis using Cons.IH [of "k - 1"] by (cases k) auto
  qed (use Cons.IH in auto)
qed simp

lemma closes_covered_only: "opens g cs = 0 \<Longrightarrow> closes g cs \<le> k \<Longrightarrow> closes_covered g k cs"
  by (induction cs arbitrary: k) (auto split: if_splits)

text \<open>An answer the proxy can use: the server always sends an address and a port of 16 bits.\<close>

definition usable :: "proxy_answer \<Rightarrow> bool" where
  "usable answer \<longleftrightarrow> (case answer of Granted ip port _ \<Rightarrow> ip \<noteq> None \<and> u16_try_from port \<noteq> None | _ \<Rightarrow> True)"

lemma resolve_upstream_cases:
  assumes "usable answer"
  obtains (granted) up where "resolve_upstream n ip answer = ([ProxyRpc n ip True], Inr up)"
  | (refused) e where "resolve_upstream n ip answer = ([ProxyRpc n ip False], Inl e)"
  using assms by (auto simp: usable_def resolve_upstream_def split: proxy_answer.splits option.splits)

section \<open>Live connections\<close>

record proxy_conns =
  px_http :: "(nat, http_request \<times> proxy_ctx) hmap"
  px_tcp :: "(nat, connection_guard) hmap"
  px_udp :: "(u16, udp_sessions) hmap"
  px_calls :: "rpc list"

definition http_guard :: "http_request \<times> proxy_ctx \<Rightarrow> connection_guard option" where
  "http_guard h = (case h of (_, ctx) \<Rightarrow> if cx_counted ctx then (case (cx_service_name ctx, cx_client_ip ctx) of
     (Some n, Some ip) \<Rightarrow> Some (n, ip) | _ \<Rightarrow> None) else None)"

definition live_udp :: "connection_guard \<Rightarrow> (u16, udp_sessions) hmap \<Rightarrow> nat" where
  "live_udp g m = sum_list (map (\<lambda>(_, ss). hm_count (\<lambda>_ s. us_close s = g) ss) m)"

definition live :: "connection_guard \<Rightarrow> proxy_conns \<Rightarrow> nat" where
  "live g px = hm_count (\<lambda>_ h. http_guard h = Some g) (px_http px) + hm_count (\<lambda>_ g'. g' = g) (px_tcp px) + live_udp g (px_udp px)"

text \<open>One event of the proxy.  Every connection and request has an identity of its own.\<close>

inductive proxy_step :: "'c http_proxy \<Rightarrow> proxy_conns \<Rightarrow> proxy_conns \<Rightarrow> bool" for proxy where
  http_arrives: "request_filter proxy req check new_ctx = (calls, Forward, ctx) \<Longrightarrow> hm_get (px_http px) i = None \<Longrightarrow>
    proxy_step proxy px (px\<lparr>px_http := hm_insert i (req, ctx) (px_http px), px_calls := px_calls px @ calls\<rparr>)"
| http_answered: "request_filter proxy req check new_ctx = (calls, Respond response, ctx) \<Longrightarrow>
    proxy_step proxy px (px\<lparr>px_calls := px_calls px @ calls @ fst (logging ctx)\<rparr>)"
| http_peer: "hm_get (px_http px) i = Some (req, ctx) \<Longrightarrow> usable answer \<Longrightarrow> upstream_peer req answer ctx = (calls, result, ctx') \<Longrightarrow>
    proxy_step proxy px (px\<lparr>px_http := hm_insert i (req, ctx') (px_http px), px_calls := px_calls px @ calls\<rparr>)"
| http_ends: "hm_get (px_http px) i = Some (req, ctx) \<Longrightarrow>
    proxy_step proxy px (px\<lparr>px_http := hm_remove i (px_http px), px_calls := px_calls px @ fst (logging ctx)\<rparr>)"
| tcp_arrives: "tcp_handle_connection entry client_ip check answer connected = (calls, Some g) \<Longrightarrow> usable answer \<Longrightarrow> hm_get (px_tcp px) i = None \<Longrightarrow>
    proxy_step proxy px (px\<lparr>px_tcp := hm_insert i g (px_tcp px), px_calls := px_calls px @ calls\<rparr>)"
| tcp_rejected: "tcp_handle_connection entry client_ip check answer connected = (calls, None) \<Longrightarrow> usable answer \<Longrightarrow>
    proxy_step proxy px (px\<lparr>px_calls := px_calls px @ calls\<rparr>)"
| tcp_ends: "hm_get (px_tcp px) i = Some g \<Longrightarrow>
    proxy_step proxy px (px\<lparr>px_tcp := hm_remove i (px_tcp px), px_calls := px_calls px @ drop_guard g\<rparr>)"
| udp_starts: "hm_get (px_udp px) port = None \<Longrightarrow> proxy_step proxy px (px\<lparr>px_udp := hm_insert port [] (px_udp px)\<rparr>)"
| udp_datagram: "hm_get (px_udp px) port = Some sessions \<Longrightarrow> usable answer \<Longrightarrow>
    udp_handle_datagram now entry src check answer bound connected sessions = (calls, sessions') \<Longrightarrow>
    proxy_step proxy px (px\<lparr>px_udp := hm_insert port sessions' (px_udp px), px_calls := px_calls px @ calls\<rparr>)"
| udp_sweep: "hm_get (px_udp px) port = Some sessions \<Longrightarrow> udp_sweep_idle now timeout sessions = (calls, sessions') \<Longrightarrow>
    proxy_step proxy px (px\<lparr>px_udp := hm_insert port sessions' (px_udp px), px_calls := px_calls px @ calls\<rparr>)"
| udp_stops: "hm_get (px_udp px) port = Some sessions \<Longrightarrow>
    proxy_step proxy px (px\<lparr>px_udp := hm_remove port (px_udp px), px_calls := px_calls px @ udp_drop_sessions sessions\<rparr>)"

definition idle_proxy :: proxy_conns where
  "idle_proxy = \<lparr>px_http = [], px_tcp = [], px_udp = [], px_calls = []\<rparr>"

abbreviation "proxy_runs proxy \<equiv> (proxy_step proxy)\<^sup>*\<^sup>*"

definition ctx_ok :: "http_request \<Rightarrow> proxy_ctx \<Rightarrow> bool" where
  "ctx_ok req ctx \<longleftrightarrow> (cx_counted ctx \<longrightarrow> (\<exists>n ip. cx_service_name ctx = Some n \<and> cx_client_ip ctx = Some ip \<and> rq_client req = Inet ip))"

definition conns_ok :: "proxy_conns \<Rightarrow> bool" where
  "conns_ok px \<longleftrightarrow> hm_inv (px_http px) \<and> hm_inv (px_tcp px) \<and> hm_inv (px_udp px) \<and> (\<forall>(_, ss) \<in> set (px_udp px). hm_inv ss) \<and>
     (\<forall>(_, req, ctx) \<in> set (px_http px). ctx_ok req ctx) \<and>
     (\<forall>g. opens g (px_calls px) = closes g (px_calls px) + live g px) \<and> (\<forall>g. closes_covered g 0 (px_calls px))"

section \<open>What each operation opens and closes\<close>

abbreviation holds :: "connection_guard option \<Rightarrow> connection_guard \<Rightarrow> nat" where
  "holds h g \<equiv> (if h = Some g then 1 else 0)"

lemma request_filter_calls:
  assumes "request_filter proxy req check ctx = (calls, out, ctx')"
  shows "cx_counted ctx' = cx_counted ctx" "opens g calls = 0" "closes g calls = 0"
  using assms by (auto simp: request_filter_def route_request_def split: option.splits resolution.splits route_match.splits if_splits)

lemma logging_calls:
  assumes "ctx_ok req ctx"
  shows "opens g (fst (logging ctx)) = 0 \<and> closes g (fst (logging ctx)) = holds (http_guard (req, ctx)) g"
  using assms by (cases g) (auto simp: logging_def ctx_ok_def http_guard_def)

lemma upstream_peer_calls:
  assumes "upstream_peer req answer ctx = (calls, result, ctx')" "usable answer" "ctx_ok req ctx"
  shows "ctx_ok req ctx' \<and> opens g calls + holds (http_guard (req, ctx)) g = closes g calls + holds (http_guard (req, ctx')) g"
proof (cases "\<exists>url ip. request_url req = Inr url \<and> rq_client req = Inet ip")
  case False
  then have "ctx' = ctx \<and> opens g calls = 0 \<and> closes g calls = 0"
    using assms(1) by (auto simp: upstream_peer_def split: sum.splits client_addr.splits)
  then show ?thesis using assms(3) by simp
next
  case True
  then obtain url ip where u: "request_url req = Inr url" "rq_client req = Inet ip" by blast
  define n where "n = (case cx_service_name ctx of Some n \<Rightarrow> n | None \<Rightarrow> url)"
  from assms(2) show ?thesis
  proof (cases rule: resolve_upstream_cases [where n = n and ip = ip])
    case (granted up)
    then show ?thesis using assms(1,3) u
      by (cases g) (auto simp: upstream_peer_def n_def [symmetric] ctx_ok_def http_guard_def split: if_splits option.splits)
  next
    case (refused e)
    then have "ctx' = ctx \<and> opens g calls = 0 \<and> closes g calls = 0"
      using assms(1) u by (cases e) (auto simp: upstream_peer_def n_def [symmetric])
    then show ?thesis using assms(3) by simp
  qed
qed

lemma upstream_peer_covered:
  assumes "upstream_peer req answer ctx = (calls, result, ctx')"
  shows "closes_covered g k calls"
  using assms by (auto simp: upstream_peer_def resolve_upstream_def Let_def
      split: sum.splits client_addr.splits proxy_answer.splits option.splits upstream_error.splits if_splits)

lemma tcp_covered:
  assumes "tcp_handle_connection entry client_ip check answer connected = (calls, h)"
  shows "closes_covered g k calls"
  using assms by (auto simp: tcp_handle_connection_def resolve_upstream_def Let_def
      split: sum.splits proxy_answer.splits option.splits upstream_error.splits if_splits)

lemma udp_datagram_covered:
  assumes "udp_handle_datagram now entry src check answer bound connected ss = (calls, ss')"
  shows "closes_covered g k calls"
  using assms by (auto simp: udp_handle_datagram_def resolve_upstream_def Let_def
      split: sum.splits proxy_answer.splits option.splits upstream_error.splits if_splits)

lemma tcp_calls:
  assumes "tcp_handle_connection entry client_ip check answer connected = (calls, h)" "usable answer"
  shows "opens g calls = closes g calls + holds h g"
  using assms(2)
proof (cases rule: resolve_upstream_cases [where n = "mp_service_name entry" and ip = client_ip])
  case (granted up)
  then show ?thesis using assms(1) by (cases g) (auto simp: tcp_handle_connection_def Let_def split: if_splits)
next
  case (refused e)
  then show ?thesis using assms(1) by (cases e) (auto simp: tcp_handle_connection_def Let_def split: if_splits)
qed

abbreviation "sessions_of g ss \<equiv> hm_count (\<lambda>_ s. us_close s = g) ss"

lemma udp_datagram_calls:
  assumes "udp_handle_datagram now entry src check answer bound connected ss = (calls, ss')" "usable answer" "hm_inv ss"
  shows "hm_inv ss' \<and> opens g calls + sessions_of g ss = closes g calls + sessions_of g ss'"
proof (cases "hm_get ss src")
  case (Some session)
  then have "calls = []" "ss' = hm_insert src (session\<lparr>us_last_active := now\<rparr>) ss" using assms(1) by (auto simp: udp_handle_datagram_def)
  then show ?thesis using assms(3) Some
      hm_count_remove [OF assms(3) Some, of "\<lambda>_ s. us_close s = g"] by (simp add: hm_count_insert)
next
  case None
  from assms(2) show ?thesis
  proof (cases rule: resolve_upstream_cases [where n = "mp_service_name entry" and ip = "fst src"])
    case (granted up)
    then show ?thesis using assms(1,3) None hm_remove_absent [OF None]
      by (cases g) (auto simp: udp_handle_datagram_def Let_def hm_count_insert split: if_splits)
  next
    case (refused e)
    then have "ss' = ss" "opens g calls = 0" "closes g calls = 0"
      using assms(1) None by (cases e; auto simp: udp_handle_datagram_def Let_def split: if_splits)+
    then show ?thesis using assms(3) by simp
  qed
qed

lemma sweep_one_eq:
  "sweep_one src (calls, ss) = (case hm_get ss src of None \<Rightarrow> (calls, ss) | Some s \<Rightarrow> (calls @ drop_guard (us_close s), hm_remove src ss))"
  by (simp add: sweep_one_def)

lemma sweep_calls:
  assumes "fold sweep_one srcs (calls0, ss) = (calls, ss')" "hm_inv ss"
  shows "hm_inv ss' \<and> opens g calls = opens g calls0 \<and> closes g calls0 + sessions_of g ss = closes g calls + sessions_of g ss'"
  using assms
proof (induction srcs arbitrary: calls0 ss)
  case (Cons src srcs)
  show ?case
  proof (cases "hm_get ss src")
    case None
    then show ?thesis using Cons by (simp add: sweep_one_eq)
  next
    case (Some s)
    then have "fold sweep_one srcs (calls0 @ drop_guard (us_close s), hm_remove src ss) = (calls, ss')"
      using Cons.prems(1) by (simp add: sweep_one_eq)
    from Cons.IH [OF this hm_inv_remove [OF Cons.prems(2)]] show ?thesis
      using hm_count_remove [OF Cons.prems(2) Some, of "\<lambda>_ s. us_close s = g"] by (cases g; cases "us_close s") (auto split: if_splits)
  qed
qed simp

lemma udp_sweep_calls:
  assumes "udp_sweep_idle now timeout ss = (calls, ss')" "hm_inv ss"
  shows "hm_inv ss' \<and> opens g calls = 0 \<and> sessions_of g ss = closes g calls + sessions_of g ss'"
proof (cases "timeout = 0")
  case True
  then show ?thesis using assms by (simp add: udp_sweep_idle_def)
next
  case False
  then show ?thesis using assms(1) sweep_calls [OF _ assms(2)] by (fastforce simp: udp_sweep_idle_def Let_def)
qed

lemma udp_drop_calls: "opens g (udp_drop_sessions ss) = 0 \<and> closes g (udp_drop_sessions ss) = sessions_of g ss"
proof (induction ss)
  case (Cons e ss)
  then show ?case by (cases g; cases e; cases "us_close (snd e)") (auto simp: udp_drop_sessions_def hm_count_def)
qed (simp add: udp_drop_sessions_def)

section \<open>The count of the server\<close>

lemma live_udp_mset: "live_udp g m = sum_mset (image_mset (\<lambda>(_, ss). sessions_of g ss) (mset m))"
  by (simp add: live_udp_def sum_mset_sum_list mset_map [symmetric] del: mset_map)

lemma live_udp_remove: "hm_inv m \<Longrightarrow> hm_get m p = Some ss \<Longrightarrow> live_udp g m = live_udp g (hm_remove p m) + sessions_of g ss"
  using mset_hm_remove [of m p ss] by (simp add: live_udp_mset)

lemma live_udp_insert: "hm_inv m \<Longrightarrow> live_udp g (hm_insert p ss m) = live_udp g (hm_remove p m) + sessions_of g ss"
  by (simp add: live_udp_mset mset_hm_insert)

lemmas live_simps = live_def hm_count_insert live_udp_insert hm_count_remove live_udp_remove

lemma conns_ok_http:
  assumes "conns_ok px" "hm_get (px_http px) i = Some (req, ctx)"
  shows "ctx_ok req ctx" "hm_count P (px_http px) = hm_count P (hm_remove i (px_http px)) + (if P i (req, ctx) then 1 else 0)"
  using assms hm_count_remove [OF _ assms(2), of P] by (auto simp: conns_ok_def dest: hm_get_SomeD)

lemma balanced: "conns_ok px \<Longrightarrow> opens g (px_calls px) = closes g (px_calls px) + live g px"
  unfolding conns_ok_def by blast

lemma calls_covered:
  assumes "conns_ok px" "opens g calls = 0 \<or> closes_covered g (live g px) calls" "closes g calls \<le> live g px + opens g calls"
  shows "closes_covered g 0 (px_calls px @ calls)"
proof -
  have "closes_covered g (live g px) calls" using assms(2,3) closes_covered_only [of g calls "live g px"] by auto
  then show ?thesis
    unfolding closes_covered_append using assms(1) balanced [of px g] by (simp add: conns_ok_def del: split_paired_All)
qed

lemma set_http_ok:
  assumes "conns_ok px" "ctx_ok req ctx'" "\<And>g. opens g calls = 0 \<or> closes_covered g (live g px) calls" "\<And>g. opens g calls + (case hm_get (px_http px) i of Some h \<Rightarrow> holds (http_guard h) g | None \<Rightarrow> 0) =
    closes g calls + holds (http_guard (req, ctx')) g"
  shows "conns_ok (px\<lparr>px_http := hm_insert i (req, ctx') (px_http px), px_calls := px_calls px @ calls\<rparr>)"
proof -
  have inv: "hm_inv (px_http px)" using assms(1) by (simp add: conns_ok_def)
  have "hm_count (\<lambda>_ h. http_guard h = Some g) (px_http px) =
      hm_count (\<lambda>_ h. http_guard h = Some g) (hm_remove i (px_http px)) + (case hm_get (px_http px) i of Some h \<Rightarrow> holds (http_guard h) g | None \<Rightarrow> 0)" for g
    using hm_count_remove [OF inv, of i] hm_remove_absent [of "px_http px" i] by (cases "hm_get (px_http px) i") auto
  then have step: "live g (px\<lparr>px_http := hm_insert i (req, ctx') (px_http px), px_calls := px_calls px @ calls\<rparr>) + closes g calls = live g px + opens g calls" for g
    using assms(4) [of g] hm_count_insert [OF inv, of "\<lambda>_ h. http_guard h = Some g" i "(req, ctx')"] by (simp add: live_def)
  have cov: "closes_covered g 0 (px_calls px @ calls)" for g using calls_covered [OF assms(1,3)] step [of g] by simp
  have balance: "opens g (px_calls px @ calls) = closes g (px_calls px @ calls) + live g (px\<lparr>px_http := hm_insert i (req, ctx') (px_http px), px_calls := px_calls px @ calls\<rparr>)" for g
    using balanced [OF assms(1), of g] step [of g] by simp
  have "\<forall>(_, req, ctx) \<in> set (hm_insert i (req, ctx') (px_http px)). ctx_ok req ctx"
    using assms(1,2) by (auto simp: conns_ok_def hm_insert_set [OF inv])
  then show ?thesis using assms(1) balance cov unfolding conns_ok_def by (simp del: split_paired_All)
qed

lemma set_udp_ok:
  assumes "conns_ok px" "hm_get (px_udp px) port = Some ss" "hm_inv ss'" "\<And>g. opens g calls = 0 \<or> closes_covered g (live g px) calls" "\<And>g. opens g calls + sessions_of g ss = closes g calls + sessions_of g ss'"
  shows "conns_ok (px\<lparr>px_udp := hm_insert port ss' (px_udp px), px_calls := px_calls px @ calls\<rparr>)"
proof -
  have inv: "hm_inv (px_udp px)" using assms(1) by (simp add: conns_ok_def)
  have step: "live g (px\<lparr>px_udp := hm_insert port ss' (px_udp px), px_calls := px_calls px @ calls\<rparr>) + closes g calls = live g px + opens g calls" for g
    using assms(5) [of g] live_udp_insert [OF inv, of g port ss'] live_udp_remove [OF inv assms(2), of g] by (simp add: live_def)
  have cov: "closes_covered g 0 (px_calls px @ calls)" for g using calls_covered [OF assms(1,4)] step [of g] by simp
  have balance: "opens g (px_calls px @ calls) = closes g (px_calls px @ calls) + live g (px\<lparr>px_udp := hm_insert port ss' (px_udp px), px_calls := px_calls px @ calls\<rparr>)" for g
    using balanced [OF assms(1), of g] step [of g] by simp
  have "\<forall>(_, ss) \<in> set (hm_insert port ss' (px_udp px)). hm_inv ss" using assms(1,3) by (auto simp: conns_ok_def hm_insert_set [OF inv])
  then show ?thesis using assms(1) balance cov unfolding conns_ok_def by (simp del: split_paired_All)
qed

lemma add_calls_ok:
  assumes "conns_ok px" "\<And>g. opens g calls = 0 \<or> closes_covered g (live g px) calls" "\<And>g. opens g calls = closes g calls"
  shows "conns_ok (px\<lparr>px_calls := px_calls px @ calls\<rparr>)"
  using assms(1,3) calls_covered [OF assms(1,2)] by (simp add: conns_ok_def live_def)

lemma conns_okI:
  assumes "conns_ok px" "hm_inv (px_http px')" "hm_inv (px_tcp px')" "hm_inv (px_udp px')" "set (px_http px') \<subseteq> set (px_http px)"
    and "\<And>p ss. (p, ss) \<in> set (px_udp px') \<Longrightarrow> hm_inv ss" "px_calls px' = px_calls px @ calls"
    and "\<And>g. live g px' + closes g calls = live g px + opens g calls" "\<And>g. opens g calls = 0 \<or> closes_covered g (live g px) calls"
  shows "conns_ok px'"
proof -
  have "closes_covered g 0 (px_calls px')" for g unfolding assms(7) using calls_covered [OF assms(1,9), of g] assms(8) [of g] by simp
  moreover
  have "opens g (px_calls px') = closes g (px_calls px') + live g px'" for g
    using balanced [OF assms(1), of g] assms(8) [of g] by (simp add: assms(7))
  moreover have "\<forall>(_, req, ctx) \<in> set (px_http px'). ctx_ok req ctx" using assms(1,5) unfolding conns_ok_def by blast
  ultimately show ?thesis using assms(2-4,6) unfolding conns_ok_def by blast
qed

lemma proxy_step_ok:
  assumes "proxy_step proxy px px'" "conns_ok px"
  shows "conns_ok px'"
  using assms(1)
proof cases
  note inv = assms(2) [unfolded conns_ok_def]
  have inv_udp: "hm_inv ss" if "hm_get (px_udp px) p = Some ss" for p ss using inv hm_get_SomeD [OF that] by blast
  {
    case (http_arrives req check calls ctx i)
    note f = request_filter_calls [OF http_arrives(2)]
    have "\<not> cx_counted ctx" using f(1) by (simp add: new_ctx_def)
    then show ?thesis unfolding http_arrives(1) using http_arrives(3) f(2,3)
      by (intro set_http_ok [OF assms(2)]) (simp_all add: ctx_ok_def http_guard_def closes_covered_only)
  next
    case (http_answered req check calls response ctx)
    note f = request_filter_calls [OF http_answered(2)]
    have "fst (logging ctx) = []" using f(1) by (simp add: new_ctx_def logging_def)
    then show ?thesis unfolding http_answered(1) using add_calls_ok [OF assms(2), of calls] f(2,3) by (simp add: closes_covered_only)
  next
    case (http_peer i req ctx answer calls result ctx')
    note c = upstream_peer_calls [OF http_peer(4,3) conns_ok_http(1) [OF assms(2) http_peer(2)]]
    show ?thesis unfolding http_peer(1) using c http_peer(2) upstream_peer_covered [OF http_peer(4)] by (intro set_http_ok [OF assms(2)]) simp_all
  next
    case (http_ends i req ctx)
    note c = logging_calls [OF conns_ok_http(1) [OF assms(2) http_ends(2)]]
    show ?thesis unfolding http_ends(1)
    proof (rule conns_okI [OF assms(2)])
      fix g
      show "live g (px\<lparr>px_http := hm_remove i (px_http px), px_calls := px_calls px @ fst (logging ctx)\<rparr>) + closes g (fst (logging ctx)) =
          live g px + opens g (fst (logging ctx))"
        using c [of g] conns_ok_http(2) [OF assms(2) http_ends(2), of "\<lambda>_ h. http_guard h = Some g"] by (simp add: live_def)
    qed (use inv c in auto)
  next
    case (tcp_arrives entry client_ip check answer connected calls g i)
    note c = tcp_calls [OF tcp_arrives(2,3)]
    show ?thesis unfolding tcp_arrives(1)
    proof (rule conns_okI [OF assms(2)])
      fix g'
      show "live g' (px\<lparr>px_tcp := hm_insert i g (px_tcp px), px_calls := px_calls px @ calls\<rparr>) + closes g' calls = live g' px + opens g' calls"
        using c [of g'] inv hm_count_insert [of "px_tcp px" "\<lambda>_ x. x = g'" i g] hm_remove_absent [OF tcp_arrives(4)] by (simp add: live_def)
    qed (use inv tcp_covered [OF tcp_arrives(2)] in auto)
  next
    case (tcp_rejected entry client_ip check answer connected calls)
    show ?thesis unfolding tcp_rejected(1) using tcp_calls [OF tcp_rejected(2,3)] tcp_covered [OF tcp_rejected(2)]
      by (intro add_calls_ok [OF assms(2)]) simp_all
  next
    case (tcp_ends i g)
    show ?thesis unfolding tcp_ends(1)
    proof (rule conns_okI [OF assms(2)])
      fix g'
      show "live g' (px\<lparr>px_tcp := hm_remove i (px_tcp px), px_calls := px_calls px @ drop_guard g\<rparr>) + closes g' (drop_guard g) = live g' px + opens g' (drop_guard g)"
        using inv hm_count_remove [OF _ tcp_ends(2), of "\<lambda>_ x. x = g'"] by (cases g; cases g') (auto simp: live_def)
    qed (use inv in auto)
  next
    case (udp_starts port)
    show ?thesis unfolding udp_starts(1)
    proof (rule conns_okI [OF assms(2), where calls = "[]"])
      fix g
      show "live g (px\<lparr>px_udp := hm_insert port [] (px_udp px)\<rparr>) + closes g [] = live g px + opens g []"
        using inv live_udp_insert [of "px_udp px" g port "[]"] hm_remove_absent [OF udp_starts(2)] by (simp add: live_def)
    qed (use inv hm_insert_set [of "px_udp px" port "[]"] in auto)
  next
    case (udp_datagram port ss answer now entry src check bound connected calls ss')
    show ?thesis unfolding udp_datagram(1) using udp_datagram_calls [OF udp_datagram(4,3) inv_udp [OF udp_datagram(2)]] udp_datagram_covered [OF udp_datagram(4)]
      by (intro set_udp_ok [OF assms(2) udp_datagram(2)]) simp_all
  next
    case (udp_sweep port ss now timeout calls ss')
    show ?thesis unfolding udp_sweep(1) using udp_sweep_calls [OF udp_sweep(3) inv_udp [OF udp_sweep(2)]]
      by (intro set_udp_ok [OF assms(2) udp_sweep(2)]) simp_all
  next
    case (udp_stops port ss)
    show ?thesis unfolding udp_stops(1)
    proof (rule conns_okI [OF assms(2)])
      fix g
      show "live g (px\<lparr>px_udp := hm_remove port (px_udp px), px_calls := px_calls px @ udp_drop_sessions ss\<rparr>) + closes g (udp_drop_sessions ss) =
          live g px + opens g (udp_drop_sessions ss)"
        using inv live_udp_remove [OF _ udp_stops(2), of g] udp_drop_calls [of g ss] by (simp add: live_def)
    qed (use inv udp_drop_calls in auto)
  }
qed

lemma proxy_runs_ok: "proxy_runs proxy idle_proxy px \<Longrightarrow> conns_ok px"
proof (induction rule: rtranclp_induct)
  case base
  then show ?case by (simp add: conns_ok_def idle_proxy_def live_def live_udp_def)
qed (rule proxy_step_ok)

section \<open>The server behind the proxy\<close>

text \<open>What the proxy relies on: a granted upstream adds one to the count of the edge of its client and
  service, a close takes one away, and no other call touches it.\<close>

locale conn_server =
  fixes edge :: "'s \<Rightarrow> connection_guard \<Rightarrow> bool"
    and count :: "'s \<Rightarrow> connection_guard \<Rightarrow> nat"
    and serve :: "instant \<times> rpc \<Rightarrow> 's \<Rightarrow> 's"
  assumes edge_serve: "edge s g \<Longrightarrow> edge (serve tc s) g"
    and count_open: "edge s g \<Longrightarrow> snd tc = ProxyRpc n ip True \<Longrightarrow> count (serve tc s) g = (if g = (n, ip) then Suc (count s g) else count s g)"
    and count_close: "edge s g \<Longrightarrow> snd tc = CloseRpc n ip \<Longrightarrow> count (serve tc s) g = (if g = (n, ip) then count s g - 1 else count s g)"
    and count_other: "edge s g \<Longrightarrow> (\<And>n ip. snd tc \<noteq> ProxyRpc n ip True \<and> snd tc \<noteq> CloseRpc n ip) \<Longrightarrow> count (serve tc s) g = count s g"
begin

lemma count_calls:
  "edge s g \<Longrightarrow> closes_covered g (count s g) (map snd tcs) \<Longrightarrow>
    edge (fold serve tcs s) g \<and> count (fold serve tcs s) g + closes g (map snd tcs) = count s g + opens g (map snd tcs)"
proof (induction tcs arbitrary: s)
  case (Cons tc tcs)
  note e = edge_serve [OF Cons.prems(1), of tc]
  consider (opened) n ip where "snd tc = ProxyRpc n ip True" | (closed) n ip where "snd tc = CloseRpc n ip"
    | (other) "\<And>n ip. snd tc \<noteq> ProxyRpc n ip True \<and> snd tc \<noteq> CloseRpc n ip" by blast
  then show ?case
  proof cases
    case opened
    show ?thesis using Cons.IH [OF e] Cons.prems(2) opened count_open [OF Cons.prems(1) opened]
      by (cases g) (auto split: if_splits)
  next
    case closed
    show ?thesis using Cons.IH [OF e] Cons.prems(2) closed count_close [OF Cons.prems(1) closed]
      by (cases g) (auto split: if_splits)
  next
    case other
    then show ?thesis using Cons.IH [OF e] Cons.prems(2) count_other [OF Cons.prems(1) other] by (cases g) auto
  qed
qed simp

end

definition serve_call :: "ip_addr \<Rightarrow> instant \<times> rpc \<Rightarrow> stack_map \<Rightarrow> stack_map" where
  "serve_call proxy_ip tc stacks = (case snd tc of
       ProxyRpc name client_ip True \<Rightarrow> mark_connection_open (fst tc) name proxy_ip client_ip stacks
     | CloseRpc name client_ip \<Rightarrow> mark_connection_closed (fst tc) name proxy_ip client_ip stacks
     | _ \<Rightarrow> stacks)"

definition edge_entry :: "ip_addr \<Rightarrow> stack_map \<Rightarrow> connection_guard \<Rightarrow> client_info option" where
  "edge_entry proxy_ip stacks g = do {
     stack \<leftarrow> find_service_stack stacks (fst g);
     reg \<leftarrow> registered_at stacks stack (fst g);
     client_at (client_new (snd g) (Some proxy_ip)) (rg_replicas reg)
   }"

lemma find_stack_with_registered:
  assumes "hm_inv stacks"
  shows "find_service_stack (with_registered stack name f stacks) n = find_service_stack stacks n"
proof (cases "registered_at stacks stack name")
  case (Some reg)
  then obtain m where m: "hm_get stacks stack = Some m" "hm_get m name = Some (Registered reg)"
    by (auto simp: registered_at_def split: option.splits service_info.splits)
  then have only: "(stack, m') \<in> set stacks \<Longrightarrow> m' = m" for m' using assms hm_get_in_set [of stacks stack m'] by auto
  have "find (\<lambda>(_, m). hm_get m n \<noteq> None) (hm_modify stack (hm_insert name (Registered (f reg))) xs) =
      map_option (\<lambda>(s, m). (s, if s = stack then hm_insert name (Registered (f reg)) m else m)) (find (\<lambda>(_, m). hm_get m n \<noteq> None) xs)"
    if "set xs \<subseteq> set stacks" for xs
    using that
  proof (induction xs)
    case (Cons x xs)
    have "hm_get (hm_insert name (Registered (f reg)) (snd x)) n \<noteq> None \<longleftrightarrow> hm_get (snd x) n \<noteq> None" if "fst x = stack"
      using only [of "snd x"] that Cons.prems m(2) by (cases x) (auto simp del: not_None_eq)
    then show ?case using Cons by (cases x) (auto simp: hm_modify_def simp del: not_None_eq)
  qed (simp add: hm_modify_def)
  then show ?thesis using Some by (simp add: find_service_stack_def with_registered_def option.map_comp comp_def split_def)
qed (simp add: with_registered_def)

lemma registered_at_with_registered:
  "registered_at (with_registered stack name f stacks) s n =
    (if s = stack \<and> n = name then map_option f (registered_at stacks stack name) else registered_at stacks s n)"
  by (auto simp: registered_at_def with_registered_def split: option.splits service_info.splits if_splits)

lemma edge_entry_with_client:
  assumes "hm_inv stacks"
  shows "edge_entry p (with_proxy_client n p ip (\<lambda>c. modify_client c f) stacks) g =
    (if g = (n, ip) then map_option f (edge_entry p stacks g) else edge_entry p stacks g)"
proof (cases "find_service_stack stacks n")
  case (Some stack)
  have c: "client_new ip' (Some p) = client_new ip (Some p) \<longleftrightarrow> ip' = ip" for ip' by (simp add: client_new_def)
  show ?thesis
    using Some by (cases g) (auto simp: edge_entry_def with_proxy_client_def find_stack_with_registered [OF assms]
        registered_at_with_registered client_at_modify c split: bind_splits)
qed (auto simp: with_proxy_client_def edge_entry_def)

lemma with_proxy_client_inv: "hm_inv stacks \<Longrightarrow> hm_inv (with_proxy_client n p ip f stacks)"
  by (simp add: with_proxy_client_def with_registered_def split: option.splits)

lemma serve_call_entry:
  assumes "hm_inv stacks"
  shows "hm_inv (serve_call p tc stacks)"
    and "snd tc = ProxyRpc n ip True \<Longrightarrow> edge_entry p (serve_call p tc stacks) g =
      (if g = (n, ip) then map_option (ci_open_connection (fst tc)) (edge_entry p stacks g) else edge_entry p stacks g)"
    and "snd tc = CloseRpc n ip \<Longrightarrow> edge_entry p (serve_call p tc stacks) g =
      (if g = (n, ip) then map_option (ci_close_connection (fst tc)) (edge_entry p stacks g) else edge_entry p stacks g)"
    and "(\<And>n ip. snd tc \<noteq> ProxyRpc n ip True \<and> snd tc \<noteq> CloseRpc n ip) \<Longrightarrow> serve_call p tc stacks = stacks"
proof -
  have f: "open_connection t = (\<lambda>c. modify_client c (ci_open_connection t))" "close_connection t = (\<lambda>c. modify_client c (ci_close_connection t))" for t
    by (simp_all add: fun_eq_iff open_connection_def close_connection_def)
  show "hm_inv (serve_call p tc stacks)"
    using assms by (auto simp: serve_call_def mark_connection_open_def mark_connection_closed_def with_proxy_client_inv split: rpc.splits bool.splits)
  show "snd tc = ProxyRpc n ip True \<Longrightarrow> edge_entry p (serve_call p tc stacks) g =
      (if g = (n, ip) then map_option (ci_open_connection (fst tc)) (edge_entry p stacks g) else edge_entry p stacks g)"
    "snd tc = CloseRpc n ip \<Longrightarrow> edge_entry p (serve_call p tc stacks) g =
      (if g = (n, ip) then map_option (ci_close_connection (fst tc)) (edge_entry p stacks g) else edge_entry p stacks g)"
    by (simp_all add: serve_call_def mark_connection_open_def mark_connection_closed_def f edge_entry_with_client [OF assms])
  show "(\<And>n ip. snd tc \<noteq> ProxyRpc n ip True \<and> snd tc \<noteq> CloseRpc n ip) \<Longrightarrow> serve_call p tc stacks = stacks"
    by (cases "snd tc") (auto simp: serve_call_def split: bool.splits)
qed

text \<open>An edge whose setup is done, and its count.\<close>

definition has_edge :: "ip_addr \<Rightarrow> stack_map \<Rightarrow> connection_guard \<Rightarrow> bool" where
  "has_edge p stacks g \<longleftrightarrow> hm_inv stacks \<and> (\<exists>ci. edge_entry p stacks g = Some ci \<and> \<not> is_pending ci)"

definition edge_count :: "ip_addr \<Rightarrow> stack_map \<Rightarrow> connection_guard \<Rightarrow> nat" where
  "edge_count p stacks g = (case edge_entry p stacks g of Some ci \<Rightarrow> ci_open_connections ci | None \<Rightarrow> 0)"

lemma connection_fields [simp]:
  "is_pending (ci_open_connection t ci) = is_pending ci" "is_pending (ci_close_connection t ci) = is_pending ci"
  "ci_open_connections (ci_open_connection t ci) = Suc (ci_open_connections ci)"
  "ci_open_connections (ci_close_connection t ci) = ci_open_connections ci - 1"
  by (simp_all add: is_pending_def ci_open_connection_def ci_close_connection_def ci_set_latest_now_def)

interpretation served: conn_server "has_edge p" "edge_count p" "serve_call p" for p
proof
  fix s g tc and n ip :: string
  assume e: "has_edge p s g"
  then have inv: "hm_inv s" by (simp add: has_edge_def)
  note entry = serve_call_entry [OF inv]
  show "has_edge p (serve_call p tc s) g"
  proof (cases "\<exists>n ip. snd tc = ProxyRpc n ip True \<or> snd tc = CloseRpc n ip")
    case True
    then show ?thesis using e entry(1) entry(2,3) [where tc = tc and p = p and g = g] by (auto simp: has_edge_def)
  next
    case False
    then show ?thesis using e entry(4) [of tc p] by simp
  qed
  show "snd tc = ProxyRpc n ip True \<Longrightarrow> edge_count p (serve_call p tc s) g = (if g = (n, ip) then Suc (edge_count p s g) else edge_count p s g)"
    "snd tc = CloseRpc n ip \<Longrightarrow> edge_count p (serve_call p tc s) g = (if g = (n, ip) then edge_count p s g - 1 else edge_count p s g)"
    using e by (auto simp: has_edge_def edge_count_def entry(2,3))
  show "(\<And>n ip. snd tc \<noteq> ProxyRpc n ip True \<and> snd tc \<noteq> CloseRpc n ip) \<Longrightarrow> edge_count p (serve_call p tc s) g = edge_count p s g"
    using entry(4) [of tc p] by simp
qed

lemma closes_covered_mono: "closes_covered g k cs \<Longrightarrow> k \<le> l \<Longrightarrow> closes_covered g l cs"
proof (induction cs arbitrary: k l)
  case (Cons c cs)
  show ?case
    using Cons.prems Cons.IH [of "Suc k" "Suc l"] Cons.IH [of "k - 1" "l - 1"] Cons.IH [of k l] by (auto split: if_splits)
qed simp

lemma client_entry_at: "client_at c (rg_replicas reg) = Some ci \<Longrightarrow> \<not> is_pending ci \<Longrightarrow> client_entry c reg = Some ci"
  unfolding client_entry_def
proof (induction "rg_replicas reg" arbitrary: reg)
  case (Cons r rs)
  then show ?case using Cons(1) [of "reg\<lparr>rg_replicas := rs\<rparr>"] by (simp flip: Cons(2) add: live_entry_def split: option.splits)
qed simp

lemma counted_spared:
  assumes "has_edge p stacks (name, ip)" "0 < edge_count p stacks (name, ip)" "find_service_stack stacks name = Some stack" "hm_get stacks stack = Some sv"
  shows "apply_timeout_candidate now (ProxyClientTimedOut name (client_new ip (Some p))) stack (sv, st) = Some (sv, st)"
proof -
  obtain reg ci where r: "registered_at stacks stack name = Some reg" "client_at (client_new ip (Some p)) (rg_replicas reg) = Some ci"
      "\<not> is_pending ci" "0 < ci_open_connections ci"
    using assms(1-3) by (auto simp: has_edge_def edge_count_def edge_entry_def split: bind_splits option.splits)
  have "hm_get (fst (sv, st)) name = Some (Registered reg)" using r(1) assms(4) by (auto simp: registered_at_def split: option.splits service_info.splits)
  then show ?thesis using r(4) by (intro timeout_spares_active [OF _ client_entry_at [OF r(2,3)]]) (auto split: option.splits)
qed

section \<open>Properties\<close>



text \<open>One whole request: the filter, as many upstream lookups as the framework asks for, the end.\<close>

fun run_peers :: "http_request \<Rightarrow> proxy_answer list \<Rightarrow> proxy_ctx \<Rightarrow> rpc list \<times> proxy_ctx" where
  "run_peers req [] ctx = ([], ctx)"
| "run_peers req (answer # answers) ctx = (case upstream_peer req answer ctx of (calls, _, ctx) \<Rightarrow>
     (case run_peers req answers ctx of (calls', ctx) \<Rightarrow> (calls @ calls', ctx)))"

definition http_trace :: "'c http_proxy \<Rightarrow> http_request \<Rightarrow> check_answer \<Rightarrow> proxy_answer list \<Rightarrow> rpc list" where
  "http_trace proxy req check answers = (case request_filter proxy req check new_ctx of
       (calls, Respond response, ctx) \<Rightarrow> calls @ fst (logging ctx)
     | (calls, Forward, ctx) \<Rightarrow> (case run_peers req answers ctx of (calls', ctx) \<Rightarrow> calls @ calls' @ fst (logging ctx)))"

lemma logging_no_rpc: "ProxyRpc n ip granted \<notin> set (fst (logging ctx))"
  by (auto simp: logging_def split: option.splits)

lemma upstream_peer_asks:
  assumes "upstream_peer req answer ctx = (calls, result, ctx')"
  shows "ProxyRpc n ip granted \<in> set calls \<Longrightarrow> rq_client req = Inet ip \<and> (cx_service_name ctx = None \<or> cx_service_name ctx = Some n)"
    and "cx_service_name ctx = Some m \<Longrightarrow> cx_service_name ctx' = Some m"
    and "\<exists>e. request_url req = Inl e \<Longrightarrow> calls = []"
  using assms by (auto simp: upstream_peer_def resolve_upstream_def Let_def
      split: sum.splits client_addr.splits proxy_answer.splits option.splits upstream_error.splits if_splits)

lemma run_peers_asks:
  assumes "run_peers req answers ctx = (calls, ctx')" "cx_service_name ctx = Some m" "ProxyRpc n ip granted \<in> set calls"
  shows "rq_client req = Inet ip \<and> n = m"
  using assms
proof (induction answers arbitrary: ctx calls ctx')
  case (Cons answer answers)
  obtain calls1 r ctx1 where 1: "upstream_peer req answer ctx = (calls1, r, ctx1)" by (metis surj_pair)
  obtain calls2 ctx2 where 2: "run_peers req answers ctx1 = (calls2, ctx2)" by (metis surj_pair)
  have "calls = calls1 @ calls2" using Cons.prems(1) 1 2 by simp
  then show ?case using Cons.prems(2,3) upstream_peer_asks(1,2) [OF 1] Cons.IH [OF 2] by auto
qed simp

lemma run_peers_silent: "\<exists>e. request_url req = Inl e \<Longrightarrow> fst (run_peers req answers ctx) = []"
proof (induction answers arbitrary: ctx)
  case (Cons answer answers)
  obtain calls1 r ctx1 where 1: "upstream_peer req answer ctx = (calls1, r, ctx1)" by (metis surj_pair)
  then show ?case using Cons upstream_peer_asks(3) [OF 1] by (simp add: split_def)
qed simp

lemma silent_client: "run_peers req answers ctx = (calls, ctx') \<Longrightarrow> ProxyRpc n ip granted \<in> set calls \<Longrightarrow> \<exists>ip. rq_client req = Inet ip"
proof (induction answers arbitrary: ctx calls ctx')
  case (Cons answer answers)
  obtain calls1 r ctx1 where 1: "upstream_peer req answer ctx = (calls1, r, ctx1)" by (metis surj_pair)
  obtain calls2 ctx2 where 2: "run_peers req answers ctx1 = (calls2, ctx2)" by (metis surj_pair)
  have "calls = calls1 @ calls2" using Cons.prems(1) 1 2 by simp
  then show ?case using Cons.prems(2) upstream_peer_asks(1) [OF 1] Cons.IH [OF 2] by auto
qed simp

lemma filter_checks:
  assumes "request_filter proxy req check new_ctx = (calls, Forward, ctx)" "rq_client req = Inet ip" "\<not> (\<exists>e. request_url req = Inl e)"
  shows "\<exists>m. cx_service_name ctx = Some m \<and> calls = [CheckIngress m ip check] \<and> check \<noteq> Refused"
proof -
  obtain url where url: "request_url req = Inr url" using assms(3) by (cases "request_url req") auto
  then obtain host where "ingress_host req = Some host"
    by (auto simp: request_url_def ingress_host_def ingress_raw_host_def split: host_header.splits option.splits)
  then show ?thesis using assms(1,2)
    by (auto simp: request_filter_def route_request_def ingress_client_ip_def new_ctx_def
        split: resolution.splits route_match.splits if_splits)
qed

text \<open>\<^bold>\<open>C8.\<close> On every path, HTTP, TCP and UDP, the first thing a proxy asks the server is whether the ingress
  policy of the very service it is about to contact admits the very client, and when the server
  refuses no backend is asked for, however often the request is retried.\<close>

theorem policy_before_backend:
  "(ProxyRpc n ip granted \<in> set (http_trace proxy req check answers) \<longrightarrow>
      check \<noteq> Refused \<and> hd (http_trace proxy req check answers) = CheckIngress n ip check) \<and>
   (ProxyRpc n ip granted \<in> set (fst (tcp_handle_connection entry client_ip check answer connected)) \<longrightarrow>
      check \<noteq> Refused \<and> hd (fst (tcp_handle_connection entry client_ip check answer connected)) = CheckIngress n ip check) \<and>
   (ProxyRpc n ip granted \<in> set (fst (udp_handle_datagram now entry src check answer bound connected ss)) \<longrightarrow>
      check \<noteq> Refused \<and> hd (fst (udp_handle_datagram now entry src check answer bound connected ss)) = CheckIngress n ip check)"
proof (intro conjI)
  obtain calls out ctx where f: "request_filter proxy req check new_ctx = (calls, out, ctx)" by (metis surj_pair)
  obtain calls' ctx' where p: "run_peers req answers ctx = (calls', ctx')" by (metis surj_pair)
  have own: "ProxyRpc n ip granted \<notin> set calls"
    using f by (auto simp: request_filter_def route_request_def split: option.splits resolution.splits route_match.splits if_splits)
  show "ProxyRpc n ip granted \<in> set (http_trace proxy req check answers) \<longrightarrow>
      check \<noteq> Refused \<and> hd (http_trace proxy req check answers) = CheckIngress n ip check"
  proof
    assume rpc: "ProxyRpc n ip granted \<in> set (http_trace proxy req check answers)"
    then have fw: "out = Forward" "ProxyRpc n ip granted \<in> set calls'"
      using own f p logging_no_rpc by (auto simp: http_trace_def split: filter_outcome.splits)
    have url: "\<not> (\<exists>e. request_url req = Inl e)" using fw(2) p run_peers_silent [of req answers ctx] by auto
    have "rq_client req = Inet ip"
    proof (cases "rq_client req")
      case (Inet x)
      obtain m where "cx_service_name ctx = Some m" using filter_checks [OF f [unfolded fw(1)] Inet url] by blast
      then show ?thesis using run_peers_asks [OF p _ fw(2)] by blast
    qed (use fw(2) p in \<open>auto dest: silent_client\<close>)
    then show "check \<noteq> Refused \<and> hd (http_trace proxy req check answers) = CheckIngress n ip check"
      using filter_checks [OF f [unfolded fw(1)] _ url] run_peers_asks [OF p _ fw(2)] f p fw(1) by (fastforce simp: http_trace_def)
  qed
qed (auto simp: tcp_handle_connection_def udp_handle_datagram_def resolve_upstream_def Let_def
      split: sum.splits proxy_answer.splits option.splits upstream_error.splits if_splits)

theorem policy_before_backend_witness:
  "ProxyRpc ''web'' ''u'' True \<in> set (fst (tcp_handle_connection \<lparr>mp_service_name = ''web'', mp_idle_timeout_secs = 0\<rparr> ''u'' Permitted (Granted (Some (V4 9)) 80 0) True)) \<and>
   hd (fst (tcp_handle_connection \<lparr>mp_service_name = ''web'', mp_idle_timeout_secs = 0\<rparr> ''u'' Permitted (Granted (Some (V4 9)) 80 0) True)) = CheckIngress ''web'' ''u'' Permitted"
proof -
  let ?t = "fst (tcp_handle_connection \<lparr>mp_service_name = ''web'', mp_idle_timeout_secs = 0\<rparr> ''u'' Permitted (Granted (Some (V4 9)) 80 0) True)"
  have "ProxyRpc ''web'' ''u'' True \<in> set ?t" by code_simp
  then show ?thesis using policy_before_backend by blast
qed

section \<open>Certificates\<close>

lemma store_entries:
  assumes "cert_store_from_bundle cr now certificates = (certs, failures)" "hm_get certs domain = Some cert"
  shows "\<exists>cert_pem key_pem. certificate_new cr now domain cert_pem key_pem = Inr cert"
proof -
  define f where "f = (\<lambda>(domain, cert_pem, key_pem) (certs, failures). case certificate_new cr now domain cert_pem key_pem of
       Inr cert \<Rightarrow> (hm_insert domain cert certs, failures) | Inl reason \<Rightarrow> (certs, failures @ [(domain, reason)]))"
  let ?I = "\<lambda>certs. \<forall>domain cert. hm_get certs domain = Some cert \<longrightarrow> (\<exists>cert_pem key_pem. certificate_new cr now domain cert_pem key_pem = Inr cert)"
  have "?I (fst (fold f xs acc))" if "?I (fst acc)" for xs acc
    using that
  proof (induction xs arbitrary: acc)
    case (Cons x xs)
    have "?I (fst (f x acc))" using Cons.prems by (cases x; cases acc) (auto simp: f_def split: sum.splits)
    then show ?case using Cons.IH by simp
  qed simp
  from this [of "([], [])" certificates] show ?thesis using assms unfolding cert_store_from_bundle_def f_def [symmetric] by simp
qed

lemma ascii_lower_fixed: "ascii_lower c = d \<Longrightarrow> \<not> (97 \<le> (of_char d :: nat) \<and> (of_char d :: nat) \<le> 122) \<Longrightarrow> c = d"
  by (auto simp: ascii_lower_def Let_def split: if_splits)

lemma wildcard_spelled:
  assumes "eq_ignore_ascii_case san (''*.'' @ parent)"
  obtains rest where "san = ''*.'' @ rest" "eq_ignore_ascii_case parent rest"
proof -
  have "map ascii_lower san = ascii_lower CHR ''*'' # ascii_lower CHR ''.'' # map ascii_lower parent" using assms by (simp add: eq_ignore_ascii_case_def)
  then obtain a b rest where s: "san = a # b # rest" "ascii_lower a = ascii_lower CHR ''*''" "ascii_lower b = ascii_lower CHR ''.''" "map ascii_lower rest = map ascii_lower parent"
    by (auto simp: map_eq_Cons_conv)
  have "ascii_lower CHR ''*'' = CHR ''*''" "ascii_lower CHR ''.'' = CHR ''.''" by code_simp+
  then have "a = CHR ''*''" "b = CHR ''.''" using s(2,3) ascii_lower_fixed [of a "CHR ''*''"] ascii_lower_fixed [of b "CHR ''.''"] by simp_all
  then show thesis using that s(1,4) by (simp add: eq_ignore_ascii_case_def)
qed

lemma wildcard_covers:
  assumes "name_matches san (''*.'' @ parent)" "split_once (CHR ''.'') host = Some (label, parent)"
  shows "name_matches san host"
proof -
  have star: "split_once (CHR ''.'') (''*.'' @ parent) = Some (''*'', parent)" by (simp add: split_once_def)
  have "\<exists>rest. san = ''*.'' @ rest \<and> eq_ignore_ascii_case parent rest"
  proof (cases "eq_ignore_ascii_case san (''*.'' @ parent)")
    case True
    then show ?thesis by (elim wildcard_spelled) blast
  next
    case False
    then obtain rest where "strip_prefix ''*.'' san = Some rest" "eq_ignore_ascii_case parent rest"
      using assms(1) star by (auto simp: name_matches_def split: option.splits)
    then show ?thesis by (auto simp: strip_prefix_def prefix_def split: if_splits)
  qed
  then obtain rest where "san = ''*.'' @ rest" "eq_ignore_ascii_case parent rest" by blast
  then have "strip_prefix ''*.'' san = Some rest" by (simp add: strip_prefix_def)
  then show ?thesis using assms(2) \<open>eq_ignore_ascii_case parent rest\<close> by (simp add: name_matches_def)
qed

text \<open>\<^bold>\<open>C9.\<close> The certificate a proxy picks for the server name of a handshake belongs to its private key, was valid
  when it was loaded and covers that name, also when it was found under the wildcard of the parent domain.\<close>

theorem sni_certificate_covers:
  assumes "cert_store_from_bundle cr now certificates = (certs, failures)" "cert_get certs host = Some cert"
  shows "cert_covers_domain (ct_leaf cert) host \<and> cr_key_matches cr (ct_leaf cert) (ct_private_key cert) \<and>
    lf_not_before (ct_leaf cert) \<le> now \<and> now \<le> lf_not_after (ct_leaf cert)"
proof -
  obtain domain where d: "hm_get certs domain = Some cert" "domain = host \<or> (\<exists>label parent. split_once (CHR ''.'') host = Some (label, parent) \<and> domain = ''*.'' @ parent)"
    using assms(2) by (auto simp: cert_get_def split: option.splits)
  obtain cert_pem key_pem where "certificate_new cr now domain cert_pem key_pem = Inr cert" using store_entries [OF assms(1) d(1)] by blast
  then have c: "cert_covers_domain (ct_leaf cert) domain" "cr_key_matches cr (ct_leaf cert) (ct_private_key cert)"
    "lf_not_before (ct_leaf cert) \<le> now" "now \<le> lf_not_after (ct_leaf cert)"
    by (auto simp: certificate_new_def split: option.splits list.splits if_splits)
  have "cert_covers_domain (ct_leaf cert) host"
  proof (cases "domain = host")
    case False
    then obtain label parent where "split_once (CHR ''.'') host = Some (label, parent)" "domain = ''*.'' @ parent" using d(2) by blast
    then have "name_matches san domain \<Longrightarrow> name_matches san host" for san using wildcard_covers by blast
    then show ?thesis using c(1) by (auto simp: cert_covers_domain_def list_ex_iff split: option.splits)
  qed (use c(1) in simp)
  then show ?thesis using c by simp
qed

definition toy_crypto :: "unit crypto" where
  "toy_crypto = \<lparr>cr_certs_of_pem = (\<lambda>pem. Some [\<lparr>lf_dns_names = [''*.Color.com''], lf_common_name = None, lf_not_before = 0, lf_not_after = 9\<rparr>]),
     cr_key_of_pem = (\<lambda>_. Some ()), cr_key_matches = (\<lambda>_ _. True)\<rparr>"

theorem sni_certificate_covers_witness:
  "\<exists>cert. cert_get (fst (cert_store_from_bundle toy_crypto 5 [(''*.color.com'', [], [])])) ''app.color.com'' = Some cert \<and>
     cert_covers_domain (ct_leaf cert) ''app.color.com''"
proof -
  let ?r = "cert_store_from_bundle toy_crypto 5 [(''*.color.com'', [], [])]"
  have "(case cert_get (fst ?r) ''app.color.com'' of Some _ \<Rightarrow> True | None \<Rightarrow> False)" by code_simp
  then obtain cert where c: "cert_get (fst ?r) ''app.color.com'' = Some cert" by (auto split: option.splits)
  then show ?thesis using sni_certificate_covers [of toy_crypto 5 _ "fst ?r" "snd ?r"] by auto
qed

section \<open>Redirects\<close>

text \<open>A redirect to a path stays on the host of the request as long as nothing in it looks like a scheme.\<close>

lemma redirect_keeps_host:
  assumes "\<not> contains ''://'' to" "preserve_path = False" "preserve_query = False"
  shows "\<exists>rest. resolve_redirect_target to matched_suffix preserve_path preserve_query req tls =
    (if tls then ''https'' else ''http'') @ ''://'' @ host_text req @ rest"
proof -
  have split: "to = b @ ''?'' @ q" if "split_once (CHR ''?'') to = Some (b, q)" for b q
    using that by (auto simp: split_once_def dropWhile_eq_Cons_conv split: list.splits)
  show ?thesis using assms split unfolding resolve_redirect_target_def Let_def
    by (cases "split_once (CHR ''?'') to") auto
qed


section \<open>Leaks\<close>

text \<open>An upstream address the proxy cannot read has been counted by the server and is never closed: the guard
  that reports the close is made only after the address was read.\<close>

theorem unreadable_answer_leaks:
  "\<not> usable answer \<and> check \<noteq> Refused \<longrightarrow>
    snd (tcp_handle_connection entry client_ip check answer connected) = None \<and>
    opens (mp_service_name entry, client_ip) (fst (tcp_handle_connection entry client_ip check answer connected)) = 1 \<and>
    closes (mp_service_name entry, client_ip) (fst (tcp_handle_connection entry client_ip check answer connected)) = 0"
  by (auto simp: usable_def tcp_handle_connection_def resolve_upstream_def Let_def split: proxy_answer.splits option.splits)

theorem unreadable_answer_leaks_witness:
  "\<not> usable (Granted (Some (V4 9)) 70000 0) \<and>
   opens (''web'', ''u'') (fst (tcp_handle_connection \<lparr>mp_service_name = ''web'', mp_idle_timeout_secs = 0\<rparr> ''u'' Permitted (Granted (Some (V4 9)) 70000 0) True)) = 1"
proof -
  have u: "\<not> usable (Granted (Some (V4 9)) 70000 0)" by code_simp
  then show ?thesis using unreadable_answer_leaks [of "Granted (Some (V4 9)) 70000 0" Permitted "\<lparr>mp_service_name = ''web'', mp_idle_timeout_secs = 0\<rparr>" "''u''" True] by simp
qed

text \<open>A UDP port cannot be bound again after its listener was aborted while it had sessions, although every
  session was reported closed: the relay tasks of the sessions keep the socket.\<close>

theorem udp_rebind_blocked:
  assumes "un_listener port = Some ss" "ss \<noteq> []"
  shows "udp_bind (snd (udp_abort port)) = None \<and> closes g (fst (udp_abort port)) = sessions_of g ss"
  using assms udp_drop_calls [of g ss] by (simp add: udp_bind_def udp_abort_def)

theorem udp_rebind_blocked_witness:
  "udp_bind (snd (udp_abort \<lparr>un_listener = Some [((''u'', 7), \<lparr>us_upstream = (V4 9, 53), us_last_active = 0, us_close = (''dns'', ''u'')\<rparr>)], un_detached = 0\<rparr>)) = None"
  using udp_rebind_blocked [of "\<lparr>un_listener = Some [((''u'', 7), \<lparr>us_upstream = (V4 9, 53), us_last_active = 0, us_close = (''dns'', ''u'')\<rparr>)], un_detached = 0\<rparr>"]
  by simp

end
