(* ===== verification/Spec2Isabelle.thy ===== *)
theory Spec2Isabelle
  imports Edge_Props Chain_Holds Congestion_Props Config_Round Proxy_Conns
begin

text \<open>
  A verification of Nullnet: its control server and the ingress proxy.

  \<^bold>\<open>The program.\<close>  The server (\<^verbatim>\<open>members/nullnet-server\<close>) keeps a registry of services per stack.  Nodes and
  proxies hold control streams to it.  When a proxy asks for a service on behalf of a client, the
  server picks a replica, builds a point-to-point network from the proxy to it and further networks
  along the service's dependency chain, and answers with an address inside the first one.  Networks
  carry identifiers from a pool; they are torn down when sessions idle out, replicas or nodes vanish,
  or the configuration changes.  The proxy (\<^verbatim>\<open>members/nullnet-proxy\<close>) is configured by two tables the server
  pushes and reports every connection it opens and closes.

  \<^bold>\<open>Conventions\<close> (\<^theory_text>\<open>Prelude\<close>).  Machine integers are words.  A hash map is an association list with distinct
  keys; the list order stands for the iteration order, which no statement fixes.  Instants are
  milliseconds.  A panic is \<^const>\<open>None\<close>, an error is the left side of a sum.  Identities drawn at random or by allocation
  come from one counter.  A function that awaits is split into one definition per critical section,
  so that whatever runs in between can be interleaved.  Third-party code (the filter engine, the
  CIDR type, the JSON codec, the geolocation service, the cryptographic library) and random keys are arguments.

  \<^bold>\<open>The server's parts.\<close>

  \<^item> \<^theory_text>\<open>Net_Id_Pool\<close> (\<^verbatim>\<open>net_id_pool.rs\<close>): the pool of network identifiers, an implementation of an allocator
    contract; holders never share an identifier.
  \<^item> \<^theory_text>\<open>Net_Messages\<close> (\<^verbatim>\<open>net.rs\<close>): setup and teardown messages and the addresses derived from an
    identifier; endpoints of different networks have different addresses, a teardown names what
    the setup created.
  \<^item> \<^theory_text>\<open>Clients\<close> (\<^verbatim>\<open>services/clients.rs\<close>): the entries of a replica's clients and the carrier index, which
    counts exactly.
  \<^item> \<^theory_text>\<open>Orchestrator\<close>, \<^theory_text>\<open>Net_Lifecycle\<close>, \<^theory_text>\<open>Egress_Edges\<close> (\<^verbatim>\<open>orchestrator.rs\<close>): streams, acknowledgements, deferred
    teardowns, egress edges and trigger sessions.  Under every interleaving of the teardown tasks
    an identifier is reused only after both ends confirmed or were gone, and is then released.
  \<^item> \<^theory_text>\<open>Filter_Policy\<close> (\<^verbatim>\<open>services/firewall.rs\<close>): validation and verdict of traffic filters, against the
    disjunction of conjunctions they denote.
  \<^item> \<^theory_text>\<open>Service_Info\<close>, \<^theory_text>\<open>Service_Inv\<close> (\<^verbatim>\<open>services/service_info.rs\<close>): services, replicas, holds, pausing of
    containers, and the registry invariant every operation keeps.
  \<^item> \<^theory_text>\<open>Changes\<close>, \<^theory_text>\<open>Changes_Inv\<close>, \<^theory_text>\<open>Changes_Props\<close>, \<^theory_text>\<open>Chain_Walk\<close> (\<^verbatim>\<open>services/changes.rs\<close>): what changed, the walk
    along dependency chains, and the teardowns.  Applying changes never panics and achieves each
    change; a disconnected node leaves nothing behind.
  \<^item> \<^theory_text>\<open>Timeouts\<close> (\<^verbatim>\<open>timeout.rs\<close>): a turn of the reaper and the sleep before it, during which nothing falls due.
  \<^item> \<^theory_text>\<open>Chain_Setup\<close>, \<^theory_text>\<open>Fresh_Ids\<close>, \<^theory_text>\<open>Chain_Steps\<close>, \<^theory_text>\<open>Chain_Reach\<close>, \<^theory_text>\<open>Edge_Props\<close>, \<^theory_text>\<open>Chain_Holds\<close>
    (\<^verbatim>\<open>nullnet_grpc_impl.rs\<close>, \<^verbatim>\<open>setup_edge\<close> and \<^verbatim>\<open>run_net_chain_setup\<close>): claims, builds and promotions of edges
    interleaved with everything else that changes a registry.  The registry stays consistent, no
    step panics, an edge has one builder, and a finished build owns its network or tears it down.
  \<^item> \<^theory_text>\<open>Proxy_Locks\<close>, \<^theory_text>\<open>Proxy_Requests\<close> (\<^verbatim>\<open>nullnet_grpc_impl.rs\<close>, \<^verbatim>\<open>handle_proxy_request\<close> and what it calls): the lock of a
    session, the hard cap, the sections of a request.
  \<^item> \<^theory_text>\<open>Floats\<close>, \<^theory_text>\<open>Congestion\<close>, \<^theory_text>\<open>Congestion_Props\<close> (\<^verbatim>\<open>congestion.rs\<close>): pressure windows and token buckets, with
    the rounding of double precision; well-formedness, the cycle of modes, the bound on bursts.
  \<^item> \<^theory_text>\<open>Config_Input\<close>, \<^theory_text>\<open>Config_Props\<close> (\<^verbatim>\<open>services/input.rs\<close>): validation of a stack and conflicts between stacks.
  \<^item> \<^theory_text>\<open>Config_Store\<close>, \<^theory_text>\<open>Config_Live\<close>, \<^theory_text>\<open>Config_Reach\<close>, \<^theory_text>\<open>Config_Round\<close> (\<^verbatim>\<open>db/stacks.rs\<close>, \<^verbatim>\<open>db/observations.rs\<close>, the
    configuration handlers of \<^verbatim>\<open>http_server\<close>): tables, loading, applying, saving.  Applying refines an
    assignment to the live configuration, lookups stay unambiguous, what is saved is loaded.

  \<^bold>\<open>The proxy and its seam with the server.\<close>

  \<^item> \<^theory_text>\<open>Proxy_Tables\<close> (\<^verbatim>\<open>build_port_mapping_bundle\<close>, \<^verbatim>\<open>build_http_route_bundle\<close>; \<^verbatim>\<open>routes.rs\<close>, \<^verbatim>\<open>port_mappings.rs\<close>): both ends of the
    pushed tables.  In every configuration the server can reach, the proxy routes by the longest
    declared prefix and serves exactly the declared ports.
  \<^item> \<^theory_text>\<open>Proxy_Relay\<close>, \<^theory_text>\<open>Proxy_Conns\<close> (\<^verbatim>\<open>main.rs\<close>, \<^verbatim>\<open>nullnet_proxy.rs\<close>, \<^verbatim>\<open>tcp_relay.rs\<close>, \<^verbatim>\<open>udp_relay.rs\<close>, \<^verbatim>\<open>tls.rs\<close>,
    \<^verbatim>\<open>hsts.rs\<close>): requests, connections and sessions as steps of one relation.  The server counts exactly
    the ones that run, so its idle pass spares edges in use; the ingress policy is asked first; a
    certificate covers the name it is served for.

  \<^bold>\<open>Interfaces.\<close>  Locales state what one part promises another, each interpreted on the definitions of
  the provider: maps and reference counts in \<^theory_text>\<open>Prelude\<close>, the allocator in \<^theory_text>\<open>Net_Id_Pool\<close>, the reaping
  of idle edges in \<^theory_text>\<open>Egress_Edges\<close>, and the server that counts connections in \<^theory_text>\<open>Proxy_Conns\<close>.

  \<^bold>\<open>Bounds.\<close>  No definition runs on fuel: loops are structural or have a termination proof, and a loop that
  waits for other tasks is a sequence of steps.  Statements about returning say that the result is \<^const>\<open>Some\<close>.
  The connection counts assume what the server sends, an address and a 16-bit port (\<^verbatim>\<open>usable\<close>), and
  that each close report arrives once; a report whose reply is lost is sent up to three times.

  \<^bold>\<open>Shown not to hold.\<close>  Some statements show by a concrete run where the code departs from what it means to do: a shared
  network closed with the last hold of one of its users, a network leaked from the middle of a
  chain, the race under the hard cap, the panic of a lookup, an observation that brings
  conflicting stacks to life, a lost cap, a filter rule that can never match, a redirect that leaves
  the host.

  \<^bold>\<open>Not modelled.\<close>  Of the server: the remaining gRPC handlers (service lists, backend and egress triggers, liveness and
  country reports), of which only the registry and orchestrator operations they call are modelled, events and session records (calls into them are
  log entries), users and authentication, ACME and DNS providers, dashboard views, process
  start.  Of the proxy: copying bytes, response headers beyond those it sets itself, the
  subscription tasks.  The client (\<^verbatim>\<open>members/nullnet-client\<close>) and the eBPF programs drive the kernel by netlink, netfilter
  queues and packet buffers; their acknowledgements and reports are inputs of the server's model.
\<close>

end
